(* ===== verification/Prelude.thy ===== *)
theory Prelude
  imports Main "HOL-Library.Word"
begin

text \<open>
  The shared vocabulary of the development.

  \<^item> Identifiers and clocks: \<open>uuid\<close> is the 128-bit value of a UUID as a natural number
    (PostgreSQL orders UUIDs bytewise, which is the order of that value; \<open>0\<close> is Go's zero
    \<open>uuid.UUID\<close>), \<open>time\<close> is a timestamp in microseconds, the resolution of \<open>timestamptz\<close>.
  \<^item> Statements on tables: a table is the list of its rows; \<open>sql_update\<close>, \<open>sql_delete\<close> and
    \<open>filter\<close> are UPDATE, DELETE and SELECT with a WHERE predicate.
  \<^item> Errors: a fallible operation returns \<open>Inl\<close> of an error or \<open>Inr\<close> of its result, sequenced
    by \<open>bindE\<close>, which stops at the first error as Go's early returns do.
\<close>

named_theorems table_simps "behaviour of the statements on tables"
named_theorems state_simps "behaviour of the monitor state machine"
named_theorems codec_simps "byte encodings and their decoders"

type_synonym uuid = nat
type_synonym time = int

text \<open>Microseconds in a second, as \<open>make_interval(secs => n)\<close> scales its argument.\<close>

abbreviation secs :: "int \<Rightarrow> time" where
  "secs n \<equiv> n * 1000000"

subsection \<open>Statements on tables\<close>

definition sql_update :: "('r \<Rightarrow> bool) \<Rightarrow> ('r \<Rightarrow> 'r) \<Rightarrow> 'r list \<Rightarrow> 'r list" where
  "sql_update p f rows = map (\<lambda>r. if p r then f r else r) rows"

definition sql_delete :: "('r \<Rightarrow> bool) \<Rightarrow> 'r list \<Rightarrow> 'r list" where
  "sql_delete p rows = filter (\<lambda>r. \<not> p r) rows"

lemma sql_update_simps [simp, table_simps]:
  "sql_update p f [] = []"
  "sql_update p f (r # rs) = (if p r then f r else r) # sql_update p f rs"
  "sql_update p f (rs @ rs') = sql_update p f rs @ sql_update p f rs'"
  by (simp_all add: sql_update_def)

lemma sql_delete_simps [simp, table_simps]:
  "sql_delete p [] = []"
  "sql_delete p (r # rs) = (if p r then sql_delete p rs else r # sql_delete p rs)"
  "sql_delete p (rs @ rs') = sql_delete p rs @ sql_delete p rs'"
  by (simp_all add: sql_delete_def)

lemma length_sql_update [simp]: "length (sql_update p f rows) = length rows"
  by (simp add: sql_update_def)

lemma set_sql_update: "set (sql_update p f rows) = (\<lambda>r. if p r then f r else r) ` set rows"
  by (simp add: sql_update_def)

lemma set_sql_delete [simp]: "set (sql_delete p rows) = {r \<in> set rows. \<not> p r}"
  by (auto simp: sql_delete_def)

lemma sql_update_id: "(\<And>r. r \<in> set rows \<Longrightarrow> \<not> p r) \<Longrightarrow> sql_update p f rows = rows"
  by (induction rows) auto

text \<open>An update that keeps a column keeps the list of its values.\<close>

lemma map_sql_update: "(\<And>r. g (f r) = g r) \<Longrightarrow> map g (sql_update p f rows) = map g rows"
  by (induction rows) auto

text \<open>
  An update whose predicate selects none of the rows a filter keeps, and that moves no row into
  or out of the filter, is invisible to the filter.
\<close>

lemma filter_sql_update_other:
  assumes "\<And>r. p r \<Longrightarrow> \<not> q r" and "\<And>r. p r \<Longrightarrow> \<not> q (f r)"
  shows "filter q (sql_update p f rows) = filter q rows"
  using assms by (induction rows) auto

lemma filter_sql_update_same:
  assumes "\<And>r. q (f r) = q r"
  shows "filter q (sql_update p f rows) = sql_update p f (filter q rows)"
  using assms by (induction rows) auto

lemma find_map_same:
  assumes "\<And>r. p (f r) = p r"
  shows "find p (map f rows) = map_option f (find p rows)"
  using assms by (induction rows) auto

lemma find_sql_update:
  assumes "\<And>r. q (f r) = q r"
  shows "find q (sql_update p f rows) = map_option (\<lambda>r. if p r then f r else r) (find q rows)"
  unfolding sql_update_def by (rule find_map_same) (simp add: assms)

lemma find_Some_iff_distinct:
  assumes "distinct (map k rows)"
  shows "find (\<lambda>r. k r = x) rows = Some r \<longleftrightarrow> r \<in> set rows \<and> k r = x"
  using assms by (induction rows) force+

lemma find_sql_delete_other:
  "(\<And>r. q r \<Longrightarrow> \<not> p r) \<Longrightarrow> find q (sql_delete p rows) = find q rows"
  by (induction rows) auto

text \<open>An upsert's UPDATE by key, seen through a lookup by key.\<close>

lemma find_update_key:
  assumes "\<And>s. k (f s) = a"
  shows "find (\<lambda>s. k s = b) (sql_update (\<lambda>s. k s = a) f rows) =
    (if a = b then map_option f (find (\<lambda>s. k s = a) rows) else find (\<lambda>s. k s = b) rows)"
  using assms by (induction rows) auto

text \<open>\<open>INSERT ... SELECT ... ON CONFLICT (key) DO NOTHING\<close>: the rows with a new key, in order.\<close>

fun insert_missing :: "('r \<Rightarrow> 'k) \<Rightarrow> 'r list \<Rightarrow> 'r list \<Rightarrow> 'r list" where
  "insert_missing k rows [] = rows"
| "insert_missing k rows (e # es) =
     insert_missing k (if list_ex (\<lambda>x. k x = k e) rows then rows else rows @ [e]) es"

lemma insert_missing_keys:
  "k ` set (insert_missing k rows es) = k ` set rows \<union> k ` set es"
proof (induction es arbitrary: rows)
  case (Cons e es)
  have "insert (k e) (k ` set rows) = k ` set rows" if "list_ex (\<lambda>x. k x = k e) rows"
    using that by (intro insert_absorb) (metis (mono_tags, lifting) imageI list_ex_iff)
  with Cons show ?case by auto
qed simp

lemma insert_missing_distinct:
  "distinct (map k rows) \<Longrightarrow> distinct (map k (insert_missing k rows es))"
proof (induction es arbitrary: rows)
  case (Cons e es)
  have "distinct (map k (rows @ [e]))" if "\<not> list_ex (\<lambda>x. k x = k e) rows"
    using that Cons.prems by (force simp: list_ex_iff)
  with Cons show ?case by simp
qed simp

lemma insert_missing_set: "x \<in> set (insert_missing k rows es) \<Longrightarrow> x \<in> set rows \<or> x \<in> set es"
proof (induction es arbitrary: rows)
  case (Cons e es)
  from Cons.IH [OF Cons.prems [unfolded insert_missing.simps]] show ?case by (auto split: if_splits)
qed simp

lemma insert_missing_keeps: "x \<in> set rows \<Longrightarrow> x \<in> set (insert_missing k rows es)"
  by (induction es arbitrary: rows) simp_all

lemma insert_missing_known: "k ` set es \<subseteq> k ` set rows \<Longrightarrow> insert_missing k rows es = rows"
proof (induction es arbitrary: rows)
  case (Cons e es)
  then have "list_ex (\<lambda>x. k x = k e) rows" by (force simp: list_ex_iff image_iff)
  with Cons show ?case by simp
qed simp

lemma find_SomeD: "find p xs = Some x \<Longrightarrow> x \<in> set xs \<and> p x"
  by (auto simp: find_Some_iff)

lemma find_append: "find p (xs @ ys) = (case find p xs of None \<Rightarrow> find p ys | Some r \<Rightarrow> Some r)"
  by (induction xs) auto

subsection \<open>Results that may be an error\<close>

definition bindE :: "'e + 'a \<Rightarrow> ('a \<Rightarrow> 'e + 'b) \<Rightarrow> 'e + 'b" where
  "bindE m f = (case m of Inl e \<Rightarrow> Inl e | Inr x \<Rightarrow> f x)"

lemma bindE_simps [simp]:
  "bindE (Inl e) f = Inl e"
  "bindE (Inr x) f = f x"
  by (simp_all add: bindE_def)

lemma bindE_eq_Inr: "bindE m f = Inr y \<longleftrightarrow> (\<exists>x. m = Inr x \<and> f x = Inr y)"
  by (cases m) auto

lemma bindE_eq_Inl: "bindE m f = Inl e \<longleftrightarrow> m = Inl e \<or> (\<exists>x. m = Inr x \<and> f x = Inl e)"
  by (cases m) auto

subsection \<open>Machines and their runs\<close>

text \<open>
  A component that consumes one input after another is a step function. An invariant of every step
  is an invariant of every run.
\<close>

locale machine_run =
  fixes step :: "'s \<Rightarrow> 'e \<Rightarrow> 's" and inv :: "'s \<Rightarrow> bool"
  assumes step_inv: "inv s \<Longrightarrow> inv (step s e)"
begin

lemma run_inv: "inv s \<Longrightarrow> inv (foldl step s es)"
  by (induction es arbitrary: s) (simp_all add: step_inv)

lemma run_inv_prefix: "inv s \<Longrightarrow> inv (foldl step s (take n es))"
  by (rule run_inv)

end

subsection \<open>Lists\<close>

lemma sorted_wrt_filter_less:
  "sorted_wrt (<) (xs :: 'a :: linorder list) \<Longrightarrow> sorted_wrt (<) (filter p xs)"
  by (rule sorted_wrt_filter)

lemma concat_map_single:
  "(\<And>x. x \<in> set xs \<Longrightarrow> f x = [g x]) \<Longrightarrow> concat (map f xs) = map g xs"
  by (induction xs) simp_all

lemma distinct_map_filter: "distinct (map f xs) \<Longrightarrow> distinct (map f (filter p xs))"
  by (induction xs) auto

end
