(* ===== verification/MonitorState.thy ===== *)
theory MonitorState
  imports Prelude
begin

text \<open>
  The pure transition logic of \<open>shared/monitorstate/state.go\<close> and the freshness window of
  \<open>shared/monitorstate/freshness.go\<close>: the temporal machine \<open>Apply\<close> (one evidence stream), the
  spatial rule \<open>AggregateLocations\<close> (the quorum over the locations of one monitor), and what
  they guarantee. The rule names S-T, S-A and S-F are those of \<open>docs/state-semantics.md\<close>.

  Go's \<open>int\<close> is modelled by \<open>int\<close>: the values are thresholds, quorums, small counts and
  consecutive-failure counters, which stay far from the 64-bit bounds.
\<close>

section \<open>Data\<close>

datatype State = StateUnknown | StateUp | StateSuspect | StateDown | StateDegraded

record Snapshot =
  snap_State :: State
  snap_ConsecutiveFailures :: int

record Transition =
  tr_From :: State
  tr_To :: State
  tr_ConsecutiveFailures :: int
  tr_Changed :: bool
  tr_OpenedOutage :: bool
  tr_ClosedOutage :: bool
  tr_Duplicate :: bool
  tr_HistoryOnly :: bool

record LocationCounts =
  lc_Down :: int
  lc_Suspect :: int
  lc_Up :: int
  lc_Selected :: int

section \<open>The temporal machine\<close>

text \<open>
  The Go function fills a zero \<open>Transition\<close> field by field; each branch of the model is the
  record with the fields that branch assigned, the others at their zero value.
\<close>

definition Apply :: "Snapshot \<Rightarrow> bool \<Rightarrow> int \<Rightarrow> Transition" where
  "Apply current resultIsFailure threshold0 =
    (let threshold = (if threshold0 < 1 then 1 else threshold0) in
     if \<not> resultIsFailure then
       \<lparr>tr_From = snap_State current,
        tr_To = StateUp,
        tr_ConsecutiveFailures = 0,
        tr_Changed = (snap_State current \<noteq> StateUp),
        tr_OpenedOutage = False,
        tr_ClosedOutage = (snap_State current = StateDown),
        tr_Duplicate = False,
        tr_HistoryOnly = False\<rparr>
     else
       let cf = snap_ConsecutiveFailures current + 1;
           to = (if snap_State current = StateDown \<or> cf \<ge> threshold
                 then StateDown else StateSuspect) in
       \<lparr>tr_From = snap_State current,
        tr_To = to,
        tr_ConsecutiveFailures = cf,
        tr_Changed = (to \<noteq> snap_State current),
        tr_OpenedOutage = (to = StateDown \<and> snap_State current \<noteq> StateDown),
        tr_ClosedOutage = False,
        tr_Duplicate = False,
        tr_HistoryOnly = False\<rparr>)"

definition IsFailureStatus :: "string \<Rightarrow> bool" where
  "IsFailureStatus status \<longleftrightarrow> status = ''failure'' \<or> status = ''error''"

section \<open>The spatial rule\<close>

definition AggregateLocations :: "LocationCounts \<Rightarrow> int \<Rightarrow> State" where
  "AggregateLocations c quorum0 =
    (let quorum1 = (if quorum0 < 1 then 1 else quorum0);
         quorum = (if quorum1 > lc_Selected c \<and> lc_Selected c > 0
                   then lc_Selected c else quorum1) in
     if lc_Down c \<ge> quorum then StateDown
     else if lc_Down c > 0 then StateDegraded
     else if lc_Suspect c > 0 then StateSuspect
     else if lc_Up c > 0 then StateUp
     else StateUnknown)"

section \<open>Freshness\<close>

definition StaleMultiplier :: int where
  "StaleMultiplier = 3"

definition MinFreshnessSeconds :: int where
  "MinFreshnessSeconds = 90"

definition FreshnessHorizonSeconds :: "int \<Rightarrow> int" where
  "FreshnessHorizonSeconds intervalSeconds =
    (let h = intervalSeconds * StaleMultiplier in
     if h < MinFreshnessSeconds then MinFreshnessSeconds else h)"

section \<open>One step of the temporal machine\<close>

text \<open>The effective threshold and quorum, after the clamps the code starts with.\<close>

definition eff_threshold :: "int \<Rightarrow> int" where
  "eff_threshold n = max 1 n"

definition eff_quorum :: "LocationCounts \<Rightarrow> int \<Rightarrow> int" where
  "eff_quorum c q = (if lc_Selected c > 0 then min (max 1 q) (lc_Selected c) else max 1 q)"

lemma Apply_pass [simp, state_simps]:
  "tr_To (Apply s False n) = StateUp"
  "tr_ConsecutiveFailures (Apply s False n) = 0"
  "tr_OpenedOutage (Apply s False n) = False"
  "tr_ClosedOutage (Apply s False n) = (snap_State s = StateDown)"
  by (simp_all add: Apply_def Let_def)

lemma Apply_fail [simp, state_simps]:
  "tr_To (Apply s True n) =
     (if snap_State s = StateDown \<or> eff_threshold n \<le> snap_ConsecutiveFailures s + 1
      then StateDown else StateSuspect)"
  "tr_ConsecutiveFailures (Apply s True n) = snap_ConsecutiveFailures s + 1"
  "tr_OpenedOutage (Apply s True n) =
     (snap_State s \<noteq> StateDown \<and> eff_threshold n \<le> snap_ConsecutiveFailures s + 1)"
  "tr_ClosedOutage (Apply s True n) = False"
  by (auto simp: Apply_def Let_def eff_threshold_def)

lemma Apply_any [simp, state_simps]:
  "tr_From (Apply s f n) = snap_State s"
  "tr_Changed (Apply s f n) = (tr_To (Apply s f n) \<noteq> snap_State s)"
  "tr_Duplicate (Apply s f n) = False"
  "tr_HistoryOnly (Apply s f n) = False"
  by (auto simp: Apply_def Let_def)

text \<open>
  S-T5: whatever the input, the machine outputs up, suspect or down; a monitor becomes unknown or
  degraded only through another component.
\<close>

lemma Apply_range: "tr_To (Apply s f n) \<in> {StateUp, StateSuspect, StateDown}"
  by (cases f) auto

section \<open>A stream of evidence\<close>

text \<open>
  Every caller stores \<open>tr_To\<close> and \<open>tr_ConsecutiveFailures\<close> back as the stream's next
  snapshot, so a stream is the iteration of \<open>stream_step\<close> over its results (\<open>True\<close> for a
  failing one).
\<close>

definition next_snapshot :: "Transition \<Rightarrow> Snapshot" where
  "next_snapshot t = \<lparr>snap_State = tr_To t, snap_ConsecutiveFailures = tr_ConsecutiveFailures t\<rparr>"

definition stream_step :: "int \<Rightarrow> Snapshot \<Rightarrow> bool \<Rightarrow> Snapshot" where
  "stream_step n s f = next_snapshot (Apply s f n)"

lemma next_snapshot_simps [simp]:
  "snap_State (next_snapshot t) = tr_To t"
  "snap_ConsecutiveFailures (next_snapshot t) = tr_ConsecutiveFailures t"
  by (simp_all add: next_snapshot_def)

lemma stream_step_simps [simp, state_simps]:
  "snap_State (stream_step n s f) = tr_To (Apply s f n)"
  "snap_ConsecutiveFailures (stream_step n s f) = tr_ConsecutiveFailures (Apply s f n)"
  by (simp_all add: stream_step_def)

text \<open>
  A snapshot is coherent when its counter explains its state: up means no trailing failure,
  suspect a positive count below the threshold, down a count that reached it.
\<close>

definition coherent :: "int \<Rightarrow> Snapshot \<Rightarrow> bool" where
  "coherent n s \<longleftrightarrow>
     (case snap_State s of
        StateUnknown \<Rightarrow> snap_ConsecutiveFailures s = 0
      | StateUp \<Rightarrow> snap_ConsecutiveFailures s = 0
      | StateSuspect \<Rightarrow> 0 < snap_ConsecutiveFailures s \<and> snap_ConsecutiveFailures s < eff_threshold n
      | StateDown \<Rightarrow> eff_threshold n \<le> snap_ConsecutiveFailures s
      | StateDegraded \<Rightarrow> False)"

lemma stream_step_coherent: "coherent n s \<Longrightarrow> coherent n (stream_step n s f)"
  by (cases f) (auto simp: coherent_def split: State.splits)

interpretation stream: machine_run "stream_step n" "coherent n" for n
  by unfold_locales (rule stream_step_coherent)

definition trailing_failures :: "bool list \<Rightarrow> nat" where
  "trailing_failures fs = length (takeWhile id (rev fs))"

lemma trailing_failures_snoc [simp]:
  "trailing_failures [] = 0"
  "trailing_failures (fs @ [f]) = (if f then Suc (trailing_failures fs) else 0)"
  by (simp_all add: trailing_failures_def)

definition run_state :: "int \<Rightarrow> nat \<Rightarrow> State" where
  "run_state n k = (if eff_threshold n \<le> int k then StateDown
                    else if 0 < k then StateSuspect else StateUp)"

lemma run_from_up:
  "foldl (stream_step n) \<lparr>snap_State = StateUp, snap_ConsecutiveFailures = 0\<rparr> fs =
   \<lparr>snap_State = run_state n (trailing_failures fs),
    snap_ConsecutiveFailures = int (trailing_failures fs)\<rparr>"
proof (induction fs rule: rev_induct)
  case Nil
  show ?case by (simp add: run_state_def eff_threshold_def)
next
  case (snoc f fs)
  then show ?case
    by (cases f) (auto simp: stream_step_def next_snapshot_def run_state_def eff_threshold_def)
qed

subsection \<open>Outages\<close>

text \<open>The outage bookkeeping of a run: \<open>True\<close> where an outage opened, \<open>False\<close> where one closed.\<close>

fun outage_events :: "int \<Rightarrow> Snapshot \<Rightarrow> bool list \<Rightarrow> bool list" where
  "outage_events n s [] = []"
| "outage_events n s (f # fs) =
     (let t = Apply s f n in
      (if tr_OpenedOutage t then [True] else []) @ (if tr_ClosedOutage t then [False] else []) @
      outage_events n (next_snapshot t) fs)"

fun alternates :: "bool \<Rightarrow> bool list \<Rightarrow> bool" where
  "alternates b [] = True"
| "alternates b (x # xs) = (x \<noteq> b \<and> alternates x xs)"

abbreviation is_down :: "Snapshot \<Rightarrow> bool" where
  "is_down s \<equiv> snap_State s = StateDown"

lemma alternates_outages: "alternates (is_down s) (outage_events n s fs)"
proof (induction fs arbitrary: s)
  case (Cons f fs)
  from Cons [of "next_snapshot (Apply s f n)"] show ?case
    by (cases f) (auto simp: Let_def split: if_splits)
qed simp

lemma last_outage:
  "is_down (foldl (stream_step n) s fs) \<longleftrightarrow> last (is_down s # outage_events n s fs)"
proof (induction fs arbitrary: s)
  case (Cons f fs)
  from Cons [of "next_snapshot (Apply s f n)"] show ?case
    by (cases f) (auto simp: Let_def stream_step_def split: if_splits)
qed simp

section \<open>The quorum over locations\<close>

text \<open>
  The counts of a list of location states, one per selected location, where a location without
  fresh evidence is \<open>StateUnknown\<close>.
\<close>

definition counts_of :: "State list \<Rightarrow> LocationCounts" where
  "counts_of ls = \<lparr>lc_Down = int (length (filter (\<lambda>s. s = StateDown) ls)),
                   lc_Suspect = int (length (filter (\<lambda>s. s = StateSuspect) ls)),
                   lc_Up = int (length (filter (\<lambda>s. s = StateUp) ls)),
                   lc_Selected = int (length ls)\<rparr>"

fun severity :: "State \<Rightarrow> nat" where
  "severity StateUnknown = 0"
| "severity StateUp = 1"
| "severity StateSuspect = 2"
| "severity StateDegraded = 3"
| "severity StateDown = 4"

lemma AggregateLocations_alt:
  "AggregateLocations c q =
     (if eff_quorum c q \<le> lc_Down c then StateDown
      else if 0 < lc_Down c then StateDegraded
      else if 0 < lc_Suspect c then StateSuspect
      else if 0 < lc_Up c then StateUp else StateUnknown)"
  by (auto simp: AggregateLocations_def eff_quorum_def Let_def)

lemma eff_quorum_pos: "0 < eff_quorum c q"
  by (simp add: eff_quorum_def)

lemma eff_quorum_cong: "lc_Selected c = lc_Selected d \<Longrightarrow> eff_quorum c q = eff_quorum d q"
  by (simp add: eff_quorum_def)

lemma filter_pos: "0 < length (filter p xs) \<longleftrightarrow> (\<exists>x\<in>set xs. p x)"
  by (auto simp: filter_empty_conv)

lemma severity_AggregateLocations:
  "severity (AggregateLocations (counts_of ls) q) =
     (if eff_quorum (counts_of ls) q \<le> lc_Down (counts_of ls) then 4
      else if StateDown \<in> set ls then 3
      else if StateSuspect \<in> set ls then 2
      else if StateUp \<in> set ls then 1 else 0)"
  by (auto simp: AggregateLocations_alt counts_of_def filter_empty_conv)

lemma location_severity_mono:
  assumes "list_all2 (\<lambda>a b. severity a \<le> severity b) ls ls'" and "StateDegraded \<notin> set ls'"
  shows "lc_Down (counts_of ls) \<le> lc_Down (counts_of ls')"
    and "StateDown \<in> set ls \<Longrightarrow> StateDown \<in> set ls'"
    and "StateSuspect \<in> set ls \<Longrightarrow> StateDown \<in> set ls' \<or> StateSuspect \<in> set ls'"
    and "StateUp \<in> set ls \<Longrightarrow> StateDown \<in> set ls' \<or> StateSuspect \<in> set ls' \<or> StateUp \<in> set ls'"
  using assms
proof (induction rule: list_all2_induct)
  case (Cons x xs y ys)
  { case 1 with Cons show ?case by (cases x; cases y) (auto simp: counts_of_def) next
    case 2 with Cons show ?case by (cases x; cases y) auto next
    case 3 with Cons show ?case by (cases x; cases y) auto next
    case 4 with Cons show ?case by (cases x; cases y) auto }
qed (simp_all add: counts_of_def)

lemma AggregateLocations_single:
  "s \<noteq> StateDegraded \<Longrightarrow> AggregateLocations (counts_of [s]) q = s"
  by (cases s) (auto simp: AggregateLocations_alt eff_quorum_def counts_of_def)

section \<open>Properties\<close>

text \<open>
  C29. The state of a monitor is a function of the recent past only. Starting from the row a new
  monitor has (unknown, no failure), after any non-empty sequence of results the machine is
  down exactly when the results end in at least \<open>threshold\<close> consecutive failures (a threshold
  below one counts as one), suspect when they end in fewer failures but at least one, and up when
  the last one passed; the stored counter is the number of trailing failures. So one passing
  result always recovers, and no earlier history survives it.
\<close>

theorem stream_state_is_trailing_failures:
  assumes "fs \<noteq> []"
  shows "foldl (stream_step n) \<lparr>snap_State = StateUnknown, snap_ConsecutiveFailures = 0\<rparr> fs =
   \<lparr>snap_State = run_state n (trailing_failures fs),
    snap_ConsecutiveFailures = int (trailing_failures fs)\<rparr>"
proof -
  obtain f gs where fs: "fs = f # gs" using assms by (cases fs) auto
  have "stream_step n \<lparr>snap_State = StateUnknown, snap_ConsecutiveFailures = 0\<rparr> f =
        stream_step n \<lparr>snap_State = StateUp, snap_ConsecutiveFailures = 0\<rparr> f"
    by (cases f) (simp_all add: stream_step_def next_snapshot_def)
  with run_from_up [of n fs] show ?thesis by (simp add: fs)
qed

theorem stream_state_is_trailing_failures_witness:
  "foldl (stream_step 3) \<lparr>snap_State = StateUnknown, snap_ConsecutiveFailures = 0\<rparr>
     [True, True, True, False, True, True] =
   \<lparr>snap_State = StateSuspect, snap_ConsecutiveFailures = 2\<rparr>"
  using stream_state_is_trailing_failures [of "[True, True, True, False, True, True]" 3]
  by (simp add: run_state_def trailing_failures_def eff_threshold_def)

text \<open>
  Outage bookkeeping of a stream: whatever the results, the flags \<open>OpenedOutage\<close> and
  \<open>ClosedOutage\<close> that callers act on alternate strictly, beginning with an opening unless the
  stream was already down, and the last flag raised says whether the stream is down now. So an
  outage is never opened twice, never closed without having been opened, and every outage still
  open at the end belongs to a stream that is down.
\<close>

theorem outages_open_and_close_in_turn:
  "alternates (is_down s) (outage_events n s fs) \<and>
   (is_down (foldl (stream_step n) s fs) \<longleftrightarrow> last (is_down s # outage_events n s fs))"
  by (intro conjI alternates_outages last_outage)

text \<open>
  The quorum rule is monotone: when some locations get worse (unknown, up, suspect, down in
  that order) and none gets better, the monitor's aggregated state, with degraded between suspect
  and down, does not get better, for any configured quorum.
\<close>

theorem AggregateLocations_mono:
  assumes "list_all2 (\<lambda>a b. severity a \<le> severity b) ls ls'" and "StateDegraded \<notin> set ls'"
  shows "severity (AggregateLocations (counts_of ls) q)
         \<le> severity (AggregateLocations (counts_of ls') q)"
proof -
  have "length ls = length ls'" using assms(1) by (rule list_all2_lengthD)
  then have "eff_quorum (counts_of ls) q = eff_quorum (counts_of ls') q"
    by (intro eff_quorum_cong) (simp add: counts_of_def)
  with location_severity_mono [OF assms] show ?thesis
    unfolding severity_AggregateLocations by auto
qed

theorem AggregateLocations_mono_witness:
  "severity (AggregateLocations (counts_of [StateUp, StateUnknown, StateDown]) 2)
   \<le> severity (AggregateLocations (counts_of [StateSuspect, StateDown, StateDown]) 2)"
  by (rule AggregateLocations_mono) simp_all

end
