(* ===== verification/Store.thy ===== *)
theory Store
  imports MonitorState
begin

text \<open>
  The tables the monitoring core reads and writes, and the statements of
  \<open>shared/monitorstate\<close> on them: \<open>RecordIntervalTx\<close> and \<open>RecordIntervalsTx\<close>
  (\<open>intervals.go\<close>), \<open>insertResult\<close> (\<open>record.go\<close>) and \<open>LoadFreshLocationCounts\<close>
  (\<open>freshness.go\<close>).

  A statement runs inside a transaction, whose \<open>NOW()\<close> is the argument \<open>now\<close>: the time the
  transaction began, which says nothing about the order in which transactions obtained the lock
  on the monitor row. \<open>clock\<close> is \<open>clock_timestamp()\<close>, the wall clock. A constraint of the schema
  (\<open>shared/db/migrations\<close>) that a statement would break is an error value, and then the
  transaction is rolled back: the caller keeps the database it started with. Surrogate keys that
  no statement reads back (\<open>check_results.id\<close>, \<open>monitor_state_intervals.id\<close>) are left out.
\<close>

section \<open>Tables\<close>

record monitor =
  m_id :: uuid
  m_tenant_id :: uuid
  m_type :: string
  m_config :: string
  m_enabled :: bool
  m_deleted_at :: "time option"
  m_current_state :: State
  m_consecutive_failures :: int
  m_consecutive_failures_threshold :: int
  m_location_quorum :: int
  m_interval_seconds :: int
  m_next_run_at :: "time option"
  m_last_state_change_at :: "time option"
  m_last_result_at :: "time option"
  m_last_result_started_at :: "time option"
  m_created_at :: time
  m_updated_at :: time

record location =
  l_id :: uuid
  l_tenant_id :: uuid
  l_name :: string
  l_enabled :: bool
  l_deleted_at :: "time option"
  l_worker_credential :: "string option"
  l_mesh_endpoint :: "string option"

record monitor_location_state =
  mls_monitor_id :: uuid
  mls_location_id :: uuid
  mls_tenant_id :: uuid
  mls_current_state :: State
  mls_consecutive_failures :: int
  mls_last_latency_ms :: "int option"
  mls_last_check_at :: "time option"
  mls_last_result_started_at :: "time option"
  mls_last_state_change_at :: "time option"
  mls_updated_at :: time

record check_result =
  cr_monitor_id :: uuid
  cr_tenant_id :: uuid
  cr_job_id :: uuid
  cr_location_id :: "uuid option"
  cr_status :: string
  cr_result_source :: string
  cr_http_status :: "int option"
  cr_latency_ms :: "int option"
  cr_error_message :: "string option"
  cr_matched_body_substring :: bool
  cr_metrics_data :: "string option"
  cr_created_at :: time
  cr_started_at :: time
  cr_completed_at :: time
  cr_ingested_at :: time

record rollup_mark =
  rd_monitor_id :: uuid
  rd_bucket_hour :: time
  rd_marked_at :: time

record state_interval =
  si_tenant_id :: uuid
  si_monitor_id :: uuid
  si_state :: State
  si_reason :: string
  si_started_at :: time
  si_ended_at :: "time option"

record mesh_edge_state =
  ms_tenant_id :: uuid
  ms_source_location_id :: uuid
  ms_target_location_id :: uuid
  ms_current_state :: State
  ms_consecutive_failures :: int
  ms_last_latency_ms :: "int option"
  ms_last_error :: "string option"
  ms_last_check_at :: "time option"
  ms_last_state_change_at :: "time option"
  ms_next_run_at :: time
  ms_updated_at :: time

record mesh_probe_result =
  mp_tenant_id :: uuid
  mp_source_location_id :: uuid
  mp_target_location_id :: uuid
  mp_job_id :: uuid
  mp_status :: string
  mp_latency_ms :: "int option"
  mp_error_message :: "string option"
  mp_created_at :: time

record db =
  tenants :: "uuid list"
  monitors :: "monitor list"
  locations :: "location list"
  monitor_locations :: "(uuid \<times> uuid) list"
  location_states :: "monitor_location_state list"
  check_results :: "check_result list"
  rollup_dirty :: "rollup_mark list"
  state_intervals :: "state_interval list"
  mesh_states :: "mesh_edge_state list"
  mesh_results :: "mesh_probe_result list"

datatype db_error =
    ErrNoRows
  | ForeignKeyViolation
  | CheckViolation
  | UniqueViolation
  | CardinalityViolation

text \<open>The columns of one result, as \<open>monitorstate.Result\<close> carries them to \<open>Record\<close>.\<close>

record Result =
  r_MonitorID :: uuid
  r_TenantID :: uuid
  r_JobID :: uuid
  r_LocationID :: "uuid option"
  r_Status :: string
  r_ResultSource :: string
  r_HTTPStatus :: "int option"
  r_LatencyMs :: "int option"
  r_ErrorMessage :: "string option"
  r_MatchedBodySubstring :: bool
  r_MetricsData :: string
  r_StartedAt :: time
  r_CompletedAt :: time
  r_SyntheticAbsence :: bool

definition find_monitor :: "uuid \<Rightarrow> db \<Rightarrow> monitor option" where
  "find_monitor mid d = find (\<lambda>m. m_id m = mid) (monitors d)"

definition update_monitor :: "uuid \<Rightarrow> (monitor \<Rightarrow> monitor) \<Rightarrow> db \<Rightarrow> db" where
  "update_monitor mid f d = d\<lparr>monitors := sql_update (\<lambda>m. m_id m = mid) f (monitors d)\<rparr>"

section \<open>The state timeline\<close>

definition IntervalReasons :: "string list" where
  "IntervalReasons = [''result'', ''watchdog_stale'', ''pause'', ''resume'',
                      ''location_change'', ''created'', ''seed'']"

abbreviation open_of :: "uuid \<Rightarrow> state_interval \<Rightarrow> bool" where
  "open_of mid i \<equiv> si_monitor_id i = mid \<and> si_ended_at i = None"

text \<open>
  The constraints an inserted interval is checked against: the CHECK on \<open>reason\<close>, the unique
  index on the open interval of a monitor, and the foreign keys (checked last, at the end of the
  statement). A new interval is always open, so the CHECK on \<open>ended_at\<close> does not concern it.
\<close>

definition insert_interval :: "state_interval \<Rightarrow> db \<Rightarrow> db_error + db" where
  "insert_interval i d =
     (if si_reason i \<notin> set IntervalReasons then Inl CheckViolation
      else if list_ex (open_of (si_monitor_id i)) (state_intervals d) then Inl UniqueViolation
      else if find_monitor (si_monitor_id i) d = None \<or> si_tenant_id i \<notin> set (tenants d)
        then Inl ForeignKeyViolation
      else Inr (d\<lparr>state_intervals := state_intervals d @ [i]\<rparr>))"

text \<open>The close of \<open>RecordIntervalTx\<close>: \<open>ended_at = GREATEST(NOW(), started_at)\<close>.\<close>

definition close_interval :: "time \<Rightarrow> state_interval \<Rightarrow> state_interval" where
  "close_interval now i = i\<lparr>si_ended_at := Some (max now (si_started_at i))\<rparr>"

text \<open>
  Both writes are one statement; the scalar subquery \<open>(SELECT ended_at FROM closed)\<close> fails when
  more than one row was closed.
\<close>

definition RecordIntervalTx ::
    "time \<Rightarrow> uuid \<Rightarrow> uuid \<Rightarrow> State \<Rightarrow> string \<Rightarrow> db \<Rightarrow> db_error + db" where
  "RecordIntervalTx now tenantID monitorID state reason d =
     (let closed = map (\<lambda>i. max now (si_started_at i))
                       (filter (open_of monitorID) (state_intervals d));
          d' = d\<lparr>state_intervals :=
                   sql_update (open_of monitorID) (close_interval now) (state_intervals d)\<rparr> in
      if length closed > 1 then Inl CardinalityViolation
      else insert_interval
             \<lparr>si_tenant_id = tenantID, si_monitor_id = monitorID, si_state = state,
              si_reason = reason,
              si_started_at = (case closed of [] \<Rightarrow> now | e # _ \<Rightarrow> e),
              si_ended_at = None\<rparr> d')"

fun insert_intervals :: "state_interval list \<Rightarrow> db \<Rightarrow> db_error + db" where
  "insert_intervals [] d = Inr d"
| "insert_intervals (i # is) d = bindE (insert_interval i d) (insert_intervals is)"

text \<open>
  The bulk twin: every open interval of the given monitors is closed, and each of the monitors
  found in the table gets one new row per row of the left join with the closed ones.
\<close>

definition RecordIntervalsTx ::
    "time \<Rightarrow> uuid list \<Rightarrow> State \<Rightarrow> string \<Rightarrow> db \<Rightarrow> db_error + db" where
  "RecordIntervalsTx now monitorIDs state reason d =
     (if monitorIDs = [] then Inr d
      else
        let isopen = (\<lambda>i. si_monitor_id i \<in> set monitorIDs \<and> si_ended_at i = None);
            closed = filter isopen (state_intervals d);
            starts = (\<lambda>m. case filter (\<lambda>i. si_monitor_id i = m_id m) closed of
                            [] \<Rightarrow> [now]
                          | is \<Rightarrow> map (\<lambda>i. max now (si_started_at i)) is);
            new = concat (map (\<lambda>m. map (\<lambda>s. \<lparr>si_tenant_id = m_tenant_id m,
                                             si_monitor_id = m_id m, si_state = state,
                                             si_reason = reason, si_started_at = s,
                                             si_ended_at = None\<rparr>) (starts m))
                              (filter (\<lambda>m. m_id m \<in> set monitorIDs) (monitors d))) in
        insert_intervals new
          (d\<lparr>state_intervals := sql_update isopen (close_interval now) (state_intervals d)\<rparr>))"

section \<open>Recording a result row\<close>

definition CheckResultsRawRetentionDays :: int where
  "CheckResultsRawRetentionDays = 30"

text \<open>\<open>date_trunc('hour', t)\<close>, on a time zone whose offset is a whole number of hours.\<close>

definition trunc_hour :: "time \<Rightarrow> time" where
  "trunc_hour t = t - t mod secs 3600"

definition RollupMarkHorizon :: "time \<Rightarrow> time" where
  "RollupMarkHorizon now = trunc_hour (now - secs (CheckResultsRawRetentionDays * 86400))"

definition RawPruneCutoff :: "time \<Rightarrow> time" where
  "RawPruneCutoff now = RollupMarkHorizon now - secs 3600"

definition mark_bucket :: "time \<Rightarrow> time \<Rightarrow> uuid \<Rightarrow> time \<Rightarrow> db \<Rightarrow> db" where
  "mark_bucket now clock mid started d =
     (let bucket = trunc_hour started in
      if bucket < RollupMarkHorizon now then d
      else if list_ex (\<lambda>k. rd_monitor_id k = mid \<and> rd_bucket_hour k = bucket) (rollup_dirty d)
      then d\<lparr>rollup_dirty :=
               sql_update (\<lambda>k. rd_monitor_id k = mid \<and> rd_bucket_hour k = bucket)
                          (\<lambda>k. k\<lparr>rd_marked_at := clock\<rparr>) (rollup_dirty d)\<rparr>
      else d\<lparr>rollup_dirty := rollup_dirty d @
               [\<lparr>rd_monitor_id = mid, rd_bucket_hour = bucket, rd_marked_at = now\<rparr>]\<rparr>)"

definition result_row :: "time \<Rightarrow> Result \<Rightarrow> check_result" where
  "result_row now r =
     \<lparr>cr_monitor_id = r_MonitorID r, cr_tenant_id = r_TenantID r, cr_job_id = r_JobID r,
      cr_location_id = r_LocationID r, cr_status = r_Status r,
      cr_result_source = r_ResultSource r, cr_http_status = r_HTTPStatus r,
      cr_latency_ms = r_LatencyMs r, cr_error_message = r_ErrorMessage r,
      cr_matched_body_substring = r_MatchedBodySubstring r,
      cr_metrics_data = (if length (r_MetricsData r) > 0 then Some (r_MetricsData r) else None),
      cr_created_at = r_StartedAt r, cr_started_at = r_StartedAt r,
      cr_completed_at = r_CompletedAt r, cr_ingested_at = now\<rparr>"

text \<open>
  The insert: the CHECKs on \<open>status\<close> and \<open>result_source\<close> come first, then
  \<open>ON CONFLICT (job_id, result_source) DO NOTHING\<close>, then the foreign keys of a row that was
  inserted.
\<close>

definition same_evidence :: "Result \<Rightarrow> check_result \<Rightarrow> bool" where
  "same_evidence r c \<longleftrightarrow> cr_job_id c = r_JobID r \<and> cr_result_source c = r_ResultSource r"

definition result_checks :: "Result \<Rightarrow> bool" where
  "result_checks r \<longleftrightarrow> r_Status r \<in> {''success'', ''failure'', ''error''} \<and>
                       r_ResultSource r \<in> {''monitor'', ''platform''}"

definition result_refs :: "Result \<Rightarrow> db \<Rightarrow> bool" where
  "result_refs r d \<longleftrightarrow> find_monitor (r_MonitorID r) d \<noteq> None \<and> r_TenantID r \<in> set (tenants d) \<and>
     (case r_LocationID r of None \<Rightarrow> True | Some l \<Rightarrow> l \<in> l_id ` set (locations d))"

definition insertResult :: "time \<Rightarrow> time \<Rightarrow> Result \<Rightarrow> db \<Rightarrow> db_error + (bool \<times> db)" where
  "insertResult now clock r d =
     (if \<not> result_checks r then Inl CheckViolation
      else if list_ex (same_evidence r) (check_results d) then Inr (False, d)
      else if \<not> result_refs r d then Inl ForeignKeyViolation
      else
        let d' = d\<lparr>check_results := check_results d @ [result_row now r]\<rparr> in
        Inr (True, if r_ResultSource r = ''monitor''
                   then mark_bucket now clock (r_MonitorID r) (r_StartedAt r) d' else d'))"

section \<open>The input of the spatial rule\<close>

definition live_location :: "db \<Rightarrow> uuid \<Rightarrow> bool" where
  "live_location d l \<longleftrightarrow>
     list_ex (\<lambda>x. l_id x = l \<and> l_deleted_at x = None \<and> l_enabled x) (locations d)"

definition find_location_state :: "uuid \<Rightarrow> uuid \<Rightarrow> db \<Rightarrow> monitor_location_state option" where
  "find_location_state mid l d =
     find (\<lambda>s. mls_monitor_id s = mid \<and> mls_location_id s = l) (location_states d)"

text \<open>
  The left join with the state rows that are fresh at \<open>now\<close>: a location without such a row
  contributes to \<open>Selected\<close> only. The table's primary key leaves at most one row to join.
\<close>

definition fresh_location_state ::
    "time \<Rightarrow> int \<Rightarrow> db \<Rightarrow> uuid \<Rightarrow> uuid \<Rightarrow> monitor_location_state option" where
  "fresh_location_state now freshnessSeconds d mid l =
     (case find_location_state mid l d of
        None \<Rightarrow> None
      | Some s \<Rightarrow> (case mls_last_check_at s of
                    None \<Rightarrow> None
                  | Some t \<Rightarrow> if t \<ge> now - secs freshnessSeconds then Some s else None))"

definition LoadFreshLocationCounts ::
    "time \<Rightarrow> uuid \<Rightarrow> int \<Rightarrow> db \<Rightarrow> LocationCounts \<times> int" where
  "LoadFreshLocationCounts now mid freshnessSeconds d =
     (let selected = map snd (filter (\<lambda>(m, l). m = mid \<and> live_location d l) (monitor_locations d));
          joined = List.map_filter (fresh_location_state now freshnessSeconds d mid) selected;
          fails = map mls_consecutive_failures joined in
      (\<lparr>lc_Down = int (length (filter (\<lambda>s. mls_current_state s = StateDown) joined)),
        lc_Suspect = int (length (filter (\<lambda>s. mls_current_state s = StateSuspect) joined)),
        lc_Up = int (length (filter (\<lambda>s. mls_current_state s = StateUp) joined)),
        lc_Selected = int (length selected)\<rparr>,
       case fails of [] \<Rightarrow> 0 | f # fs \<Rightarrow> fold max fs f))"

end
