(* ===== verification/Timeline.thy ===== *)
theory Timeline
  imports Store
begin

text \<open>
  What \<open>RecordIntervalTx\<close> makes of a monitor's timeline: a chain of intervals, each starting
  exactly where the previous one ended, the last one open. The chain is the refinement of an
  abstract timeline, a list of states with the instants they began, to which recording appends.
\<close>

section \<open>Chains of intervals\<close>

fun chain :: "state_interval list \<Rightarrow> bool" where
  "chain [] = True"
| "chain [i] = True"
| "chain (i # j # is) = (si_ended_at i = Some (si_started_at j) \<and>
                         si_started_at i \<le> si_started_at j \<and> chain (j # is))"

definition timeline_ok :: "state_interval list \<Rightarrow> bool" where
  "timeline_ok ivs \<longleftrightarrow> chain ivs \<and> (ivs \<noteq> [] \<longrightarrow> si_ended_at (last ivs) = None)"

definition monitor_timeline :: "uuid \<Rightarrow> db \<Rightarrow> state_interval list" where
  "monitor_timeline mid d = filter (\<lambda>i. si_monitor_id i = mid) (state_intervals d)"

lemma timeline_ok_Nil [simp]: "timeline_ok []"
  by (simp add: timeline_ok_def)

lemma chain_snoc:
  "chain (ivs @ [i]) \<longleftrightarrow> chain ivs \<and>
     (ivs \<noteq> [] \<longrightarrow> si_ended_at (last ivs) = Some (si_started_at i) \<and>
                si_started_at (last ivs) \<le> si_started_at i)"
  by (induction ivs rule: chain.induct) auto

lemma chain_closed: "chain (ivs @ [i]) \<Longrightarrow> x \<in> set ivs \<Longrightarrow> si_ended_at x \<noteq> None"
  by (induction ivs rule: chain.induct) auto

lemma chain_drop_end: "chain (ivs @ [i]) \<Longrightarrow> chain (ivs @ [i\<lparr>si_ended_at := e\<rparr>])"
  by (simp add: chain_snoc)

text \<open>In a well-formed timeline only the last interval is open.\<close>

lemma timeline_open:
  assumes "timeline_ok ivs"
  shows "filter (\<lambda>i. si_ended_at i = None) ivs = (if ivs = [] then [] else [last ivs])"
proof (cases ivs rule: rev_cases)
  case (snoc js i)
  with assms have "\<forall>x\<in>set js. si_ended_at x \<noteq> None"
    by (auto simp: timeline_ok_def dest: chain_closed)
  then have "filter (\<lambda>i. si_ended_at i = None) js = []" by (simp add: filter_empty_conv)
  with snoc assms show ?thesis by (simp add: timeline_ok_def)
qed simp

section \<open>The abstract timeline\<close>

definition abs_timeline :: "state_interval list \<Rightarrow> (State \<times> time) list" where
  "abs_timeline ivs = map (\<lambda>i. (si_state i, si_started_at i)) ivs"

text \<open>
  The specification of recording: append the new state, beginning now but never before the state
  it replaces began.
\<close>

definition extend_timeline :: "time \<Rightarrow> State \<Rightarrow> (State \<times> time) list \<Rightarrow> (State \<times> time) list" where
  "extend_timeline now s at = at @ [(s, if at = [] then now else max now (snd (last at)))]"

lemma abs_timeline_simps [simp]:
  "abs_timeline [] = []"
  "abs_timeline (i # ks) = (si_state i, si_started_at i) # abs_timeline ks"
  "abs_timeline (ks @ js) = abs_timeline ks @ abs_timeline js"
  "abs_timeline ivs = [] \<longleftrightarrow> ivs = []"
  by (simp_all add: abs_timeline_def)

lemma last_abs_timeline:
  "ivs \<noteq> [] \<Longrightarrow> last (abs_timeline ivs) = (si_state (last ivs), si_started_at (last ivs))"
  by (simp add: abs_timeline_def last_map)

lemma chain_sorted: "chain ivs \<Longrightarrow> sorted (map si_started_at ivs)"
  by (induction ivs rule: chain.induct) auto

section \<open>Recording\<close>

text \<open>The new row, and the table after a statement that passed its checks.\<close>

definition new_interval ::
    "time \<Rightarrow> uuid \<Rightarrow> uuid \<Rightarrow> State \<Rightarrow> string \<Rightarrow> state_interval list \<Rightarrow> state_interval" where
  "new_interval now tenantID mid state reason ivs =
     \<lparr>si_tenant_id = tenantID, si_monitor_id = mid, si_state = state, si_reason = reason,
      si_started_at = (if ivs = [] then now else max now (si_started_at (last ivs))),
      si_ended_at = None\<rparr>"

definition extended ::
    "time \<Rightarrow> uuid \<Rightarrow> uuid \<Rightarrow> State \<Rightarrow> string \<Rightarrow> state_interval list \<Rightarrow> state_interval list" where
  "extended now tenantID mid state reason ivs =
     sql_update (\<lambda>i. si_ended_at i = None) (close_interval now) ivs @
     [new_interval now tenantID mid state reason ivs]"

lemma close_interval_simps [simp]:
  "si_monitor_id (close_interval now i) = si_monitor_id i"
  "si_state (close_interval now i) = si_state i"
  "si_started_at (close_interval now i) = si_started_at i"
  "si_ended_at (close_interval now i) = Some (max now (si_started_at i))"
  by (simp_all add: close_interval_def)

lemma new_interval_simps [simp]:
  "si_monitor_id (new_interval now tid mid s r ivs) = mid"
  "si_state (new_interval now tid mid s r ivs) = s"
  "si_ended_at (new_interval now tid mid s r ivs) = None"
  "si_reason (new_interval now tid mid s r ivs) = r"
  "si_tenant_id (new_interval now tid mid s r ivs) = tid"
  by (simp_all add: new_interval_def)

lemma timeline_closed_butlast:
  assumes "timeline_ok (js @ [i])"
  shows "sql_update (\<lambda>i. si_ended_at i = None) (close_interval now) (js @ [i]) =
         js @ [close_interval now i]"
proof -
  have "sql_update (\<lambda>i. si_ended_at i = None) (close_interval now) js = js"
    using assms by (intro sql_update_id) (auto simp: timeline_ok_def dest: chain_closed)
  with assms show ?thesis by (simp add: timeline_ok_def)
qed

lemma extended_snoc:
  "timeline_ok (js @ [i]) \<Longrightarrow> extended now tid mid s r (js @ [i]) =
     js @ [close_interval now i, new_interval now tid mid s r (js @ [i])]"
  unfolding extended_def by (subst timeline_closed_butlast) simp_all

lemma extended_Nil: "extended now tid mid s r [] = [new_interval now tid mid s r []]"
  by (simp add: extended_def)

lemma chain_close:
  "chain (js @ [i]) \<Longrightarrow> si_ended_at j = None \<Longrightarrow> si_started_at j = max now (si_started_at i) \<Longrightarrow>
   chain ((js @ [close_interval now i]) @ [j])"
  unfolding chain_snoc by auto

lemma extended_ok: "timeline_ok ivs \<Longrightarrow> timeline_ok (extended now tid mid s r ivs)"
proof (cases ivs rule: rev_cases)
  case Nil
  then show ?thesis by (simp add: extended_Nil timeline_ok_def)
next
  case (snoc js i)
  assume "timeline_ok ivs"
  with snoc have "chain (js @ [i])" and e: "extended now tid mid s r ivs =
      (js @ [close_interval now i]) @ [new_interval now tid mid s r (js @ [i])]"
    by (simp_all add: extended_snoc timeline_ok_def)
  then show ?thesis
    unfolding timeline_ok_def e by (auto simp: new_interval_def intro!: chain_close [simplified])
qed

lemma extended_abs:
  assumes "timeline_ok ivs"
  shows "abs_timeline (extended now tid mid s r ivs) = extend_timeline now s (abs_timeline ivs)"
proof (cases ivs rule: rev_cases)
  case Nil
  then show ?thesis by (simp add: extended_Nil extend_timeline_def new_interval_def)
next
  case (snoc js i)
  with assms show ?thesis
    by (simp add: extended_snoc extend_timeline_def new_interval_def)
qed

lemma extended_last [simp]: "last (extended now tid mid s r ivs) = new_interval now tid mid s r ivs"
  by (simp add: extended_def)

lemma extended_not_Nil [simp]: "extended now tid mid s r ivs \<noteq> []"
  by (simp add: extended_def)

lemma open_of_timeline:
  "filter (open_of mid) (state_intervals d) =
   filter (\<lambda>i. si_ended_at i = None) (monitor_timeline mid d)"
  by (simp add: monitor_timeline_def conj_commute)

lemma none_open_after_close:
  "\<not> list_ex (open_of mid) (sql_update (open_of mid) (close_interval now) xs)"
  by (induction xs) simp_all

lemma RecordIntervalTx_eq:
  assumes ok: "timeline_ok (monitor_timeline mid d)"
    and m: "find_monitor mid d = Some m" and t: "tid \<in> set (tenants d)"
    and r: "reason \<in> set IntervalReasons"
  shows "RecordIntervalTx now tid mid s reason d =
    Inr (d\<lparr>state_intervals :=
           sql_update (open_of mid) (close_interval now) (state_intervals d) @
           [new_interval now tid mid s reason (monitor_timeline mid d)]\<rparr>)"
proof -
  let ?c = "sql_update (open_of mid) (close_interval now) (state_intervals d)"
  have closed: "\<not> list_ex (open_of mid) ?c"
    by (rule none_open_after_close)
  have opens: "filter (open_of mid) (state_intervals d) =
      (if monitor_timeline mid d = [] then [] else [last (monitor_timeline mid d)])"
    using timeline_open [OF ok] by (simp only: open_of_timeline)
  have ins: "insert_interval (new_interval now tid mid s reason ivs) (d\<lparr>state_intervals := ?c\<rparr>) =
      Inr (d\<lparr>state_intervals := ?c @ [new_interval now tid mid s reason ivs]\<rparr>)" for ivs
    using closed m t r unfolding insert_interval_def by (simp add: find_monitor_def)
  show ?thesis
  proof (cases "monitor_timeline mid d = []")
    case True
    with ins [of "[]"] opens show ?thesis
      unfolding RecordIntervalTx_def Let_def by (simp add: new_interval_def)
  next
    case False
    with ins [of "monitor_timeline mid d"] opens show ?thesis
      unfolding RecordIntervalTx_def Let_def by (simp add: new_interval_def)
  qed
qed

lemma close_monitor_ids:
  "si_monitor_id ` set (sql_update p (close_interval now) xs) = si_monitor_id ` set xs"
  by (induction xs) simp_all

lemma monitor_timeline_record:
  "monitor_timeline mid (d\<lparr>state_intervals :=
      sql_update (open_of mid) (close_interval now) (state_intervals d) @
      [new_interval now tid mid s reason (monitor_timeline mid d)]\<rparr>) =
   extended now tid mid s reason (monitor_timeline mid d)"
proof -
  have "filter (\<lambda>i. si_monitor_id i = mid)
          (sql_update (open_of mid) (close_interval now) xs) =
        sql_update (\<lambda>i. si_ended_at i = None) (close_interval now)
          (filter (\<lambda>i. si_monitor_id i = mid) xs)" for xs
    by (induction xs) auto
  then show ?thesis by (simp add: monitor_timeline_def extended_def)
qed

lemma monitor_timeline_record_other:
  "mid' \<noteq> mid \<Longrightarrow> monitor_timeline mid' (d\<lparr>state_intervals :=
      sql_update (open_of mid) (close_interval now) (state_intervals d) @
      [new_interval now tid mid s reason ivs]\<rparr>) = monitor_timeline mid' d"
  unfolding monitor_timeline_def by (simp, rule filter_sql_update_other) auto

text \<open>
  Everything a caller needs of \<open>RecordIntervalTx\<close>: on a monitor with a well-formed timeline it
  succeeds (no constraint fires), extends that timeline, and touches nothing else.
\<close>

lemma RecordIntervalTx_spec:
  assumes "timeline_ok (monitor_timeline mid d)"
    and "find_monitor mid d = Some m" and "tid \<in> set (tenants d)"
    and "reason \<in> set IntervalReasons"
  obtains d' where "RecordIntervalTx now tid mid s reason d = Inr d'"
    and "monitor_timeline mid d' = extended now tid mid s reason (monitor_timeline mid d)"
    and "\<And>mid'. mid' \<noteq> mid \<Longrightarrow> monitor_timeline mid' d' = monitor_timeline mid' d"
    and "d' = d\<lparr>state_intervals := state_intervals d'\<rparr>"
    and "si_monitor_id ` set (state_intervals d') = insert mid (si_monitor_id ` set (state_intervals d))"
proof
  let ?ivs = "sql_update (open_of mid) (close_interval now) (state_intervals d) @
              [new_interval now tid mid s reason (monitor_timeline mid d)]"
  let ?d' = "d\<lparr>state_intervals := ?ivs\<rparr>"
  show "RecordIntervalTx now tid mid s reason d = Inr ?d'"
    by (rule RecordIntervalTx_eq [OF assms])
  show "monitor_timeline mid ?d' = extended now tid mid s reason (monitor_timeline mid d)"
    by (rule monitor_timeline_record)
  show "monitor_timeline mid' ?d' = monitor_timeline mid' d" if "mid' \<noteq> mid" for mid'
    using that by (rule monitor_timeline_record_other)
  show "?d' = d\<lparr>state_intervals := state_intervals ?d'\<rparr>" by simp
  show "si_monitor_id ` set (state_intervals ?d') =
        insert mid (si_monitor_id ` set (state_intervals d))"
    by (simp add: close_monitor_ids)
qed

section \<open>Every instant is in exactly one interval\<close>

definition covers :: "state_interval \<Rightarrow> time \<Rightarrow> bool" where
  "covers i t \<longleftrightarrow> si_started_at i \<le> t \<and> (case si_ended_at i of None \<Rightarrow> True | Some e \<Rightarrow> t < e)"

lemma chain_covers:
  assumes "chain (ivs @ [i])" and "si_ended_at i = None"
  shows "length (filter (\<lambda>j. covers j t) (ivs @ [i])) =
         (if si_started_at (hd (ivs @ [i])) \<le> t then 1 else 0)"
  using assms
proof (induction ivs)
  case Nil
  then show ?case by (simp add: covers_def)
next
  case (Cons j ivs)
  then obtain k ks where k: "ivs @ [i] = k # ks" by (cases "ivs @ [i]") auto
  with Cons.prems have le: "si_started_at j \<le> si_started_at k" and c: "chain (ivs @ [i])"
    and j: "covers j t \<longleftrightarrow> si_started_at j \<le> t \<and> t < si_started_at k"
    by (auto simp: covers_def)
  from Cons.IH [OF c Cons.prems(2)] k le show ?case by (auto simp: j)
qed

lemma timeline_covers:
  assumes "timeline_ok ivs"
  shows "length (filter (\<lambda>i. covers i t) ivs) =
         (if ivs \<noteq> [] \<and> si_started_at (hd ivs) \<le> t then 1 else 0)"
proof (cases ivs rule: rev_cases)
  case (snoc js i)
  with assms chain_covers [of "js" i t] show ?thesis by (auto simp: timeline_ok_def)
qed simp

end
