(* ===== verification/StoreInvariant.thy ===== *)
theory StoreInvariant
  imports Timeline
begin

text \<open>
  The invariant of the store that every writer keeps, in three parts: the keys of the tables,
  the references between them, and the timelines (S-U4: every monitor that is not a group has
  exactly one open interval, whose state is the monitor's current state). The lemmas below say
  what each elementary write keeps of it; the writers are sequences of such writes.
\<close>

section \<open>The invariant\<close>

abbreviation mls_key :: "monitor_location_state \<Rightarrow> uuid \<times> uuid" where
  "mls_key s \<equiv> (mls_monitor_id s, mls_location_id s)"

abbreviation cr_key :: "check_result \<Rightarrow> uuid \<times> string" where
  "cr_key c \<equiv> (cr_job_id c, cr_result_source c)"

abbreviation rd_key :: "rollup_mark \<Rightarrow> uuid \<times> time" where
  "rd_key k \<equiv> (rd_monitor_id k, rd_bucket_hour k)"

definition keys_ok :: "db \<Rightarrow> bool" where
  "keys_ok d \<longleftrightarrow> distinct (map m_id (monitors d)) \<and> distinct (map l_id (locations d)) \<and>
     distinct (monitor_locations d) \<and> distinct (map mls_key (location_states d)) \<and>
     distinct (map cr_key (check_results d)) \<and> distinct (map rd_key (rollup_dirty d))"

text \<open>
  Among the references: a location has a state row for a monitor only while it is selected for
  it, and no location is ever degraded (S-A8, S-E4).
\<close>

definition refs_ok :: "db \<Rightarrow> bool" where
  "refs_ok d \<longleftrightarrow>
     (\<forall>m\<in>set (monitors d). m_tenant_id m \<in> set (tenants d)) \<and>
     (\<forall>ml\<in>set (monitor_locations d). fst ml \<in> m_id ` set (monitors d)) \<and>
     (\<forall>s\<in>set (location_states d). mls_key s \<in> set (monitor_locations d) \<and>
        mls_current_state s \<noteq> StateDegraded) \<and>
     (\<forall>i\<in>set (state_intervals d). si_monitor_id i \<in> m_id ` set (monitors d))"

definition tracked :: "db \<Rightarrow> monitor \<Rightarrow> bool" where
  "tracked d m \<longleftrightarrow> monitor_timeline (m_id m) d \<noteq> [] \<and>
     si_state (last (monitor_timeline (m_id m) d)) = m_current_state m"

definition timelines_ok :: "db \<Rightarrow> bool" where
  "timelines_ok d \<longleftrightarrow> (\<forall>mid. timeline_ok (monitor_timeline mid d)) \<and>
     (\<forall>m\<in>set (monitors d). m_type m \<noteq> ''group'' \<longrightarrow> tracked d m)"

definition store_ok :: "db \<Rightarrow> bool" where
  "store_ok d \<longleftrightarrow> keys_ok d \<and> refs_ok d \<and> timelines_ok d"

lemmas store_defs = store_ok_def keys_ok_def refs_ok_def timelines_ok_def

lemma store_okD:
  assumes "store_ok d"
  shows "timeline_ok (monitor_timeline mid d)"
    and "m \<in> set (monitors d) \<Longrightarrow> m_type m \<noteq> ''group'' \<Longrightarrow> tracked d m"
    and "m \<in> set (monitors d) \<Longrightarrow> m_tenant_id m \<in> set (tenants d)"
    and "distinct (map m_id (monitors d))"
  using assms by (auto simp: store_defs)

lemma find_monitor_SomeD:
  "find_monitor mid d = Some m \<Longrightarrow> m \<in> set (monitors d) \<and> m_id m = mid"
  by (auto simp: find_monitor_def find_Some_iff)

lemma find_monitor_None: "find_monitor mid d = None \<longleftrightarrow> mid \<notin> m_id ` set (monitors d)"
  by (auto simp: find_monitor_def find_None_iff)

lemma find_monitor_unique:
  "store_ok d \<Longrightarrow> find_monitor mid d = Some m \<longleftrightarrow> m \<in> set (monitors d) \<and> m_id m = mid"
  unfolding find_monitor_def by (rule find_Some_iff_distinct) (simp add: store_okD)

section \<open>Writes that leave the timelines alone\<close>

text \<open>
  Replacing the result, rollup or location-state rows by others with distinct keys and valid
  references.
\<close>

lemma monitor_timeline_frame [simp]:
  "monitor_timeline mid (d\<lparr>check_results := a\<rparr>) = monitor_timeline mid d"
  "monitor_timeline mid (d\<lparr>rollup_dirty := b\<rparr>) = monitor_timeline mid d"
  "monitor_timeline mid (d\<lparr>location_states := c\<rparr>) = monitor_timeline mid d"
  "monitor_timeline mid (d\<lparr>monitor_locations := e\<rparr>) = monitor_timeline mid d"
  "monitor_timeline mid (d\<lparr>monitors := f\<rparr>) = monitor_timeline mid d"
  "monitor_timeline mid (d\<lparr>locations := g\<rparr>) = monitor_timeline mid d"
  by (simp_all add: monitor_timeline_def)

lemma tracked_frame [simp]:
  "tracked (d\<lparr>check_results := a\<rparr>) = tracked d"
  "tracked (d\<lparr>rollup_dirty := b\<rparr>) = tracked d"
  "tracked (d\<lparr>location_states := c\<rparr>) = tracked d"
  "tracked (d\<lparr>monitor_locations := e\<rparr>) = tracked d"
  "tracked (d\<lparr>monitors := f\<rparr>) = tracked d"
  "tracked (d\<lparr>locations := g\<rparr>) = tracked d"
  by (simp_all add: tracked_def fun_eq_iff)

lemma store_ok_check_results:
  "store_ok d \<Longrightarrow> distinct (map cr_key cs) \<Longrightarrow> store_ok (d\<lparr>check_results := cs\<rparr>)"
  by (simp add: store_defs)

lemma store_ok_rollup_dirty:
  "store_ok d \<Longrightarrow> distinct (map rd_key ks) \<Longrightarrow> store_ok (d\<lparr>rollup_dirty := ks\<rparr>)"
  by (simp add: store_defs)

lemma store_ok_location_states:
  "store_ok d \<Longrightarrow> distinct (map mls_key ss) \<Longrightarrow>
   (\<And>s. s \<in> set ss \<Longrightarrow> mls_key s \<in> set (monitor_locations d) \<and>
        mls_current_state s \<noteq> StateDegraded) \<Longrightarrow>
   store_ok (d\<lparr>location_states := ss\<rparr>)"
  by (simp add: store_defs)

lemma mark_bucket_ok: "store_ok d \<Longrightarrow> store_ok (mark_bucket now clock mid started d)"
proof -
  let ?p = "\<lambda>k. rd_monitor_id k = mid \<and> rd_bucket_hour k = trunc_hour started"
  assume ok: "store_ok d"
  then have d: "distinct (map rd_key (rollup_dirty d))" by (simp add: store_defs)
  have "map rd_key (sql_update ?p (rd_marked_at_update (\<lambda>_. clock)) (rollup_dirty d)) =
        map rd_key (rollup_dirty d)"
    by (rule map_sql_update) simp
  then have upd: "store_ok (d\<lparr>rollup_dirty :=
      sql_update ?p (rd_marked_at_update (\<lambda>_. clock)) (rollup_dirty d)\<rparr>)"
    using ok d by (intro store_ok_rollup_dirty) simp_all
  have new: "store_ok (d\<lparr>rollup_dirty := rollup_dirty d @ [k]\<rparr>)"
    if "\<not> list_ex ?p (rollup_dirty d)" and "rd_key k = (mid, trunc_hour started)" for k
    using ok d that by (intro store_ok_rollup_dirty) (auto simp: list_ex_iff)
  show ?thesis
    unfolding mark_bucket_def Let_def using ok upd new by simp
qed

lemma mark_bucket_frame [simp]:
  "monitors (mark_bucket now clock mid started d) = monitors d"
  "tenants (mark_bucket now clock mid started d) = tenants d"
  "locations (mark_bucket now clock mid started d) = locations d"
  "monitor_locations (mark_bucket now clock mid started d) = monitor_locations d"
  "location_states (mark_bucket now clock mid started d) = location_states d"
  "check_results (mark_bucket now clock mid started d) = check_results d"
  "state_intervals (mark_bucket now clock mid started d) = state_intervals d"
  by (simp_all add: mark_bucket_def Let_def)

text \<open>What an insert of a result row leaves as it was.\<close>

lemma insertResult_cases:
  assumes "insertResult now clock r d = Inr (b, d')"
  obtains (duplicate) "\<not> b" "d' = d" "list_ex (same_evidence r) (check_results d)"
  | (inserted) "b" "\<not> list_ex (same_evidence r) (check_results d)" "result_refs r d"
      "d' = (let d1 = d\<lparr>check_results := check_results d @ [result_row now r]\<rparr> in
             if r_ResultSource r = ''monitor''
             then mark_bucket now clock (r_MonitorID r) (r_StartedAt r) d1 else d1)"
  using assms unfolding insertResult_def Let_def by (auto split: if_split_asm)

lemma insertResult_frame:
  assumes "insertResult now clock r d = Inr (b, d')"
  shows "monitors d' = monitors d" and "tenants d' = tenants d" and "locations d' = locations d"
    and "monitor_locations d' = monitor_locations d" and "location_states d' = location_states d"
    and "state_intervals d' = state_intervals d"
    and "check_results d' = check_results d @ (if b then [result_row now r] else [])"
  using assms by (cases rule: insertResult_cases; simp add: Let_def)+

lemma insertResult_find [simp]:
  "insertResult now clock r d = Inr (b, d') \<Longrightarrow> find_monitor mid d' = find_monitor mid d"
  by (simp add: find_monitor_def insertResult_frame)

lemma insertResult_ok:
  assumes ok: "store_ok d" and ins: "insertResult now clock r d = Inr (b, d')"
  shows "store_ok d'"
  using ins
proof (cases rule: insertResult_cases)
  case duplicate
  with ok show ?thesis by simp
next
  case inserted
  have "cr_key (result_row now r) \<notin> cr_key ` set (check_results d)"
    using inserted(2) by (auto simp: result_row_def list_ex_iff same_evidence_def)
  then have "distinct (map cr_key (check_results d @ [result_row now r]))"
    using ok by (auto simp: store_defs)
  then have "store_ok (d\<lparr>check_results := check_results d @ [result_row now r]\<rparr>)"
    using ok by (rule store_ok_check_results [rotated])
  with inserted(4) show ?thesis by (simp add: Let_def mark_bucket_ok)
qed

section \<open>Writes of a monitor's state\<close>

text \<open>A row update that keeps the columns the invariant reads apart from the state.\<close>

definition keeps_identity :: "(monitor \<Rightarrow> monitor) \<Rightarrow> bool" where
  "keeps_identity f \<longleftrightarrow> (\<forall>m. m_id (f m) = m_id m \<and> m_type (f m) = m_type m \<and>
                          m_tenant_id (f m) = m_tenant_id m)"

lemma keeps_identityD [simp]:
  "keeps_identity f \<Longrightarrow> m_id (f m) = m_id m"
  "keeps_identity f \<Longrightarrow> m_type (f m) = m_type m"
  "keeps_identity f \<Longrightarrow> m_tenant_id (f m) = m_tenant_id m"
  by (simp_all add: keeps_identity_def)

lemma keeps_identityI:
  assumes "\<And>m. m_id (f m) = m_id m" and "\<And>m. m_type (f m) = m_type m"
    and "\<And>m. m_tenant_id (f m) = m_tenant_id m"
  shows "keeps_identity f"
  unfolding keeps_identity_def using assms by blast

lemma update_monitor_frame [simp]:
  "tenants (update_monitor mid f d) = tenants d"
  "locations (update_monitor mid f d) = locations d"
  "monitor_locations (update_monitor mid f d) = monitor_locations d"
  "location_states (update_monitor mid f d) = location_states d"
  "check_results (update_monitor mid f d) = check_results d"
  "rollup_dirty (update_monitor mid f d) = rollup_dirty d"
  "state_intervals (update_monitor mid f d) = state_intervals d"
  "monitor_timeline mid' (update_monitor mid f d) = monitor_timeline mid' d"
  by (simp_all add: update_monitor_def)

lemma update_monitor_ids:
  "keeps_identity f \<Longrightarrow> map m_id (monitors (update_monitor mid f d)) = map m_id (monitors d)"
  unfolding update_monitor_def by (simp add: map_sql_update)

lemma update_monitor_id_set:
  "keeps_identity f \<Longrightarrow> m_id ` set (monitors (update_monitor mid f d)) = m_id ` set (monitors d)"
  using update_monitor_ids [of f mid d] by (metis list.set_map)

lemma find_monitor_update:
  "keeps_identity f \<Longrightarrow> find_monitor mid' (update_monitor mid f d) =
     map_option (\<lambda>m. if mid' = mid then f m else m) (find_monitor mid' d)"
  unfolding find_monitor_def update_monitor_def
  by (auto simp: find_sql_update find_Some_iff intro!: option.map_cong)

lemma in_update_monitor:
  "m' \<in> set (monitors (update_monitor mid f d)) \<Longrightarrow>
   \<exists>m\<in>set (monitors d). m' = (if m_id m = mid then f m else m)"
  by (auto simp: update_monitor_def set_sql_update)

lemma keys_refs_update_monitor:
  assumes "store_ok d" and k: "keeps_identity f"
  shows "keys_ok (update_monitor mid f d)" and "refs_ok (update_monitor mid f d)"
proof -
  show "keys_ok (update_monitor mid f d)"
    using assms by (simp add: store_defs update_monitor_ids)
  have "m_tenant_id m' \<in> set (tenants d)" if "m' \<in> set (monitors (update_monitor mid f d))" for m'
    using in_update_monitor [OF that] assms by (auto simp: store_okD)
  then show "refs_ok (update_monitor mid f d)"
    using assms by (simp add: store_defs update_monitor_id_set)
qed

text \<open>An update that keeps the state, or touches a group, needs no new interval.\<close>

lemma update_monitor_ok:
  assumes "store_ok d" and k: "keeps_identity f"
    and same: "\<And>m. m \<in> set (monitors d) \<Longrightarrow> m_id m = mid \<Longrightarrow> m_type m \<noteq> ''group'' \<Longrightarrow>
                   m_current_state (f m) = m_current_state m"
  shows "store_ok (update_monitor mid f d)"
proof -
  have "tracked d m'" if in': "m' \<in> set (monitors (update_monitor mid f d))"
    and g: "m_type m' \<noteq> ''group''" for m'
  proof -
    obtain m where m: "m \<in> set (monitors d)" and m': "m' = (if m_id m = mid then f m else m)"
      using in_update_monitor [OF in'] by blast
    with g k have "m_type m \<noteq> ''group''" by (auto split: if_splits)
    with m store_okD(2) [OF assms(1)] have "tracked d m" by blast
    with m m' \<open>m_type m \<noteq> _\<close> same [OF m] k show ?thesis
      by (cases "m_id m = mid") (auto simp: tracked_def)
  qed
  then have "timelines_ok (update_monitor mid f d)"
    using assms(1) by (simp add: store_defs tracked_def)
  with keys_refs_update_monitor [OF assms(1,2)] show ?thesis by (simp add: store_ok_def)
qed

text \<open>Any other update is followed by an interval with the new state.\<close>

lemma record_state_ok:
  assumes ok: "store_ok d" and k: "keeps_identity f"
    and m: "find_monitor mid d = Some m" and s: "m_current_state (f m) = s"
    and t: "tid \<in> set (tenants d)" and r: "reason \<in> set IntervalReasons"
  obtains d' where "RecordIntervalTx now tid mid s reason (update_monitor mid f d) = Inr d'"
    and "store_ok d'" and "d' = update_monitor mid f d\<lparr>state_intervals := state_intervals d'\<rparr>"
    and "monitor_timeline mid d' = extended now tid mid s reason (monitor_timeline mid d)"
    and "\<And>mid'. mid' \<noteq> mid \<Longrightarrow> monitor_timeline mid' d' = monitor_timeline mid' d"
proof -
  let ?u = "update_monitor mid f d"
  have u: "timeline_ok (monitor_timeline mid ?u)" "find_monitor mid ?u = Some (f m)"
    "tid \<in> set (tenants ?u)"
    using ok k m t by (simp_all add: store_okD find_monitor_update)
  obtain d' where rec: "RecordIntervalTx now tid mid s reason ?u = Inr d'"
    and tl: "monitor_timeline mid d' = extended now tid mid s reason (monitor_timeline mid ?u)"
    and oth: "\<And>mid'. mid' \<noteq> mid \<Longrightarrow> monitor_timeline mid' d' = monitor_timeline mid' ?u"
    and fr: "d' = ?u\<lparr>state_intervals := state_intervals d'\<rparr>"
    and ids: "si_monitor_id ` set (state_intervals d') = insert mid (si_monitor_id ` set (state_intervals ?u))"
    by (rule RecordIntervalTx_spec [OF u r, of now s]) blast
  have mons: "monitors d' = monitors ?u" by (subst fr) simp
  have "tracked d' m'" if in': "m' \<in> set (monitors d')" and g: "m_type m' \<noteq> ''group''" for m'
  proof -
    obtain m0 where m0: "m0 \<in> set (monitors d)" and m': "m' = (if m_id m0 = mid then f m0 else m0)"
      using in_update_monitor [OF in' [unfolded mons]] by blast
    show ?thesis
    proof (cases "m_id m0 = mid")
      case True
      with m0 m ok have "m0 = m" by (metis find_monitor_unique option.inject)
      with True m' s tl k show ?thesis by (simp add: tracked_def)
    next
      case False
      with m' m0 g oth store_okD(2) [OF ok m0] show ?thesis by (simp add: tracked_def)
    qed
  qed
  moreover have "timeline_ok (monitor_timeline mid' d')" for mid'
    using tl oth ok by (cases "mid' = mid") (simp_all add: extended_ok store_okD)
  ultimately have "timelines_ok d'" by (simp add: timelines_ok_def)
  moreover have "keys_ok d'" using keys_refs_update_monitor(1) [OF ok k]
    by (subst fr) (simp add: keys_ok_def)
  moreover have "refs_ok d'"
  proof -
    have "si_monitor_id i \<in> m_id ` set (monitors ?u)" if "i \<in> set (state_intervals d')" for i
    proof -
      have "si_monitor_id i \<in> insert mid (si_monitor_id ` set (state_intervals d))"
        using that ids by auto
      moreover have "mid \<in> m_id ` set (monitors d)" using m by (auto dest: find_monitor_SomeD)
      ultimately show ?thesis
        using ok k by (auto simp: store_defs update_monitor_id_set)
    qed
    with keys_refs_update_monitor(2) [OF ok k] show ?thesis
      by (subst fr) (simp add: refs_ok_def)
  qed
  ultimately have "store_ok d'" by (simp add: store_ok_def)
  then show thesis using that rec fr tl oth by simp
qed

end
