(* ===== verification/Evidence.thy ===== *)
theory Evidence
  imports StoreInvariant
begin

text \<open>
  The two transactions that apply evidence: \<open>Record\<close> (\<open>shared/monitorstate/record.go\<close>), which
  runs the temporal machine on the monitor itself, and \<open>persistAtLocation\<close>
  (\<open>scheduler/internal/ingest/quorum.go\<close>), which runs it on one location's row and then
  aggregates. Each is one function from the database to an error or to its outcome and the
  committed database; an error leaves the database as it was.
\<close>

section \<open>The monitor's own stream\<close>

definition InsertOnly :: "time \<Rightarrow> time \<Rightarrow> Result \<Rightarrow> db \<Rightarrow> db_error + (bool \<times> db)" where
  "InsertOnly now clock r d = insertResult now clock r d"

definition before :: "time \<Rightarrow> time option \<Rightarrow> bool" where
  "before t w \<longleftrightarrow> (case w of None \<Rightarrow> False | Some v \<Rightarrow> t < v)"

definition location_bound :: "uuid \<Rightarrow> db \<Rightarrow> bool" where
  "location_bound mid d \<longleftrightarrow> list_ex (\<lambda>ml. fst ml = mid) (monitor_locations d)"

definition apply_to_monitor :: "time \<Rightarrow> Result \<Rightarrow> Transition \<Rightarrow> monitor \<Rightarrow> monitor" where
  "apply_to_monitor now r t m = m\<lparr>
     m_current_state := tr_To t,
     m_consecutive_failures := tr_ConsecutiveFailures t,
     m_last_state_change_at := (if tr_Changed t then Some now else m_last_state_change_at m),
     m_last_result_at := Some now,
     m_last_result_started_at :=
       (if r_SyntheticAbsence r then m_last_result_started_at m else Some (r_StartedAt r)),
     m_updated_at := now\<rparr>"

definition unapplied :: "Snapshot \<Rightarrow> bool \<Rightarrow> bool \<Rightarrow> Transition" where
  "unapplied snap duplicate historyOnly =
     \<lparr>tr_From = snap_State snap, tr_To = snap_State snap,
      tr_ConsecutiveFailures = snap_ConsecutiveFailures snap, tr_Changed = False,
      tr_OpenedOutage = False, tr_ClosedOutage = False,
      tr_Duplicate = duplicate, tr_HistoryOnly = historyOnly\<rparr>"

definition monitor_snapshot :: "monitor \<Rightarrow> Snapshot" where
  "monitor_snapshot m =
     \<lparr>snap_State = m_current_state m, snap_ConsecutiveFailures = m_consecutive_failures m\<rparr>"

definition Record :: "time \<Rightarrow> time \<Rightarrow> Result \<Rightarrow> db \<Rightarrow> db_error + (Transition \<times> db)" where
  "Record now clock r d =
     (case find_monitor (r_MonitorID r) d of
        None \<Rightarrow> Inl ErrNoRows
      | Some m \<Rightarrow>
          let snap = monitor_snapshot m in
          if location_bound (r_MonitorID r) d then
            bindE (insertResult now clock r d) (\<lambda>(_, d1). Inr (unapplied snap False True, d1))
          else
            bindE (insertResult now clock r d) (\<lambda>(inserted, d1).
              if \<not> inserted then Inr (unapplied snap True False, d1)
              else if \<not> r_SyntheticAbsence r \<and> before (r_StartedAt r) (m_last_result_started_at m)
              then Inr (unapplied snap False True, d1)
              else
                let t = Apply snap (IsFailureStatus (r_Status r))
                              (m_consecutive_failures_threshold m);
                    d2 = update_monitor (r_MonitorID r) (apply_to_monitor now r t) d1 in
                if tr_Changed t then
                  bindE (RecordIntervalTx now (r_TenantID r) (r_MonitorID r) (tr_To t) ''result'' d2)
                        (\<lambda>d3. Inr (t, d3))
                else Inr (t, d2)))"

section \<open>A location's stream and the quorum\<close>

record outcome =
  oc_duplicate :: bool
  oc_stateChanged :: bool

definition location_row ::
    "time \<Rightarrow> Result \<Rightarrow> uuid \<Rightarrow> Transition \<Rightarrow> time option \<Rightarrow> monitor_location_state" where
  "location_row now r l t changed_at =
     \<lparr>mls_monitor_id = r_MonitorID r, mls_location_id = l, mls_tenant_id = r_TenantID r,
      mls_current_state = tr_To t, mls_consecutive_failures = tr_ConsecutiveFailures t,
      mls_last_latency_ms = r_LatencyMs r, mls_last_check_at = Some now,
      mls_last_result_started_at = Some (r_StartedAt r),
      mls_last_state_change_at = changed_at, mls_updated_at = now\<rparr>"

text \<open>The upsert: on conflict every listed column is overwritten, the tenant is kept.\<close>

definition upsert_location_state ::
    "time \<Rightarrow> Result \<Rightarrow> uuid \<Rightarrow> Transition \<Rightarrow> db \<Rightarrow> db" where
  "upsert_location_state now r l t d =
     (case find_location_state (r_MonitorID r) l d of
        None \<Rightarrow>
          d\<lparr>location_states := location_states d @
              [location_row now r l t (if tr_Changed t then Some now else None)]\<rparr>
      | Some _ \<Rightarrow>
          d\<lparr>location_states :=
              sql_update (\<lambda>s. mls_key s = (r_MonitorID r, l))
                (\<lambda>s. (location_row now r l t
                        (if tr_Changed t then Some now else mls_last_state_change_at s))
                     \<lparr>mls_tenant_id := mls_tenant_id s\<rparr>)
                (location_states d)\<rparr>)"

definition location_snapshot :: "uuid \<Rightarrow> uuid \<Rightarrow> db \<Rightarrow> Snapshot" where
  "location_snapshot mid l d =
     (case find_location_state mid l d of
        None \<Rightarrow> \<lparr>snap_State = StateUnknown, snap_ConsecutiveFailures = 0\<rparr>
      | Some s \<Rightarrow> \<lparr>snap_State = mls_current_state s,
                   snap_ConsecutiveFailures = mls_consecutive_failures s\<rparr>)"

definition location_watermark :: "uuid \<Rightarrow> uuid \<Rightarrow> db \<Rightarrow> time option" where
  "location_watermark mid l d =
     (case find_location_state mid l d of None \<Rightarrow> None | Some s \<Rightarrow> mls_last_result_started_at s)"

definition aggregate_to_monitor :: "time \<Rightarrow> State \<Rightarrow> int \<Rightarrow> bool \<Rightarrow> monitor \<Rightarrow> monitor" where
  "aggregate_to_monitor now newState maxFailures changed m = m\<lparr>
     m_current_state := newState,
     m_consecutive_failures := maxFailures,
     m_last_state_change_at := (if changed then Some now else m_last_state_change_at m),
     m_last_result_at := Some now,
     m_updated_at := now\<rparr>"

definition persistAtLocation ::
    "time \<Rightarrow> time \<Rightarrow> Result \<Rightarrow> uuid \<Rightarrow> db \<Rightarrow> db_error + (outcome \<times> db)" where
  "persistAtLocation now clock r l d =
     (case find_monitor (r_MonitorID r) d of
        None \<Rightarrow> Inl ErrNoRows
      | Some m \<Rightarrow>
          bindE (insertResult now clock r d) (\<lambda>(inserted, d1).
            if \<not> inserted then Inr (\<lparr>oc_duplicate = True, oc_stateChanged = False\<rparr>, d1)
            else if \<not> list_ex (\<lambda>ml. ml = (r_MonitorID r, l)) (monitor_locations d1)
            then Inr (\<lparr>oc_duplicate = False, oc_stateChanged = False\<rparr>, d1)
            else if before (r_StartedAt r) (location_watermark (r_MonitorID r) l d1)
            then Inr (\<lparr>oc_duplicate = False, oc_stateChanged = False\<rparr>, d1)
            else
              let t = Apply (location_snapshot (r_MonitorID r) l d1)
                            (IsFailureStatus (r_Status r)) (m_consecutive_failures_threshold m);
                  d2 = upsert_location_state now r l t d1;
                  (counts, maxFailures) =
                    LoadFreshLocationCounts now (r_MonitorID r)
                      (FreshnessHorizonSeconds (m_interval_seconds m)) d2;
                  newState = AggregateLocations counts (m_location_quorum m);
                  changed = (newState \<noteq> m_current_state m);
                  d3 = update_monitor (r_MonitorID r)
                         (aggregate_to_monitor now newState maxFailures changed) d2 in
              if changed then
                bindE (RecordIntervalTx now (r_TenantID r) (r_MonitorID r) newState ''result'' d3)
                      (\<lambda>d4. Inr (\<lparr>oc_duplicate = False, oc_stateChanged = True\<rparr>, d4))
              else Inr (\<lparr>oc_duplicate = False, oc_stateChanged = False\<rparr>, d3)))"

section \<open>Every outcome of Record\<close>

lemma keeps_identity_writes [simp]:
  "keeps_identity (apply_to_monitor now r t)"
  "keeps_identity (aggregate_to_monitor now s n c)"
  unfolding apply_to_monitor_def aggregate_to_monitor_def
  by (rule keeps_identityI; simp)+

lemma apply_to_monitor_state [simp]:
  "m_current_state (apply_to_monitor now r t m) = tr_To t"
  "m_current_state (aggregate_to_monitor now s n c m) = s"
  by (simp_all add: apply_to_monitor_def aggregate_to_monitor_def)

lemma result_reason [simp]: "''result'' \<in> set IntervalReasons"
  by (simp add: IntervalReasons_def)

text \<open>Recording the new state exactly when it differs from the old one keeps the store.\<close>

lemma transition_ok:
  assumes ok: "store_ok d" and k: "keeps_identity f" and m: "find_monitor mid d = Some m"
    and s: "m_current_state (f m) = s" and t: "tid \<in> set (tenants d)"
    and r: "reason \<in> set IntervalReasons"
  obtains d' where
    "(if s \<noteq> m_current_state m then RecordIntervalTx now tid mid s reason (update_monitor mid f d)
      else Inr (update_monitor mid f d)) = Inr d'"
    and "store_ok d'"
    and "d' = update_monitor mid f d\<lparr>state_intervals := state_intervals d'\<rparr>"
    and "monitor_timeline mid d' = (if s \<noteq> m_current_state m
           then extended now tid mid s reason (monitor_timeline mid d) else monitor_timeline mid d)"
    and "\<And>mid'. mid' \<noteq> mid \<Longrightarrow> monitor_timeline mid' d' = monitor_timeline mid' d"
proof (cases "s = m_current_state m")
  case True
  have "store_ok (update_monitor mid f d)"
  proof (rule update_monitor_ok [OF ok k])
    fix m' assume "m' \<in> set (monitors d)" "m_id m' = mid"
    with m ok have "m' = m" by (metis find_monitor_unique option.inject)
    with True s show "m_current_state (f m') = m_current_state m'" by simp
  qed
  with True show thesis by (intro that [of "update_monitor mid f d"]) simp_all
next
  case False
  show thesis
    by (rule record_state_ok [OF ok k m s t r, of now]) (use False in \<open>auto intro: that\<close>)
qed

lemma insertResult_refs:
  "insertResult now clock r d = Inr (True, d') \<Longrightarrow> r_TenantID r \<in> set (tenants d')"
  by (erule insertResult_cases) (auto simp: result_refs_def Let_def split: if_splits)

text \<open>
  The four ways \<open>Record\<close> succeeds, with the database each leaves: location-bound (S-E5),
  redelivered (S-E3), late (S-O2), and applied.
\<close>

lemma Record_cases:
  assumes ok: "store_ok d" and rec: "Record now clock r d = Inr (t, d')"
    and m: "find_monitor (r_MonitorID r) d = Some m"
  obtains (bound) b where "location_bound (r_MonitorID r) d"
      "insertResult now clock r d = Inr (b, d')" "t = unapplied (monitor_snapshot m) False True"
  | (redelivered) "\<not> location_bound (r_MonitorID r) d" "d' = d"
      "list_ex (same_evidence r) (check_results d)" "t = unapplied (monitor_snapshot m) True False"
  | (late) "\<not> location_bound (r_MonitorID r) d" "insertResult now clock r d = Inr (True, d')"
      "\<not> r_SyntheticAbsence r" "before (r_StartedAt r) (m_last_result_started_at m)"
      "t = unapplied (monitor_snapshot m) False True"
  | (applied) d1 where "\<not> location_bound (r_MonitorID r) d"
      "insertResult now clock r d = Inr (True, d1)"
      "r_SyntheticAbsence r \<or> \<not> before (r_StartedAt r) (m_last_result_started_at m)"
      "t = Apply (monitor_snapshot m) (IsFailureStatus (r_Status r))
             (m_consecutive_failures_threshold m)"
      "(if tr_To t \<noteq> m_current_state m
        then RecordIntervalTx now (r_TenantID r) (r_MonitorID r) (tr_To t) ''result''
               (update_monitor (r_MonitorID r) (apply_to_monitor now r t) d1)
        else Inr (update_monitor (r_MonitorID r) (apply_to_monitor now r t) d1)) = Inr d'"
proof (cases "location_bound (r_MonitorID r) d")
  case True
  then obtain b where "insertResult now clock r d = Inr (b, d')"
    and "t = unapplied (monitor_snapshot m) False True"
    using rec m by (auto simp: Record_def Let_def bindE_eq_Inr)
  with True show thesis by (rule bound)
next
  case False
  from rec m False obtain b d1 where ins: "insertResult now clock r d = Inr (b, d1)"
    by (auto simp: Record_def Let_def bindE_eq_Inr)
  show thesis
  proof (cases b)
    case b: False
    with ins have d1: "d1 = d" and dup: "list_ex (same_evidence r) (check_results d)"
      by (auto elim: insertResult_cases)
    have "Record now clock r d = Inr (unapplied (monitor_snapshot m) True False, d1)"
      using m False ins b by (simp add: Record_def)
    with rec d1 have "t = unapplied (monitor_snapshot m) True False" and "d' = d" by auto
    then show thesis by (intro redelivered False dup)
  next
    case b: True
    show thesis
    proof (cases "\<not> r_SyntheticAbsence r \<and> before (r_StartedAt r) (m_last_result_started_at m)")
      case True
      then have "Record now clock r d = Inr (unapplied (monitor_snapshot m) False True, d1)"
        using m False ins b by (simp add: Record_def)
      with rec have t: "t = unapplied (monitor_snapshot m) False True" and d1: "d1 = d'" by auto
      show thesis using True False ins b by (intro late t) (simp_all add: d1)
    next
      case on_time: False
      define t0 where "t0 = Apply (monitor_snapshot m) (IsFailureStatus (r_Status r))
                                  (m_consecutive_failures_threshold m)"
      define d2 where "d2 = update_monitor (r_MonitorID r) (apply_to_monitor now r t0) d1"
      have ch: "tr_Changed t0 \<longleftrightarrow> tr_To t0 \<noteq> m_current_state m"
        by (simp add: t0_def monitor_snapshot_def)
      have "Record now clock r d =
          (if tr_Changed t0 then bindE (RecordIntervalTx now (r_TenantID r) (r_MonitorID r)
             (tr_To t0) ''result'' d2) (\<lambda>d3. Inr (t0, d3)) else Inr (t0, d2))"
        unfolding Record_def using m False ins b on_time
        by (simp only: option.case bindE_simps prod.case Let_def t0_def d2_def if_False if_True
            not_True_eq_False HOL.simp_thms)
      with rec have t: "t = t0" and rest: "(if tr_To t0 \<noteq> m_current_state m
          then RecordIntervalTx now (r_TenantID r) (r_MonitorID r) (tr_To t0) ''result'' d2
          else Inr d2) = Inr d'"
        using ch by (auto simp: bindE_eq_Inr split: if_splits)
      show thesis
        using False ins b on_time rest by (intro applied [of d1]) (auto simp: t t0_def d2_def)
    qed
  qed
qed

lemma Record_ok:
  assumes ok: "store_ok d" and rec: "Record now clock r d = Inr (t, d')"
  shows "store_ok d'"
proof -
  obtain m where m: "find_monitor (r_MonitorID r) d = Some m"
    using rec by (auto simp: Record_def split: option.splits)
  from ok rec m show ?thesis
  proof (cases rule: Record_cases)
    case (applied d1)
    have ok1: "store_ok d1" using ok applied(2) by (rule insertResult_ok)
    have m1: "find_monitor (r_MonitorID r) d1 = Some m" using applied(2) m by simp
    have t1: "r_TenantID r \<in> set (tenants d1)" using applied(2) by (rule insertResult_refs)
    obtain d2 where "(if tr_To t \<noteq> m_current_state m
        then RecordIntervalTx now (r_TenantID r) (r_MonitorID r) (tr_To t) ''result''
               (update_monitor (r_MonitorID r) (apply_to_monitor now r t) d1)
        else Inr (update_monitor (r_MonitorID r) (apply_to_monitor now r t) d1)) = Inr d2"
      and "store_ok d2"
      by (rule transition_ok [OF ok1 keeps_identity_writes(1) m1 apply_to_monitor_state(1) t1
            result_reason]) blast
    with applied(5) show ?thesis by simp
  qed (auto intro: insertResult_ok ok)
qed

section \<open>Every outcome of persistAtLocation\<close>

text \<open>
  What the aggregation reads after the upsert: the new state of the monitor and its failure
  count, as functions of the database with the upserted row.
\<close>

definition location_transition :: "Result \<Rightarrow> uuid \<Rightarrow> monitor \<Rightarrow> db \<Rightarrow> Transition" where
  "location_transition r l m d = Apply (location_snapshot (r_MonitorID r) l d)
     (IsFailureStatus (r_Status r)) (m_consecutive_failures_threshold m)"

definition aggregated :: "time \<Rightarrow> monitor \<Rightarrow> db \<Rightarrow> State \<times> int" where
  "aggregated now m d =
     (let (counts, maxFailures) = LoadFreshLocationCounts now (m_id m)
            (FreshnessHorizonSeconds (m_interval_seconds m)) d in
      (AggregateLocations counts (m_location_quorum m), maxFailures))"

lemma upsert_frame [simp]:
  "monitors (upsert_location_state now r l t d) = monitors d"
  "tenants (upsert_location_state now r l t d) = tenants d"
  "locations (upsert_location_state now r l t d) = locations d"
  "monitor_locations (upsert_location_state now r l t d) = monitor_locations d"
  "check_results (upsert_location_state now r l t d) = check_results d"
  "state_intervals (upsert_location_state now r l t d) = state_intervals d"
  "find_monitor mid (upsert_location_state now r l t d) = find_monitor mid d"
  "monitor_timeline mid (upsert_location_state now r l t d) = monitor_timeline mid d"
  by (simp_all add: upsert_location_state_def find_monitor_def split: option.split)

lemma location_row_simps [simp]:
  "mls_monitor_id (location_row now r l t c) = r_MonitorID r"
  "mls_location_id (location_row now r l t c) = l"
  "mls_current_state (location_row now r l t c) = tr_To t"
  "mls_consecutive_failures (location_row now r l t c) = tr_ConsecutiveFailures t"
  "mls_last_check_at (location_row now r l t c) = Some now"
  "mls_last_result_started_at (location_row now r l t c) = Some (r_StartedAt r)"
  by (simp_all add: location_row_def)

lemma upsert_ok:
  assumes ok: "store_ok d" and sel: "(r_MonitorID r, l) \<in> set (monitor_locations d)"
    and t: "tr_To t \<noteq> StateDegraded"
  shows "store_ok (upsert_location_state now r l t d)"
proof (cases "find_location_state (r_MonitorID r) l d")
  case None
  then have "(r_MonitorID r, l) \<notin> mls_key ` set (location_states d)"
    by (auto simp: find_location_state_def find_None_iff)
  with None assms show ?thesis
    by (auto simp: upsert_location_state_def store_defs intro!: store_ok_location_states)
next
  case (Some s0)
  let ?f = "\<lambda>s. (location_row now r l t
      (if tr_Changed t then Some now else mls_last_state_change_at s))\<lparr>mls_tenant_id := mls_tenant_id s\<rparr>"
  let ?p = "\<lambda>s. mls_key s = (r_MonitorID r, l)"
  let ?ss = "sql_update ?p ?f (location_states d)"
  have keys: "map mls_key ?ss = map mls_key (location_states d)"
    unfolding sql_update_def by (simp add: map_idI)
  have "store_ok (d\<lparr>location_states := ?ss\<rparr>)"
  proof (rule store_ok_location_states [OF ok])
    show "distinct (map mls_key ?ss)" using ok unfolding keys by (simp add: store_defs)
    fix s assume "s \<in> set ?ss"
    then obtain s1 where s1: "s1 \<in> set (location_states d)" and s: "s = (if ?p s1 then ?f s1 else s1)"
      by (auto simp: set_sql_update)
    then show "mls_key s \<in> set (monitor_locations d) \<and> mls_current_state s \<noteq> StateDegraded"
      using ok sel t by (cases "?p s1") (auto simp: store_defs)
  qed
  with Some show ?thesis by (simp add: upsert_location_state_def)
qed

lemma persistAtLocation_eq:
  assumes m: "find_monitor (r_MonitorID r) d = Some m"
    and ins: "insertResult now clock r d = Inr (True, d1)"
    and sel: "(r_MonitorID r, l) \<in> set (monitor_locations d)"
    and on_time: "\<not> before (r_StartedAt r) (location_watermark (r_MonitorID r) l d)"
    and d2: "d2 = upsert_location_state now r l (location_transition r l m d) d1"
    and ag: "aggregated now m d2 = (s, n)"
  shows "persistAtLocation now clock r l d =
    (let d3 = update_monitor (r_MonitorID r)
                (aggregate_to_monitor now s n (s \<noteq> m_current_state m)) d2 in
     if s \<noteq> m_current_state m
     then bindE (RecordIntervalTx now (r_TenantID r) (r_MonitorID r) s ''result'' d3)
            (\<lambda>d4. Inr (\<lparr>oc_duplicate = False, oc_stateChanged = True\<rparr>, d4))
     else Inr (\<lparr>oc_duplicate = False, oc_stateChanged = False\<rparr>, d3))"
proof -
  note fr = insertResult_frame [OF ins]
  have wm: "location_watermark (r_MonitorID r) l d1 = location_watermark (r_MonitorID r) l d"
    and sn: "location_snapshot (r_MonitorID r) l d1 = location_snapshot (r_MonitorID r) l d"
    by (simp_all add: location_watermark_def location_snapshot_def find_location_state_def fr)
  have mid: "m_id m = r_MonitorID r" using m by (auto dest: find_monitor_SomeD)
  obtain c where lf: "LoadFreshLocationCounts now (r_MonitorID r)
      (FreshnessHorizonSeconds (m_interval_seconds m)) d2 = (c, n)"
    and s: "s = AggregateLocations c (m_location_quorum m)"
    using ag by (auto simp: aggregated_def mid split: prod.splits)
  show ?thesis
    using m ins sel on_time fr wm sn lf
    by (simp add: persistAtLocation_def list_ex_iff Let_def d2 s location_transition_def)
qed

lemma upsert_applied_ok:
  assumes ok: "store_ok d" and ins: "insertResult now clock r d = Inr (True, d1)"
    and sel: "(r_MonitorID r, l) \<in> set (monitor_locations d)"
  shows "store_ok (upsert_location_state now r l (location_transition r l m d) d1)"
proof (rule upsert_ok)
  show "store_ok d1" using ok ins by (rule insertResult_ok)
  show "(r_MonitorID r, l) \<in> set (monitor_locations d1)"
    using sel insertResult_frame(4) [OF ins] by simp
  show "tr_To (location_transition r l m d) \<noteq> StateDegraded"
    using Apply_range [of "location_snapshot (r_MonitorID r) l d" "IsFailureStatus (r_Status r)"
        "m_consecutive_failures_threshold m"] by (auto simp: location_transition_def)
qed

lemma persistAtLocation_cases:
  assumes rec: "persistAtLocation now clock r l d = Inr (oc, d')"
    and m: "find_monitor (r_MonitorID r) d = Some m"
  obtains (redelivered) "d' = d" "list_ex (same_evidence r) (check_results d)"
      "oc = \<lparr>oc_duplicate = True, oc_stateChanged = False\<rparr>"
  | (unselected) "insertResult now clock r d = Inr (True, d')"
      "(r_MonitorID r, l) \<notin> set (monitor_locations d)"
      "oc = \<lparr>oc_duplicate = False, oc_stateChanged = False\<rparr>"
  | (late) "insertResult now clock r d = Inr (True, d')"
      "before (r_StartedAt r) (location_watermark (r_MonitorID r) l d)"
      "oc = \<lparr>oc_duplicate = False, oc_stateChanged = False\<rparr>"
  | (applied) d1 d2 s n where "insertResult now clock r d = Inr (True, d1)"
      "(r_MonitorID r, l) \<in> set (monitor_locations d)"
      "\<not> before (r_StartedAt r) (location_watermark (r_MonitorID r) l d)"
      "d2 = upsert_location_state now r l (location_transition r l m d) d1"
      "aggregated now m d2 = (s, n)"
      "(if s \<noteq> m_current_state m
        then RecordIntervalTx now (r_TenantID r) (r_MonitorID r) s ''result''
               (update_monitor (r_MonitorID r)
                  (aggregate_to_monitor now s n (s \<noteq> m_current_state m)) d2)
        else Inr (update_monitor (r_MonitorID r)
                  (aggregate_to_monitor now s n (s \<noteq> m_current_state m)) d2)) = Inr d'"
      "oc = \<lparr>oc_duplicate = False, oc_stateChanged = (s \<noteq> m_current_state m)\<rparr>"
proof -
  obtain b d1 where ins: "insertResult now clock r d = Inr (b, d1)"
    using rec m by (auto simp: persistAtLocation_def bindE_eq_Inr)
  note fr = insertResult_frame [OF ins]
  have wm: "location_watermark (r_MonitorID r) l d1 = location_watermark (r_MonitorID r) l d"
    by (simp_all add: location_watermark_def find_location_state_def fr)
  consider (dup) "\<not> b" | (unsel) "b" "(r_MonitorID r, l) \<notin> set (monitor_locations d)"
    | (lateE) "b" "(r_MonitorID r, l) \<in> set (monitor_locations d)"
        "before (r_StartedAt r) (location_watermark (r_MonitorID r) l d)"
    | (app) "b" "(r_MonitorID r, l) \<in> set (monitor_locations d)"
        "\<not> before (r_StartedAt r) (location_watermark (r_MonitorID r) l d)"
    by blast
  then show thesis
  proof cases
    case dup
    have "persistAtLocation now clock r l d = Inr (\<lparr>oc_duplicate = True, oc_stateChanged = False\<rparr>, d1)"
      using m ins dup by (simp add: persistAtLocation_def)
    with rec have e: "oc = \<lparr>oc_duplicate = True, oc_stateChanged = False\<rparr>" and "d' = d1" by auto
    from ins dup have "d1 = d" and "list_ex (same_evidence r) (check_results d)"
      by (auto elim: insertResult_cases)
    with \<open>d' = d1\<close> e show thesis by (intro redelivered) simp_all
  next
    case unsel
    have "persistAtLocation now clock r l d = Inr (\<lparr>oc_duplicate = False, oc_stateChanged = False\<rparr>, d1)"
      using m ins unsel fr by (simp add: persistAtLocation_def list_ex_iff)
    with rec have "oc = \<lparr>oc_duplicate = False, oc_stateChanged = False\<rparr>" and "d' = d1" by auto
    with ins unsel show thesis by (intro unselected) simp_all
  next
    case lateE
    have "persistAtLocation now clock r l d = Inr (\<lparr>oc_duplicate = False, oc_stateChanged = False\<rparr>, d1)"
      using m ins lateE fr wm by (simp add: persistAtLocation_def list_ex_iff)
    with rec have "oc = \<lparr>oc_duplicate = False, oc_stateChanged = False\<rparr>" and "d' = d1" by auto
    with ins lateE show thesis by (intro late) simp_all
  next
    case app
    define d2 where "d2 = upsert_location_state now r l (location_transition r l m d) d1"
    obtain s n where ag: "aggregated now m d2 = (s, n)" by (cases "aggregated now m d2")
    have ins': "insertResult now clock r d = Inr (True, d1)" using ins app by simp
    note body = persistAtLocation_eq [OF m ins' app(2,3) d2_def ag]
    show thesis
    proof (rule applied [OF _ app(2,3) d2_def ag])
      show "insertResult now clock r d = Inr (True, d1)" by (rule ins')
      show "(if s \<noteq> m_current_state m
        then RecordIntervalTx now (r_TenantID r) (r_MonitorID r) s ''result''
               (update_monitor (r_MonitorID r)
                  (aggregate_to_monitor now s n (s \<noteq> m_current_state m)) d2)
        else Inr (update_monitor (r_MonitorID r)
                  (aggregate_to_monitor now s n (s \<noteq> m_current_state m)) d2)) = Inr d'"
        and "oc = \<lparr>oc_duplicate = False, oc_stateChanged = (s \<noteq> m_current_state m)\<rparr>"
        using rec unfolding body Let_def by (auto simp: bindE_eq_Inr split: if_splits)
    qed
  qed
qed

text \<open>
  The database after an applied location result: the monitor row holds the aggregate, the
  location rows are those after the upsert, the timeline is extended exactly on a change.
\<close>

lemma persist_applied:
  assumes ok: "store_ok d" and m: "find_monitor (r_MonitorID r) d = Some m"
    and ins: "insertResult now clock r d = Inr (True, d1)"
    and sel: "(r_MonitorID r, l) \<in> set (monitor_locations d)"
    and d2: "d2 = upsert_location_state now r l (location_transition r l m d) d1"
    and ag: "aggregated now m d2 = (s, n)"
    and upd: "(if s \<noteq> m_current_state m
        then RecordIntervalTx now (r_TenantID r) (r_MonitorID r) s ''result''
               (update_monitor (r_MonitorID r)
                  (aggregate_to_monitor now s n (s \<noteq> m_current_state m)) d2)
        else Inr (update_monitor (r_MonitorID r)
                  (aggregate_to_monitor now s n (s \<noteq> m_current_state m)) d2)) = Inr d'"
  shows "store_ok d'"
    and "d' = update_monitor (r_MonitorID r)
           (aggregate_to_monitor now s n (s \<noteq> m_current_state m)) d2\<lparr>state_intervals := state_intervals d'\<rparr>"
proof -
  have ok2: "store_ok d2" unfolding d2 by (rule upsert_applied_ok [OF ok ins sel])
  have m2: "find_monitor (r_MonitorID r) d2 = Some m" using m ins by (simp add: d2)
  have t2: "r_TenantID r \<in> set (tenants d2)" using insertResult_refs [OF ins] by (simp add: d2)
  obtain d3 where "(if s \<noteq> m_current_state m
        then RecordIntervalTx now (r_TenantID r) (r_MonitorID r) s ''result''
               (update_monitor (r_MonitorID r)
                  (aggregate_to_monitor now s n (s \<noteq> m_current_state m)) d2)
        else Inr (update_monitor (r_MonitorID r)
                  (aggregate_to_monitor now s n (s \<noteq> m_current_state m)) d2)) = Inr d3"
    and "store_ok d3" and "d3 = update_monitor (r_MonitorID r)
           (aggregate_to_monitor now s n (s \<noteq> m_current_state m)) d2\<lparr>state_intervals := state_intervals d3\<rparr>"
    by (rule transition_ok [OF ok2 keeps_identity_writes(2) m2 apply_to_monitor_state(2) t2
          result_reason]) blast
  with upd show "store_ok d'"
    and "d' = update_monitor (r_MonitorID r)
           (aggregate_to_monitor now s n (s \<noteq> m_current_state m)) d2\<lparr>state_intervals := state_intervals d'\<rparr>"
    by simp_all
qed

lemma persistAtLocation_ok:
  assumes ok: "store_ok d" and rec: "persistAtLocation now clock r l d = Inr (oc, d')"
  shows "store_ok d'"
proof -
  obtain m where m: "find_monitor (r_MonitorID r) d = Some m"
    using rec by (auto simp: persistAtLocation_def split: option.splits)
  from rec m show ?thesis
  proof (cases rule: persistAtLocation_cases)
    case (applied d1 d2 s n)
    show ?thesis
      by (rule persist_applied(1) [OF ok m applied(1,2,4,5,6)])
  qed (use ok in \<open>auto intro: insertResult_ok\<close>)
qed

end
