(* ===== verification/EvidenceSpec.thy ===== *)
theory EvidenceSpec
  imports Evidence
begin

text \<open>
  What the two evidence transactions of \<open>Evidence\<close> guarantee to their callers: exactly-once
  application under redelivery (S-E3), no effect of late evidence (S-O2), history only for a
  location-less result of a location-bound monitor (S-E5), the monitor row as the fold of its
  stream, and the monitor row as the quorum of its fresh locations (S-A10).
\<close>

section \<open>Facts about a single Record\<close>

lemma insertResult_checks:
  "insertResult now clock r d = Inr (b, d') \<Longrightarrow> result_checks r"
  by (simp add: insertResult_def split: if_splits)

lemma insertResult_recorded:
  "insertResult now clock r d = Inr (b, d') \<Longrightarrow> list_ex (same_evidence r) (check_results d')"
  by (erule insertResult_cases)
     (auto simp: Let_def same_evidence_def result_row_def list_ex_iff)

lemma insertResult_again:
  "result_checks r \<Longrightarrow> list_ex (same_evidence r) (check_results d) \<Longrightarrow>
   insertResult now clock r d = Inr (False, d)"
  by (simp add: insertResult_def)

lemma insertResult_new:
  assumes "result_checks r" and "\<not> list_ex (same_evidence r) (check_results d)" and "result_refs r d"
  obtains d1 where "insertResult now clock r d = Inr (True, d1)"
  using assms by (simp add: insertResult_def Let_def)

lemma location_bound_cong:
  "monitor_locations d' = monitor_locations d \<Longrightarrow> location_bound mid d' = location_bound mid d"
  by (simp add: location_bound_def)

text \<open>The applied branch, with the database it leaves.\<close>

lemma Record_applied:
  assumes ok: "store_ok d" and m: "find_monitor (r_MonitorID r) d = Some m"
    and nb: "\<not> location_bound (r_MonitorID r) d" and ch: "result_checks r"
    and new: "\<not> list_ex (same_evidence r) (check_results d)" and refs: "result_refs r d"
    and on_time: "r_SyntheticAbsence r \<or> \<not> before (r_StartedAt r) (m_last_result_started_at m)"
    and t: "t = Apply (monitor_snapshot m) (IsFailureStatus (r_Status r))
                  (m_consecutive_failures_threshold m)"
  obtains d' where "Record now clock r d = Inr (t, d')" and "store_ok d'"
    and "find_monitor (r_MonitorID r) d' = Some (apply_to_monitor now r t m)"
    and "\<And>mid. mid \<noteq> r_MonitorID r \<Longrightarrow> find_monitor mid d' = find_monitor mid d"
    and "monitor_timeline (r_MonitorID r) d' = (if tr_Changed t
           then extended now (r_TenantID r) (r_MonitorID r) (tr_To t) ''result''
                  (monitor_timeline (r_MonitorID r) d)
           else monitor_timeline (r_MonitorID r) d)"
    and "check_results d' = check_results d @ [result_row now r]"
    and "monitor_locations d' = monitor_locations d" and "tenants d' = tenants d"
    and "locations d' = locations d" and "location_states d' = location_states d"
proof -
  obtain d1 where ins: "insertResult now clock r d = Inr (True, d1)"
    using ch new refs by (rule insertResult_new)
  note fr = insertResult_frame [OF ins]
  have m1: "find_monitor (r_MonitorID r) d1 = Some m" using ins m by simp
  have t1: "r_TenantID r \<in> set (tenants d1)" using ins by (rule insertResult_refs)
  let ?f = "apply_to_monitor now r t" and ?mid = "r_MonitorID r"
  have c: "tr_Changed t \<longleftrightarrow> tr_To t \<noteq> m_current_state m" by (simp add: t monitor_snapshot_def)
  obtain d' where upd: "(if tr_To t \<noteq> m_current_state m
       then RecordIntervalTx now (r_TenantID r) ?mid (tr_To t) ''result'' (update_monitor ?mid ?f d1)
       else Inr (update_monitor ?mid ?f d1)) = Inr d'"
    and ok': "store_ok d'" and d': "d' = update_monitor ?mid ?f d1\<lparr>state_intervals := state_intervals d'\<rparr>"
    and tl: "monitor_timeline ?mid d' = (if tr_To t \<noteq> m_current_state m
       then extended now (r_TenantID r) ?mid (tr_To t) ''result'' (monitor_timeline ?mid d1)
       else monitor_timeline ?mid d1)"
    by (rule transition_ok [OF insertResult_ok [OF ok ins] keeps_identity_writes(1) m1
          apply_to_monitor_state(1) t1 result_reason]) blast
  have find': "find_monitor mid d' = find_monitor mid (update_monitor ?mid ?f d1)" for mid
    by (subst d') (simp add: find_monitor_def)
  have tl1: "monitor_timeline ?mid d1 = monitor_timeline ?mid d"
    by (simp add: monitor_timeline_def fr)
  have body: "Record now clock r d =
      (if tr_Changed t then bindE (RecordIntervalTx now (r_TenantID r) ?mid (tr_To t) ''result''
         (update_monitor ?mid ?f d1)) (\<lambda>d3. Inr (t, d3)) else Inr (t, update_monitor ?mid ?f d1))"
  proof -
    have "(\<not> r_SyntheticAbsence r \<and> before (r_StartedAt r) (m_last_result_started_at m)) = False"
      using on_time by blast
    with m nb ins show ?thesis
      unfolding Record_def t
      by (simp only: option.case bindE_simps prod.case Let_def if_False if_True
          not_True_eq_False)
  qed
  show thesis
  proof (rule that)
    show "Record now clock r d = Inr (t, d')" using upd body c by (simp split: if_splits)
    show "store_ok d'" by (rule ok')
    show "monitor_timeline ?mid d' = (if tr_Changed t
           then extended now (r_TenantID r) ?mid (tr_To t) ''result'' (monitor_timeline ?mid d)
           else monitor_timeline ?mid d)" using tl c tl1 by simp
    show "find_monitor ?mid d' = Some (?f m)"
      using m1 by (simp add: find' find_monitor_update)
    show "find_monitor mid d' = find_monitor mid d" if "mid \<noteq> ?mid" for mid
      using that ins by (simp add: find' find_monitor_update option.map_ident)
    show "check_results d' = check_results d @ [result_row now r]" using fr by (subst d') simp
    show "monitor_locations d' = monitor_locations d" using fr by (subst d') simp
    show "tenants d' = tenants d" using fr by (subst d') simp
    show "locations d' = locations d" using fr by (subst d') simp
    show "location_states d' = location_states d" using fr by (subst d') simp
  qed
qed

section \<open>Watermarks\<close>

text \<open>The order on watermarks: no evidence yet is below every instant.\<close>

definition watermark_le :: "time option \<Rightarrow> time option \<Rightarrow> bool" where
  "watermark_le a b \<longleftrightarrow> (case a of None \<Rightarrow> True | Some x \<Rightarrow> (case b of None \<Rightarrow> False | Some y \<Rightarrow> x \<le> y))"

lemma watermark_le_refl [simp]: "watermark_le a a"
  by (simp add: watermark_le_def split: option.split)

lemma watermark_le_trans: "watermark_le a b \<Longrightarrow> watermark_le b c \<Longrightarrow> watermark_le a c"
  by (auto simp: watermark_le_def split: option.splits)

lemma not_before_watermark: "\<not> before t w \<longleftrightarrow> watermark_le w (Some t)"
  by (auto simp: before_def watermark_le_def split: option.split)

lemma apply_to_monitor_watermark:
  "r_SyntheticAbsence r \<or> \<not> before (r_StartedAt r) (m_last_result_started_at m) \<Longrightarrow>
   watermark_le (m_last_result_started_at m) (m_last_result_started_at (apply_to_monitor now r t m))"
  by (auto simp: apply_to_monitor_def not_before_watermark)

text \<open>The database that the applied branch leaves.\<close>

lemma Record_written:
  assumes ok: "store_ok d" and m: "find_monitor (r_MonitorID r) d = Some m"
    and ins: "insertResult now clock r d = Inr (True, d1)"
    and upd: "(if tr_To t \<noteq> m_current_state m
        then RecordIntervalTx now (r_TenantID r) (r_MonitorID r) (tr_To t) ''result''
               (update_monitor (r_MonitorID r) (apply_to_monitor now r t) d1)
        else Inr (update_monitor (r_MonitorID r) (apply_to_monitor now r t) d1)) = Inr d'"
  shows "d' = update_monitor (r_MonitorID r) (apply_to_monitor now r t) d1
                \<lparr>state_intervals := state_intervals d'\<rparr>"
    and "mid \<noteq> r_MonitorID r \<Longrightarrow> monitor_timeline mid d' = monitor_timeline mid d"
proof -
  have m1: "find_monitor (r_MonitorID r) d1 = Some m" using ins m by simp
  have "monitor_timeline x d1 = monitor_timeline x d" for x
    using insertResult_frame(6) [OF ins] by (simp add: monitor_timeline_def)
  moreover obtain d2 where "(if tr_To t \<noteq> m_current_state m
      then RecordIntervalTx now (r_TenantID r) (r_MonitorID r) (tr_To t) ''result''
             (update_monitor (r_MonitorID r) (apply_to_monitor now r t) d1)
      else Inr (update_monitor (r_MonitorID r) (apply_to_monitor now r t) d1)) = Inr d2"
    and "d2 = update_monitor (r_MonitorID r) (apply_to_monitor now r t) d1
                \<lparr>state_intervals := state_intervals d2\<rparr>"
    and "\<And>x. x \<noteq> r_MonitorID r \<Longrightarrow> monitor_timeline x d2 = monitor_timeline x d1"
    by (rule transition_ok [OF insertResult_ok [OF ok ins] keeps_identity_writes(1) m1
          apply_to_monitor_state(1) insertResult_refs [OF ins] result_reason]) blast
  ultimately show "d' = update_monitor (r_MonitorID r) (apply_to_monitor now r t) d1
                \<lparr>state_intervals := state_intervals d'\<rparr>"
    and "mid \<noteq> r_MonitorID r \<Longrightarrow> monitor_timeline mid d' = monitor_timeline mid d"
    using upd by simp_all
qed

text \<open>
  What a successful \<open>Record\<close> may do to a monitor row: nothing, or the applied update of its own
  monitor.
\<close>

lemma Record_monitor:
  assumes ok: "store_ok d" and rec: "Record now clock r d = Inr (t, d')"
    and m: "find_monitor mid d = Some m"
  obtains (kept) "find_monitor mid d' = Some m" "monitor_timeline mid d' = monitor_timeline mid d"
  | (applied) "mid = r_MonitorID r" "find_monitor mid d' = Some (apply_to_monitor now r t m)"
      "t = Apply (monitor_snapshot m) (IsFailureStatus (r_Status r)) (m_consecutive_failures_threshold m)"
      "r_SyntheticAbsence r \<or> \<not> before (r_StartedAt r) (m_last_result_started_at m)"
proof -
  obtain mr where mr: "find_monitor (r_MonitorID r) d = Some mr"
    using rec by (auto simp: Record_def split: option.splits)
  have kept': thesis if "insertResult now clock r d = Inr (b, d')" for b
    using that m insertResult_frame [OF that] by (intro kept) (simp_all add: monitor_timeline_def)
  from ok rec mr show thesis
  proof (cases rule: Record_cases)
    case redelivered
    with m show thesis by (intro kept) simp_all
  next
    case (applied d1)
    let ?u = "update_monitor (r_MonitorID r) (apply_to_monitor now r t) d1"
    note written = Record_written [OF ok mr applied(2,5)]
    have m1: "find_monitor (r_MonitorID r) d1 = Some mr" using applied(2) mr by simp
    have find': "find_monitor mid d' = find_monitor mid ?u"
      by (subst written(1)) (simp add: find_monitor_def)
    show thesis
    proof (cases "mid = r_MonitorID r")
      case True
      with m mr have "mr = m" by simp
      moreover have "find_monitor mid d' = Some (apply_to_monitor now r t mr)"
        unfolding find' using True m1 by (simp add: find_monitor_update)
      ultimately show thesis using True applied(3,4) by (intro that(2)) simp_all
    next
      case False
      have "find_monitor mid d' = Some m"
        unfolding find' using False m applied(2) by (simp add: find_monitor_update)
      with written(2) [OF False] show thesis by (intro kept)
    qed
  qed (auto intro: kept')
qed

text \<open>The history after a successful \<open>Record\<close> is that of its insert.\<close>

lemma Record_results:
  assumes ok: "store_ok d" and rec: "Record now clock r d = Inr (t, d')"
  shows "check_results d' = (if list_ex (same_evidence r) (check_results d) then check_results d
                             else check_results d @ [result_row now r])"
proof -
  obtain m where m: "find_monitor (r_MonitorID r) d = Some m"
    using rec by (auto simp: Record_def split: option.splits)
  have ins: "check_results d1 = (if list_ex (same_evidence r) (check_results d) then check_results d
      else check_results d @ [result_row now r])" if "insertResult now clock r d = Inr (b, d1)" for b d1
    using that by (rule insertResult_cases) (simp_all add: Let_def)
  from ok rec m show ?thesis
  proof (cases rule: Record_cases)
    case (applied d1)
    from arg_cong [OF Record_written(1) [OF ok m applied(2,5)], of check_results]
      ins [OF applied(2)] show ?thesis by simp
  qed (simp_all add: ins)
qed

lemma same_evidence_row:
  "same_evidence q (result_row now r) \<longleftrightarrow>
   (r_JobID q, r_ResultSource q) = (r_JobID r, r_ResultSource r)"
  by (auto simp: same_evidence_def result_row_def)

lemma Record_again:
  assumes ok: "store_ok d" and rec: "Record now clock r d = Inr (t, d')"
  shows "\<exists>t'. Record now' clock' r d' = Inr (t', d') \<and> \<not> tr_Changed t' \<and>
              \<not> tr_OpenedOutage t' \<and> \<not> tr_ClosedOutage t' \<and> (tr_Duplicate t' \<or> tr_HistoryOnly t')"
proof -
  obtain m where m: "find_monitor (r_MonitorID r) d = Some m"
    using rec by (auto simp: Record_def split: option.splits)
  obtain m' where m': "find_monitor (r_MonitorID r) d' = Some m'"
    using Record_monitor [OF ok rec m] by blast
  obtain b d1 where ins: "insertResult now clock r d = Inr (b, d1)"
    using rec m by (auto simp: Record_def Let_def bindE_eq_Inr split: if_splits)
  have "list_ex (same_evidence r) (check_results d')"
    using Record_results [OF ok rec] by (simp add: same_evidence_row)
  then have "insertResult now' clock' r d' = Inr (False, d')"
    using insertResult_checks [OF ins] by (rule insertResult_again [rotated])
  then have "Record now' clock' r d' = Inr (unapplied (monitor_snapshot m')
      (\<not> location_bound (r_MonitorID r) d') (location_bound (r_MonitorID r) d'), d')"
    using m' by (cases "location_bound (r_MonitorID r) d'")
      (simp_all add: Record_def Let_def del: insertResult_find)
  then show ?thesis
    by (intro exI [of _ "unapplied (monitor_snapshot m') (\<not> location_bound (r_MonitorID r) d')
          (location_bound (r_MonitorID r) d')"]) (simp add: unapplied_def)
qed

lemma Record_memberships:
  assumes ok: "store_ok d" and rec: "Record now clock r d = Inr (t, d')"
  shows "monitor_locations d' = monitor_locations d"
proof -
  obtain m where m: "find_monitor (r_MonitorID r) d = Some m"
    using rec by (auto simp: Record_def split: option.splits)
  from ok rec m show ?thesis
  proof (cases rule: Record_cases)
    case (applied d1)
    from arg_cong [OF Record_written(1) [OF ok m applied(2,5)], of monitor_locations]
      insertResult_frame(4) [OF applied(2)] show ?thesis by simp
  qed (auto dest: insertResult_frame(4))
qed

text \<open>
  The transition a successful \<open>Record\<close> returns tells the truth: exactly the monitor of the result
  changes state, and only when \<open>Changed\<close> is set.
\<close>

lemma Record_announces:
  assumes ok: "store_ok d" and rec: "Record now clock r d = Inr (t, d')"
    and m: "find_monitor mid d = Some m"
  shows "\<exists>m'. find_monitor mid d' = Some m' \<and>
     (m_current_state m' \<noteq> m_current_state m \<longleftrightarrow> mid = r_MonitorID r \<and> tr_Changed t) \<and>
     (tr_Changed t \<longrightarrow> \<not> tr_Duplicate t)"
proof -
  obtain mr where mr: "find_monitor (r_MonitorID r) d = Some mr"
    using rec by (auto simp: Record_def split: option.splits)
  from ok rec mr show ?thesis
  proof (cases rule: Record_cases)
    case (applied d1)
    let ?u = "update_monitor (r_MonitorID r) (apply_to_monitor now r t) d1"
    have "find_monitor mid d' = find_monitor mid ?u"
      by (subst Record_written(1) [OF ok mr applied(2,5)]) (simp add: find_monitor_def)
    moreover have "find_monitor mid d1 = Some m" using applied(2) m by simp
    moreover have "tr_Changed t \<longleftrightarrow> tr_To t \<noteq> m_current_state mr" "\<not> tr_Duplicate t"
      by (simp_all add: applied(4) monitor_snapshot_def)
    moreover have "mid = r_MonitorID r \<Longrightarrow> m = mr" using m mr by simp
    ultimately show ?thesis by (auto simp: find_monitor_update)
  qed (use m in \<open>simp_all add: unapplied_def\<close>)
qed

section \<open>The monitor row as the fold of its stream\<close>

text \<open>Recording one result after another; \<open>now\<close> and \<open>clock\<close> are read anew each time.\<close>

fun RecordAll :: "(time \<times> time \<times> Result) list \<Rightarrow> db \<Rightarrow> db_error + db" where
  "RecordAll [] d = Inr d"
| "RecordAll ((now, clock, r) # rs) d = bindE (Record now clock r d) (\<lambda>(_, d1). RecordAll rs d1)"

text \<open>
  A batch in evidence order: all for monitor \<open>mid\<close>, each of a job not seen before, none a
  synthetic absence, started at or after the watermark and in order among themselves.
\<close>

fun in_order :: "uuid \<Rightarrow> time option \<Rightarrow> (time \<times> time \<times> Result) list \<Rightarrow> db \<Rightarrow> bool" where
  "in_order mid w [] d = True"
| "in_order mid w ((now, clock, r) # rs) d \<longleftrightarrow>
     r_MonitorID r = mid \<and> result_checks r \<and> \<not> r_SyntheticAbsence r \<and> result_refs r d \<and>
     \<not> list_ex (same_evidence r) (check_results d) \<and>
     list_all (\<lambda>(_, _, q). (r_JobID q, r_ResultSource q) \<noteq> (r_JobID r, r_ResultSource r)) rs \<and>
     watermark_le w (Some (r_StartedAt r)) \<and> in_order mid (Some (r_StartedAt r)) rs d"

lemma result_refs_frame:
  "result_refs r d \<Longrightarrow> tenants d' = tenants d \<Longrightarrow> locations d' = locations d \<Longrightarrow>
   find_monitor (r_MonitorID r) d' \<noteq> None \<Longrightarrow> result_refs r d'"
  by (simp add: result_refs_def split: option.splits)

lemma in_order_frame:
  assumes fr: "tenants d' = tenants d" "locations d' = locations d"
    and m: "find_monitor mid d' \<noteq> None"
    and cr: "check_results d' = check_results d @ [result_row now r]"
  shows "in_order mid w rs d \<Longrightarrow>
    list_all (\<lambda>(_, _, q). (r_JobID q, r_ResultSource q) \<noteq> (r_JobID r, r_ResultSource r)) rs \<Longrightarrow>
    in_order mid w rs d'"
proof (induction rs arbitrary: w)
  case (Cons x rs)
  obtain n c q where x: "x = (n, c, q)" by (cases x)
  have "in_order mid (Some (r_StartedAt q)) rs d'" by (rule Cons.IH) (use Cons.prems in \<open>simp_all add: x\<close>)
  moreover have "result_refs q d'"
    by (rule result_refs_frame [OF _ fr]) (use Cons.prems m in \<open>auto simp: x\<close>)
  moreover have "\<not> list_ex (same_evidence q) (check_results d')"
    using Cons.prems by (simp add: x cr same_evidence_row)
  ultimately show ?case using Cons.prems by (simp add: x)
qed simp

lemma RecordAll_fold:
  assumes "store_ok d" and "find_monitor mid d = Some m" and "\<not> location_bound mid d"
    and "in_order mid (m_last_result_started_at m) rs d"
  shows "\<exists>d' m'. RecordAll rs d = Inr d' \<and> store_ok d' \<and> find_monitor mid d' = Some m' \<and>
     monitor_snapshot m' = foldl (stream_step (m_consecutive_failures_threshold m))
       (monitor_snapshot m) (map (\<lambda>(_, _, r). IsFailureStatus (r_Status r)) rs) \<and>
     length (check_results d') = length (check_results d) + length rs"
  using assms
proof (induction rs arbitrary: d m)
  case (Cons x rs)
  obtain now clock r where x: "x = (now, clock, r)" by (cases x)
  have io: "r_MonitorID r = mid" "result_checks r" "\<not> r_SyntheticAbsence r" "result_refs r d"
    "\<not> list_ex (same_evidence r) (check_results d)"
    "list_all (\<lambda>(_, _, q). (r_JobID q, r_ResultSource q) \<noteq> (r_JobID r, r_ResultSource r)) rs"
    "watermark_le (m_last_result_started_at m) (Some (r_StartedAt r))"
    "in_order mid (Some (r_StartedAt r)) rs d"
    using Cons.prems(4) by (simp_all add: x)
  define t where "t = Apply (monitor_snapshot m) (IsFailureStatus (r_Status r))
                        (m_consecutive_failures_threshold m)"
  obtain d1 where rec: "Record now clock r d = Inr (t, d1)" and ok1: "store_ok d1"
    and m1: "find_monitor mid d1 = Some (apply_to_monitor now r t m)"
    and cr: "check_results d1 = check_results d @ [result_row now r]"
    and fr: "monitor_locations d1 = monitor_locations d" "tenants d1 = tenants d"
      "locations d1 = locations d"
    by (rule Record_applied [of d r m t now clock])
       (use Cons.prems io in \<open>auto simp: t_def not_before_watermark\<close>)
  let ?m1 = "apply_to_monitor now r t m"
  have keep: "m_last_result_started_at ?m1 = Some (r_StartedAt r)"
    "m_consecutive_failures_threshold ?m1 = m_consecutive_failures_threshold m"
    "monitor_snapshot ?m1 = stream_step (m_consecutive_failures_threshold m) (monitor_snapshot m)
       (IsFailureStatus (r_Status r))"
    using io(3) by (simp_all add: apply_to_monitor_def monitor_snapshot_def stream_step_def
        next_snapshot_def t_def)
  have "in_order mid (m_last_result_started_at ?m1) rs d1"
    unfolding keep(1) by (rule in_order_frame [OF fr(2,3) _ cr io(8) io(6)]) (simp add: m1)
  moreover have "\<not> location_bound mid d1" using Cons.prems(3) fr(1) by (simp add: location_bound_def)
  ultimately obtain d' m' where "RecordAll rs d1 = Inr d'" "store_ok d'" "find_monitor mid d' = Some m'"
    "monitor_snapshot m' = foldl (stream_step (m_consecutive_failures_threshold ?m1))
       (monitor_snapshot ?m1) (map (\<lambda>(_, _, r). IsFailureStatus (r_Status r)) rs)"
    "length (check_results d') = length (check_results d1) + length rs"
    using Cons.IH [OF ok1 m1] by blast
  with rec show ?case by (simp add: x cr keep(2,3))
qed simp

section \<open>The location rows after an upsert\<close>

lemma find_location_state_key:
  "find_location_state mid l d = find (\<lambda>s. mls_key s = (mid, l)) (location_states d)"
  by (simp add: find_location_state_def)

lemma find_location_upsert:
  "find_location_state mid l' (upsert_location_state now r l t d) =
   (if (r_MonitorID r, l) = (mid, l')
    then Some (case find_location_state (r_MonitorID r) l d of
       None \<Rightarrow> location_row now r l t (if tr_Changed t then Some now else None)
     | Some s \<Rightarrow> (location_row now r l t (if tr_Changed t then Some now else mls_last_state_change_at s))
                 \<lparr>mls_tenant_id := mls_tenant_id s\<rparr>)
    else find_location_state mid l' d)"
proof (cases "find_location_state (r_MonitorID r) l d")
  case None
  then show ?thesis
    by (auto simp: upsert_location_state_def find_location_state_key find_append split: option.split)
next
  case (Some s0)
  let ?f = "\<lambda>s. (location_row now r l t (if tr_Changed t then Some now else mls_last_state_change_at s))
                 \<lparr>mls_tenant_id := mls_tenant_id s\<rparr>"
  have "find_location_state mid l' (upsert_location_state now r l t d) =
    find (\<lambda>s. mls_key s = (mid, l'))
      (sql_update (\<lambda>s. mls_key s = (r_MonitorID r, l)) ?f (location_states d))"
    using Some by (simp add: upsert_location_state_def find_location_state_key)
  also have "\<dots> = (if (r_MonitorID r, l) = (mid, l')
    then map_option ?f (find_location_state (r_MonitorID r) l d)
    else find_location_state mid l' d)"
    unfolding find_location_state_key by (rule find_update_key) simp
  finally show ?thesis unfolding Some by (simp only: option.map option.case)
qed

text \<open>Seen through the aggregation: the location itself is fresh, at its new state.\<close>

lemma fresh_upsert_self:
  assumes "0 \<le> h"
  shows "map_option mls_current_state
     (fresh_location_state now h (upsert_location_state now r l t d) (r_MonitorID r) l) = Some (tr_To t)"
  using assms by (auto simp: fresh_location_state_def find_location_upsert split: option.split)

lemma fresh_upsert_other:
  "(r_MonitorID r, l) \<noteq> (mid, l') \<Longrightarrow>
   fresh_location_state now' h (upsert_location_state now r l t d) mid l' =
   fresh_location_state now' h d mid l'"
  by (auto simp: fresh_location_state_def find_location_upsert)

lemma FreshnessHorizon_pos [simp]: "0 \<le> FreshnessHorizonSeconds n"
  by (simp add: FreshnessHorizonSeconds_def MinFreshnessSeconds_def Let_def)

section \<open>The monitor row as the quorum of its locations\<close>

text \<open>
  The evidence a monitor's selected, live locations hold at \<open>now\<close>: one state each, unknown for
  a location with no fresh row.
\<close>

definition selected_locations :: "uuid \<Rightarrow> db \<Rightarrow> uuid list" where
  "selected_locations mid d =
     map snd (filter (\<lambda>(m, l). m = mid \<and> live_location d l) (monitor_locations d))"

definition location_view :: "time \<Rightarrow> monitor \<Rightarrow> db \<Rightarrow> State list" where
  "location_view now m d = map (\<lambda>l.
     case fresh_location_state now (FreshnessHorizonSeconds (m_interval_seconds m)) d (m_id m) l of
       None \<Rightarrow> StateUnknown | Some s \<Rightarrow> mls_current_state s) (selected_locations (m_id m) d)"

lemma length_filter_joined:
  "q \<noteq> StateUnknown \<Longrightarrow>
   length (filter (\<lambda>s. mls_current_state s = q) (List.map_filter f ls)) =
   length (filter (\<lambda>s. s = q) (map (\<lambda>l. case f l of None \<Rightarrow> StateUnknown
                                           | Some s \<Rightarrow> mls_current_state s) ls))"
  by (induction ls) (auto simp: List.map_filter_simps split: option.split)

lemma LoadFreshLocationCounts_view:
  "fst (LoadFreshLocationCounts now (m_id m) (FreshnessHorizonSeconds (m_interval_seconds m)) d) =
   counts_of (location_view now m d)"
  by (simp add: LoadFreshLocationCounts_def location_view_def counts_of_def Let_def
      length_filter_joined selected_locations_def)

lemma aggregated_view:
  "fst (aggregated now m d) = AggregateLocations (counts_of (location_view now m d)) (m_location_quorum m)"
  by (simp add: aggregated_def LoadFreshLocationCounts_view [symmetric] split: prod.split)

lemma location_view_cong:
  "location_states d' = location_states d \<Longrightarrow> monitor_locations d' = monitor_locations d \<Longrightarrow>
   locations d' = locations d \<Longrightarrow> m_id m' = m_id m \<Longrightarrow> m_interval_seconds m' = m_interval_seconds m \<Longrightarrow>
   location_view now m' d' = location_view now m d"
  by (simp add: location_view_def selected_locations_def fresh_location_state_def
      find_location_state_def live_location_def)

text \<open>The applied branch of \<open>persistAtLocation\<close>, with the database it leaves.\<close>

lemma persistAtLocation_applied:
  assumes ok: "store_ok d" and m: "find_monitor (r_MonitorID r) d = Some m"
    and ch: "result_checks r" and new: "\<not> list_ex (same_evidence r) (check_results d)"
    and refs: "result_refs r d" and sel: "(r_MonitorID r, l) \<in> set (monitor_locations d)"
    and on_time: "\<not> before (r_StartedAt r) (location_watermark (r_MonitorID r) l d)"
  obtains oc d' m' d1 where "persistAtLocation now clock r l d = Inr (oc, d')" and "store_ok d'"
    and "insertResult now clock r d = Inr (True, d1)"
    and "location_states d' = location_states
           (upsert_location_state now r l (location_transition r l m d) d1)"
    and "monitor_locations d' = monitor_locations d" and "locations d' = locations d"
    and "find_monitor (r_MonitorID r) d' = Some m'"
    and "m_location_quorum m' = m_location_quorum m"
    and "location_view now m' d' = location_view now m
           (upsert_location_state now r l (location_transition r l m d) d1)"
    and "m_current_state m' =
           AggregateLocations (counts_of (location_view now m' d')) (m_location_quorum m)"
    and "oc = \<lparr>oc_duplicate = False, oc_stateChanged = (m_current_state m' \<noteq> m_current_state m)\<rparr>"
proof -
  obtain d1 where ins: "insertResult now clock r d = Inr (True, d1)"
    using ch new refs by (rule insertResult_new)
  define d2 where "d2 = upsert_location_state now r l (location_transition r l m d) d1"
  obtain s n where ag: "aggregated now m d2 = (s, n)" by (cases "aggregated now m d2")
  let ?u = "update_monitor (r_MonitorID r) (aggregate_to_monitor now s n (s \<noteq> m_current_state m)) d2"
  have ok2: "store_ok d2" unfolding d2_def
    by (rule upsert_applied_ok [OF ok ins sel])
  have m2: "find_monitor (r_MonitorID r) d2 = Some m" using m ins by (simp add: d2_def)
  have t2: "r_TenantID r \<in> set (tenants d2)" using insertResult_refs [OF ins] by (simp add: d2_def)
  obtain d' where upd: "(if s \<noteq> m_current_state m
      then RecordIntervalTx now (r_TenantID r) (r_MonitorID r) s ''result'' ?u else Inr ?u) = Inr d'"
    by (rule transition_ok [OF ok2 keeps_identity_writes(2) m2 apply_to_monitor_state(2) t2
          result_reason]) blast
  note app = persist_applied [OF ok m ins sel d2_def ag upd]
  have run: "persistAtLocation now clock r l d =
      Inr (\<lparr>oc_duplicate = False, oc_stateChanged = (s \<noteq> m_current_state m)\<rparr>, d')"
    using persistAtLocation_eq [OF m ins sel on_time d2_def ag] upd by (simp split: if_splits)
  let ?m' = "aggregate_to_monitor now s n (s \<noteq> m_current_state m) m"
  have fr: "location_states d' = location_states d2" "monitor_locations d' = monitor_locations d2"
    "locations d' = locations d2"
    using arg_cong [OF app(2), of location_states] arg_cong [OF app(2), of monitor_locations]
      arg_cong [OF app(2), of locations] by simp_all
  have m': "find_monitor (r_MonitorID r) d' = Some ?m'"
  proof -
    have "find_monitor (r_MonitorID r) d' = find_monitor (r_MonitorID r) ?u"
      using arg_cong [OF app(2), of monitors] by (simp add: find_monitor_def)
    with m2 show ?thesis by (simp add: find_monitor_update)
  qed
  have view: "location_view now ?m' d' = location_view now m d2"
    by (rule location_view_cong [OF fr]) (simp_all add: aggregate_to_monitor_def)
  have s: "s = AggregateLocations (counts_of (location_view now m d2)) (m_location_quorum m)"
    using aggregated_view [of now m d2] ag by simp
  show thesis
  proof (rule that [OF run app(1) ins _ _ _ m'])
    show "location_states d' = location_states
        (upsert_location_state now r l (location_transition r l m d) d1)"
      using fr by (simp add: d2_def)
    show "monitor_locations d' = monitor_locations d" and "locations d' = locations d"
      using fr insertResult_frame [OF ins] by (simp_all add: d2_def)
    show "m_location_quorum ?m' = m_location_quorum m" by (simp add: aggregate_to_monitor_def)
    show "location_view now ?m' d' =
        location_view now m (upsert_location_state now r l (location_transition r l m d) d1)"
      using view by (simp add: d2_def)
    show "m_current_state ?m' =
        AggregateLocations (counts_of (location_view now ?m' d')) (m_location_quorum m)"
      unfolding view by (simp add: s)
    show "\<lparr>oc_duplicate = False, oc_stateChanged = (s \<noteq> m_current_state m)\<rparr> =
        \<lparr>oc_duplicate = False, oc_stateChanged = (m_current_state ?m' \<noteq> m_current_state m)\<rparr>"
      by simp
  qed
qed

lemma persistAtLocation_again:
  assumes ok: "store_ok d" and rec: "persistAtLocation now clock r l d = Inr (oc, d')"
  shows "persistAtLocation now' clock' r l d' = Inr (\<lparr>oc_duplicate = True, oc_stateChanged = False\<rparr>, d')"
proof -
  obtain m where m: "find_monitor (r_MonitorID r) d = Some m"
    using rec by (auto simp: persistAtLocation_def split: option.splits)
  obtain b d1 where ins: "insertResult now clock r d = Inr (b, d1)"
    using rec m by (auto simp: persistAtLocation_def bindE_eq_Inr)
  have "list_ex (same_evidence r) (check_results d') \<and> find_monitor (r_MonitorID r) d' \<noteq> None"
    using rec m
  proof (cases rule: persistAtLocation_cases)
    case (applied d1 d2 s n)
    note w = persist_applied(2) [OF ok m applied(1,2,4,5,6)]
    have "check_results d' = check_results d1"
      using arg_cong [OF w, of check_results] by (simp add: applied(4))
    moreover have "find_monitor (r_MonitorID r) d' = find_monitor (r_MonitorID r)
        (update_monitor (r_MonitorID r) (aggregate_to_monitor now s n (s \<noteq> m_current_state m)) d2)"
      by (subst w) (simp add: find_monitor_def)
    ultimately show ?thesis
      using insertResult_recorded [OF applied(1)] m applied(1)
      by (simp add: find_monitor_update applied(4))
  qed (use m in \<open>auto dest: insertResult_recorded\<close>)
  moreover from this have "insertResult now' clock' r d' = Inr (False, d')"
    using insertResult_checks [OF ins] by (intro insertResult_again) simp_all
  ultimately show ?thesis by (auto simp: persistAtLocation_def simp del: insertResult_find)
qed

lemma persistAtLocation_announces:
  assumes ok: "store_ok d" and rec: "persistAtLocation now clock r l d = Inr (oc, d')"
    and m: "find_monitor mid d = Some m"
  shows "\<exists>m'. find_monitor mid d' = Some m' \<and>
     (m_current_state m' \<noteq> m_current_state m \<longleftrightarrow> mid = r_MonitorID r \<and> oc_stateChanged oc) \<and>
     (oc_stateChanged oc \<longrightarrow> \<not> oc_duplicate oc)"
proof -
  obtain mr where mr: "find_monitor (r_MonitorID r) d = Some mr"
    using rec by (auto simp: persistAtLocation_def split: option.splits)
  from rec mr show ?thesis
  proof (cases rule: persistAtLocation_cases)
    case (applied d1 d2 s n)
    have "find_monitor mid d' = find_monitor mid
        (update_monitor (r_MonitorID r) (aggregate_to_monitor now s n (s \<noteq> m_current_state mr)) d2)"
      by (subst persist_applied(2) [OF ok mr applied(1,2,4,5,6)]) (simp add: find_monitor_def)
    moreover have "find_monitor mid d2 = Some m" using applied(1,4) m by simp
    moreover have "mid = r_MonitorID r \<Longrightarrow> m = mr" using m mr by simp
    ultimately show ?thesis using applied(7) by (auto simp: find_monitor_update)
  qed (use m in simp_all)
qed

section \<open>A small store\<close>

text \<open>
  The inputs the properties are applied to: tenant 1 with an HTTP monitor 7 that runs on the
  default fleet, and a monitor 8 selected at the locations 21 and 22 with a quorum of two.
\<close>

definition sample_monitor :: "uuid \<Rightarrow> int \<Rightarrow> int \<Rightarrow> monitor" where
  "sample_monitor mid threshold quorum =
     \<lparr>m_id = mid, m_tenant_id = 1, m_type = ''http'', m_config = [], m_enabled = True,
      m_deleted_at = None, m_current_state = StateUnknown, m_consecutive_failures = 0,
      m_consecutive_failures_threshold = threshold, m_location_quorum = quorum,
      m_interval_seconds = 60, m_next_run_at = None, m_last_state_change_at = None,
      m_last_result_at = None, m_last_result_started_at = None, m_created_at = 0,
      m_updated_at = 0\<rparr>"

definition sample_location :: "uuid \<Rightarrow> location" where
  "sample_location l = \<lparr>l_id = l, l_tenant_id = 1, l_name = ''eu'', l_enabled = True, l_deleted_at = None,
                        l_worker_credential = Some ''k'', l_mesh_endpoint = Some ''h:7''\<rparr>"

definition sample_interval :: "uuid \<Rightarrow> state_interval" where
  "sample_interval mid = \<lparr>si_tenant_id = 1, si_monitor_id = mid, si_state = StateUnknown,
                          si_reason = ''created'', si_started_at = 0, si_ended_at = None\<rparr>"

definition sample_db :: db where
  "sample_db = \<lparr>tenants = [1], monitors = [sample_monitor 7 2 1, sample_monitor 8 1 2],
                locations = [sample_location 21, sample_location 22],
                monitor_locations = [(8, 21), (8, 22)], location_states = [], check_results = [],
                rollup_dirty = [], state_intervals = [sample_interval 7, sample_interval 8],
                mesh_states = [], mesh_results = []\<rparr>"

definition sample_result :: "uuid \<Rightarrow> uuid \<Rightarrow> uuid option \<Rightarrow> string \<Rightarrow> time \<Rightarrow> Result" where
  "sample_result mid job l status started =
     \<lparr>r_MonitorID = mid, r_TenantID = 1, r_JobID = job, r_LocationID = l, r_Status = status,
      r_ResultSource = ''monitor'', r_HTTPStatus = None, r_LatencyMs = Some 12,
      r_ErrorMessage = None, r_MatchedBodySubstring = False, r_MetricsData = [],
      r_StartedAt = started, r_CompletedAt = started, r_SyntheticAbsence = False\<rparr>"

lemmas sample_defs = sample_monitor_def sample_location_def sample_interval_def sample_db_def
  sample_result_def

lemma sample_db_ok: "store_ok sample_db"
  by (simp add: store_defs sample_defs tracked_def monitor_timeline_def timeline_ok_def)

lemma sample_find:
  "find_monitor 7 sample_db = Some (sample_monitor 7 2 1)"
  "find_monitor 8 sample_db = Some (sample_monitor 8 1 2)"
  by (simp_all add: find_monitor_def sample_defs)

abbreviation sample_fail7 :: Result where
  "sample_fail7 \<equiv> sample_result 7 100 None ''failure'' 50"

abbreviation sample_fail8 :: Result where
  "sample_fail8 \<equiv> sample_result 8 200 (Some 21) ''failure'' 50"

lemma sample_fail7_facts:
  "r_MonitorID sample_fail7 = 7" "result_checks sample_fail7" "result_refs sample_fail7 sample_db"
  "\<not> list_ex (same_evidence sample_fail7) (check_results sample_db)"
  "\<not> location_bound 7 sample_db" "r_StartedAt sample_fail7 = 50"
  by (simp_all add: sample_defs result_checks_def result_refs_def location_bound_def find_monitor_def)

lemma sample_fail8_facts:
  "r_MonitorID sample_fail8 = 8" "result_checks sample_fail8" "result_refs sample_fail8 sample_db"
  "\<not> list_ex (same_evidence sample_fail8) (check_results sample_db)"
  "location_bound 8 sample_db" "(8, 21) \<in> set (monitor_locations sample_db)"
  "\<not> before (r_StartedAt sample_fail8) (location_watermark 8 21 sample_db)"
  by (simp_all add: sample_defs result_checks_def result_refs_def location_bound_def find_monitor_def
      location_watermark_def find_location_state_def before_def)

lemma sample_fail7_recorded:
  obtains d' where "Record 60 60 sample_fail7 sample_db =
      Inr (Apply (monitor_snapshot (sample_monitor 7 2 1)) True 2, d')"
    and "store_ok d'"
    and "find_monitor 7 d' = Some (apply_to_monitor 60 sample_fail7
           (Apply (monitor_snapshot (sample_monitor 7 2 1)) True 2) (sample_monitor 7 2 1))"
    and "monitor_locations d' = monitor_locations sample_db"
    and "tenants d' = tenants sample_db" and "locations d' = locations sample_db"
    and "check_results d' = [result_row 60 sample_fail7]"
  by (rule Record_applied [OF sample_db_ok, of sample_fail7 "sample_monitor 7 2 1" _ 60 60])
     (use sample_fail7_facts sample_find
      in \<open>auto simp: before_def sample_defs IsFailureStatus_def\<close>)

section \<open>Properties\<close>

text \<open>
  C27. Evidence counts exactly once (S-E3). Once \<open>Record\<close> has committed a result, delivering it
  again, at any later time and with any clock, succeeds, changes no table at all and reports a
  transition that is flagged as duplicate or history-only and changes nothing; so at-least-once
  delivery cannot advance a state machine twice.
\<close>

theorem Record_redelivery_is_noop:
  assumes ok: "store_ok d" and rec: "Record now clock r d = Inr (t, d')"
  shows "\<exists>t'. Record now' clock' r d' = Inr (t', d') \<and> \<not> tr_Changed t' \<and>
              \<not> tr_OpenedOutage t' \<and> \<not> tr_ClosedOutage t' \<and> (tr_Duplicate t' \<or> tr_HistoryOnly t')"
  using assms by (rule Record_again)

theorem Record_redelivery_is_noop_witness:
  "\<exists>t d'. Record 60 60 sample_fail7 sample_db = Inr (t, d') \<and> tr_To t = StateSuspect \<and>
    (\<exists>t'. Record 90 95 sample_fail7 d' = Inr (t', d') \<and> \<not> tr_Changed t')"
proof -
  obtain d' where rec: "Record 60 60 sample_fail7 sample_db =
      Inr (Apply (monitor_snapshot (sample_monitor 7 2 1)) True 2, d')"
    by (rule sample_fail7_recorded)
  from Record_redelivery_is_noop [OF sample_db_ok rec, of 90 95] rec show ?thesis
    by (auto simp: monitor_snapshot_def sample_monitor_def eff_threshold_def)
qed

text \<open>
  C28. Evidence never moves a monitor backwards (S-O2). Whatever \<open>Record\<close> is given, the watermark
  of every monitor (the start time of the newest evidence applied) does not decrease; and a
  result that started before the watermark, unless it is a synthetic absence, leaves every
  monitor row and every timeline as it was.
\<close>

theorem Record_watermark_and_late_guard:
  assumes ok: "store_ok d" and rec: "Record now clock r d = Inr (t, d')"
    and m: "find_monitor mid d = Some m"
  shows "\<exists>m'. find_monitor mid d' = Some m' \<and>
     watermark_le (m_last_result_started_at m) (m_last_result_started_at m') \<and>
     (\<not> r_SyntheticAbsence r \<and> (mid = r_MonitorID r \<longrightarrow> before (r_StartedAt r) (m_last_result_started_at m))
      \<longrightarrow> m' = m \<and> monitor_timeline mid d' = monitor_timeline mid d)"
  using ok rec m
proof (cases rule: Record_monitor)
  case kept
  then show ?thesis by simp
next
  case applied
  then show ?thesis using apply_to_monitor_watermark [of r m now t] by auto
qed

theorem Record_watermark_and_late_guard_witness:
  "\<exists>t d' t2 d2. Record 60 60 sample_fail7 sample_db = Inr (t, d') \<and>
     Record 70 70 (sample_result 7 101 None ''success'' 49) d' = Inr (t2, d2) \<and>
     find_monitor 7 d2 = find_monitor 7 d' \<and> monitor_timeline 7 d2 = monitor_timeline 7 d'"
proof -
  let ?late = "sample_result 7 101 None ''success'' 49"
  let ?t = "Apply (monitor_snapshot (sample_monitor 7 2 1)) True 2"
  let ?m = "apply_to_monitor 60 sample_fail7 ?t (sample_monitor 7 2 1)"
  obtain d' where rec: "Record 60 60 sample_fail7 sample_db = Inr (?t, d')" and ok: "store_ok d'"
    and m: "find_monitor 7 d' = Some ?m"
    and fr: "monitor_locations d' = monitor_locations sample_db" "tenants d' = tenants sample_db"
    and cr: "check_results d' = [result_row 60 sample_fail7]"
    by (rule sample_fail7_recorded)
  have b: "before (r_StartedAt ?late) (m_last_result_started_at ?m)"
    by (simp add: apply_to_monitor_def sample_defs before_def)
  have new: "result_checks ?late" "\<not> list_ex (same_evidence ?late) (check_results d')"
    "result_refs ?late d'"
    using m fr by (simp_all add: cr same_evidence_row result_refs_def)
      (simp_all add: sample_defs result_checks_def)
  obtain d2 where "insertResult 70 70 ?late d' = Inr (True, d2)" using new by (rule insertResult_new)
  moreover have "\<not> location_bound 7 d'" "r_MonitorID ?late = 7" "\<not> r_SyntheticAbsence ?late"
    using sample_fail7_facts(5) fr(1) by (simp_all add: location_bound_def sample_result_def)
  ultimately have rec2: "Record 70 70 ?late d' = Inr (unapplied (monitor_snapshot ?m) False True, d2)"
    using m b by (simp add: Record_def)
  from Record_watermark_and_late_guard [OF ok rec2 m] b rec rec2 m show ?thesis
    by (simp add: sample_result_def)
qed

text \<open>
  A location-less result never overrides the quorum (S-E5). When the monitor has selected
  locations, \<open>Record\<close> adds the result to the history and nothing else: no monitor row, no
  location state and no timeline changes, and the transition is marked history-only.
\<close>

theorem Record_location_bound_is_history_only:
  assumes ok: "store_ok d" and rec: "Record now clock r d = Inr (t, d')"
    and bound: "location_bound (r_MonitorID r) d"
  shows "monitors d' = monitors d \<and> location_states d' = location_states d \<and>
         state_intervals d' = state_intervals d \<and> tr_HistoryOnly t \<and> \<not> tr_Changed t"
proof -
  obtain m where m: "find_monitor (r_MonitorID r) d = Some m"
    using rec by (auto simp: Record_def split: option.splits)
  from ok rec m show ?thesis
    by (rule Record_cases) (use bound in \<open>simp_all add: insertResult_frame unapplied_def\<close>)
qed

theorem Record_location_bound_is_history_only_witness:
  "\<exists>t d'. Record 60 60 sample_fail8 sample_db = Inr (t, d') \<and> monitors d' = monitors sample_db"
proof -
  obtain d1 where "insertResult 60 60 sample_fail8 sample_db = Inr (True, d1)"
    using sample_fail8_facts(2,4,3) by (rule insertResult_new)
  then have "Record 60 60 sample_fail8 sample_db =
      Inr (unapplied (monitor_snapshot (sample_monitor 8 1 2)) False True, d1)"
    using sample_fail8_facts sample_find by (simp add: Record_def Let_def)
  with Record_location_bound_is_history_only [OF sample_db_ok this] sample_fail8_facts
  show ?thesis by auto
qed





text \<open>
  One location behaves like no location (S-A7). When the reporting location is the only
  selected live one, the monitor's state after an applied result is the location's own next
  state, for any configured quorum: the machine of a single-location monitor is the temporal
  machine.
\<close>

theorem single_location_parity:
  assumes "store_ok d" and m: "find_monitor (r_MonitorID r) d = Some m" and "result_checks r"
    and "\<not> list_ex (same_evidence r) (check_results d)" and "result_refs r d"
    and "(r_MonitorID r, l) \<in> set (monitor_locations d)"
    and "\<not> before (r_StartedAt r) (location_watermark (r_MonitorID r) l d)"
    and only: "selected_locations (r_MonitorID r) d = [l]"
  shows "\<exists>oc d' m'. persistAtLocation now clock r l d = Inr (oc, d') \<and>
     find_monitor (r_MonitorID r) d' = Some m' \<and>
     m_current_state m' = tr_To (Apply (location_snapshot (r_MonitorID r) l d)
       (IsFailureStatus (r_Status r)) (m_consecutive_failures_threshold m))"
proof -
  let ?t = "location_transition r l m d"
  obtain oc d' m' d1 where run: "persistAtLocation now clock r l d = Inr (oc, d')"
    and ins: "insertResult now clock r d = Inr (True, d1)"
    and m': "find_monitor (r_MonitorID r) d' = Some m'"
    and view: "location_view now m' d' = location_view now m (upsert_location_state now r l ?t d1)"
    and st: "m_current_state m' =
        AggregateLocations (counts_of (location_view now m' d')) (m_location_quorum m)"
    by (rule persistAtLocation_applied [OF assms(1-7), of now clock]) blast
  have mid: "m_id m = r_MonitorID r" using m by (auto dest: find_monitor_SomeD)
  have "selected_locations (r_MonitorID r) (upsert_location_state now r l ?t d1) = [l]"
    using only by (simp add: selected_locations_def live_location_def insertResult_frame [OF ins])
  with fresh_upsert_self [of "FreshnessHorizonSeconds (m_interval_seconds m)" now r l ?t d1]
  have "location_view now m (upsert_location_state now r l ?t d1) = [tr_To ?t]"
    by (auto simp: location_view_def mid)
  moreover have "tr_To ?t \<noteq> StateDegraded"
    using Apply_range [of "location_snapshot (r_MonitorID r) l d" "IsFailureStatus (r_Status r)"
        "m_consecutive_failures_threshold m"] by (auto simp: location_transition_def)
  ultimately have "m_current_state m' = tr_To ?t"
    using st view AggregateLocations_single by simp
  with run m' show ?thesis by (auto simp: location_transition_def)
qed

theorem single_location_parity_witness:
  "\<exists>oc d' m'. persistAtLocation 60 60 sample_fail8 21
       (sample_db\<lparr>monitor_locations := [(8, 21)]\<rparr>) = Inr (oc, d') \<and>
     find_monitor 8 d' = Some m' \<and> m_current_state m' = StateDown"
proof -
  let ?d = "sample_db\<lparr>monitor_locations := [(8, 21)]\<rparr>"
  have ok: "store_ok ?d"
    by (simp add: store_defs sample_defs tracked_def monitor_timeline_def timeline_ok_def)
  have m: "find_monitor (r_MonitorID sample_fail8) ?d = Some (sample_monitor 8 1 2)"
    by (simp add: sample_defs find_monitor_def)
  have refs: "result_refs sample_fail8 ?d"
    by (simp add: sample_defs result_refs_def find_monitor_def)
  have sel: "selected_locations (r_MonitorID sample_fail8) ?d = [21]"
    by (simp add: sample_defs selected_locations_def live_location_def)
  have snap: "location_snapshot (r_MonitorID sample_fail8) 21 ?d =
      \<lparr>snap_State = StateUnknown, snap_ConsecutiveFailures = 0\<rparr>"
    "\<not> before (r_StartedAt sample_fail8) (location_watermark (r_MonitorID sample_fail8) 21 ?d)"
    by (simp_all add: sample_defs location_snapshot_def location_watermark_def
        find_location_state_def before_def)
  have sel2: "(r_MonitorID sample_fail8, 21) \<in> set (monitor_locations ?d)"
    using sample_fail8_facts(1) by simp
  have new: "\<not> list_ex (same_evidence sample_fail8) (check_results ?d)"
    using sample_fail8_facts(4) by simp
  from single_location_parity [OF ok m sample_fail8_facts(2) new refs sel2 snap(2) sel, of 60 60]
  show ?thesis
    by (simp add: sample_fail8_facts(1) snap(1) [unfolded sample_fail8_facts(1)])
       (simp add: sample_defs IsFailureStatus_def eff_threshold_def)
qed

text \<open>
  A removed or late location writes history only (S-E4, S-O2). A result of a location that
  is not selected any more, or older than that location's newest evidence, leaves every monitor,
  every location row and every timeline unchanged and announces no change.
\<close>

theorem persistAtLocation_stale_is_history_only:
  assumes rec: "persistAtLocation now clock r l d = Inr (oc, d')"
    and stale: "(r_MonitorID r, l) \<notin> set (monitor_locations d) \<or>
                before (r_StartedAt r) (location_watermark (r_MonitorID r) l d)"
  shows "monitors d' = monitors d \<and> location_states d' = location_states d \<and>
         state_intervals d' = state_intervals d \<and> \<not> oc_stateChanged oc"
proof -
  obtain m where m: "find_monitor (r_MonitorID r) d = Some m"
    using rec by (auto simp: persistAtLocation_def split: option.splits)
  from rec m show ?thesis
    by (rule persistAtLocation_cases) (use stale in \<open>simp_all add: insertResult_frame\<close>)
qed

theorem persistAtLocation_stale_is_history_only_witness:
  "\<exists>oc d'. persistAtLocation 60 60 sample_fail8 23 sample_db = Inr (oc, d') \<and>
           monitors d' = monitors sample_db \<and> \<not> oc_stateChanged oc"
proof -
  obtain d1 where ins: "insertResult 60 60 sample_fail8 sample_db = Inr (True, d1)"
    using sample_fail8_facts(2,4,3) by (rule insertResult_new)
  have un: "(r_MonitorID sample_fail8, 23) \<notin> set (monitor_locations sample_db)"
    by (simp add: sample_defs)
  have rec: "persistAtLocation 60 60 sample_fail8 23 sample_db =
      Inr (\<lparr>oc_duplicate = False, oc_stateChanged = False\<rparr>, d1)"
    using ins un insertResult_frame(4) [OF ins] sample_find(2) sample_fail8_facts(1)
    by (simp add: persistAtLocation_def list_ex_iff)
  from persistAtLocation_stale_is_history_only [OF rec] un rec show ?thesis by simp
qed

end
