(* ===== verification/Mesh.thy ===== *)
theory Mesh
  imports EvidenceSpec
begin

text \<open>
  The inter-location mesh: one row per directed pair of participating locations.
  \<open>scheduler/internal/scheduler/mesh.go\<close> keeps the set of rows equal to the set of such pairs
  and schedules the probes; \<open>scheduler/internal/ingest/mesh.go\<close> applies a probe's result to its
  edge, running the same temporal machine as a monitor, with no quorum.
\<close>

section \<open>Applying a probe result\<close>

abbreviation ms_key :: "mesh_edge_state \<Rightarrow> uuid \<times> uuid" where
  "ms_key e \<equiv> (ms_source_location_id e, ms_target_location_id e)"

text \<open>What a probe result carries, with its identifiers parsed.\<close>

record mesh_probe =
  pr_tenantID :: uuid
  pr_jobID :: uuid
  pr_sourceID :: uuid
  pr_targetID :: uuid
  pr_Status :: string
  pr_LatencyMs :: "int option"
  pr_ErrorMessage :: "string option"
  pr_CompletedAt :: time

definition find_edge :: "uuid \<Rightarrow> uuid \<Rightarrow> db \<Rightarrow> mesh_edge_state option" where
  "find_edge a b d = find (\<lambda>e. ms_key e = (a, b)) (mesh_states d)"

definition edge_snapshot :: "mesh_edge_state \<Rightarrow> Snapshot" where
  "edge_snapshot e = \<lparr>snap_State = ms_current_state e,
                      snap_ConsecutiveFailures = ms_consecutive_failures e\<rparr>"

definition apply_to_edge :: "time \<Rightarrow> mesh_probe \<Rightarrow> Transition \<Rightarrow> mesh_edge_state \<Rightarrow> mesh_edge_state" where
  "apply_to_edge now p t e = e\<lparr>
     ms_current_state := tr_To t,
     ms_consecutive_failures := tr_ConsecutiveFailures t,
     ms_last_latency_ms := pr_LatencyMs p,
     ms_last_error := pr_ErrorMessage p,
     ms_last_check_at := Some now,
     ms_last_state_change_at := (if tr_Changed t then Some now else ms_last_state_change_at e),
     ms_updated_at := now\<rparr>"

definition mesh_row :: "mesh_probe \<Rightarrow> mesh_probe_result" where
  "mesh_row p = \<lparr>mp_tenant_id = pr_tenantID p, mp_source_location_id = pr_sourceID p,
     mp_target_location_id = pr_targetID p, mp_job_id = pr_jobID p, mp_status = pr_Status p,
     mp_latency_ms = pr_LatencyMs p, mp_error_message = pr_ErrorMessage p,
     mp_created_at = pr_CompletedAt p\<rparr>"

definition insert_mesh_result :: "mesh_probe \<Rightarrow> db \<Rightarrow> db_error + (bool \<times> db)" where
  "insert_mesh_result p d =
     (if pr_Status p \<notin> {''success'', ''failure'', ''error''} then Inl CheckViolation
      else if list_ex (\<lambda>q. mp_job_id q = pr_jobID p) (mesh_results d) then Inr (False, d)
      else if pr_tenantID p \<notin> set (tenants d) \<or> pr_sourceID p \<notin> l_id ` set (locations d) \<or>
              pr_targetID p \<notin> l_id ` set (locations d) then Inl ForeignKeyViolation
      else Inr (True, d\<lparr>mesh_results := mesh_results d @ [mesh_row p]\<rparr>))"

definition persistMeshResult ::
    "int \<Rightarrow> time \<Rightarrow> mesh_probe \<Rightarrow> db \<Rightarrow> db_error + (outcome \<times> db)" where
  "persistMeshResult threshold now p d =
     (case find_edge (pr_sourceID p) (pr_targetID p) d of
        None \<Rightarrow> Inr (\<lparr>oc_duplicate = False, oc_stateChanged = False\<rparr>, d)
      | Some e \<Rightarrow>
          bindE (insert_mesh_result p d) (\<lambda>(inserted, d1).
            if \<not> inserted then Inr (\<lparr>oc_duplicate = True, oc_stateChanged = False\<rparr>, d1)
            else
              let t = Apply (edge_snapshot e) (IsFailureStatus (pr_Status p)) threshold in
              Inr (\<lparr>oc_duplicate = False, oc_stateChanged = tr_Changed t\<rparr>,
                   d1\<lparr>mesh_states := sql_update (\<lambda>x. ms_key x = (pr_sourceID p, pr_targetID p))
                                      (apply_to_edge now p t) (mesh_states d1)\<rparr>)))"

section \<open>The edge set and its schedule\<close>

definition participates :: "location \<Rightarrow> bool" where
  "participates l \<longleftrightarrow> l_deleted_at l = None \<and> l_enabled l \<and>
     (case l_mesh_endpoint l of None \<Rightarrow> False | Some s \<Rightarrow> s \<noteq> [])"

definition new_edge :: "time \<Rightarrow> location \<Rightarrow> location \<Rightarrow> mesh_edge_state" where
  "new_edge now a b = \<lparr>ms_tenant_id = l_tenant_id a, ms_source_location_id = l_id a,
     ms_target_location_id = l_id b, ms_current_state = StateUnknown, ms_consecutive_failures = 0,
     ms_last_latency_ms = None, ms_last_error = None, ms_last_check_at = None,
     ms_last_state_change_at = None, ms_next_run_at = now, ms_updated_at = now\<rparr>"

text \<open>\<open>INSERT ... SELECT ... ON CONFLICT DO NOTHING\<close> over the self-join of the locations.\<close>

definition wanted_edges :: "time \<Rightarrow> db \<Rightarrow> mesh_edge_state list" where
  "wanted_edges now d = concat (map (\<lambda>a. map (new_edge now a)
     (filter (\<lambda>b. l_tenant_id b = l_tenant_id a \<and> l_id b \<noteq> l_id a \<and> participates a \<and> participates b)
        (locations d))) (locations d))"

definition syncMeshEdges :: "time \<Rightarrow> db \<Rightarrow> db" where
  "syncMeshEdges now d =
     (let rows = insert_missing ms_key (mesh_states d) (wanted_edges now d);
          qualifies = (\<lambda>lid. list_ex (\<lambda>l. l_id l = lid \<and> participates l) (locations d)) in
      d\<lparr>mesh_states := sql_delete (\<lambda>e. \<not> qualifies (ms_source_location_id e) \<or>
                                       \<not> qualifies (ms_target_location_id e)) rows\<rparr>)"

definition meshSuspectRecheckInterval :: int where
  "meshSuspectRecheckInterval = 20"

record meshEdge =
  me_TenantID :: uuid
  me_SourceID :: uuid
  me_TargetID :: uuid
  me_Endpoint :: string
  me_CurrentState :: State

text \<open>
  \<open>locked e\<close> says that another transaction holds the row, which \<open>SKIP LOCKED\<close> then passes over.
  The inner join drops an edge whose target row is gone; a NULL endpoint does not scan into a Go
  string, and the error (\<open>None\<close>) ends the batch.
\<close>

definition due_edges ::
    "nat \<Rightarrow> (mesh_edge_state \<Rightarrow> bool) \<Rightarrow> time \<Rightarrow> db \<Rightarrow> (mesh_edge_state \<times> location) list" where
  "due_edges limit locked now d =
     take limit (concat (map (\<lambda>e. map (Pair e)
         (filter (\<lambda>l. l_id l = ms_target_location_id e) (locations d)))
       (sort_key ms_next_run_at
          (filter (\<lambda>e. ms_next_run_at e \<le> now \<and> \<not> locked e) (mesh_states d)))))"

definition fetchDueMeshEdges ::
    "nat \<Rightarrow> (mesh_edge_state \<Rightarrow> bool) \<Rightarrow> time \<Rightarrow> db \<Rightarrow> meshEdge list option" where
  "fetchDueMeshEdges limit locked now d =
     (let rows = due_edges limit locked now d in
      if list_ex (\<lambda>(e, l). l_mesh_endpoint l = None) rows then None
      else Some (map (\<lambda>(e, l).
             \<lparr>me_TenantID = ms_tenant_id e, me_SourceID = ms_source_location_id e,
              me_TargetID = ms_target_location_id e, me_Endpoint = the (l_mesh_endpoint l),
              me_CurrentState = ms_current_state e\<rparr>) rows))"

definition meshDelay :: "int \<Rightarrow> meshEdge \<Rightarrow> int" where
  "meshDelay interval e =
     (if me_CurrentState e = StateSuspect \<and> meshSuspectRecheckInterval < interval
      then meshSuspectRecheckInterval else interval)"

text \<open>
  One batch, as one transaction: the published edges and the committed database. \<open>publish e\<close>
  says whether the broker accepted the probe job of an edge; an edge whose job was not accepted
  keeps its due time.
\<close>

definition reschedule_edge :: "int \<Rightarrow> time \<Rightarrow> meshEdge \<Rightarrow> mesh_edge_state list \<Rightarrow> mesh_edge_state list" where
  "reschedule_edge interval now e =
     sql_update (\<lambda>s. ms_key s = (me_SourceID e, me_TargetID e))
       (\<lambda>s. s\<lparr>ms_next_run_at := now + secs (meshDelay interval e), ms_updated_at := now\<rparr>)"

definition runMeshBatch ::
    "int \<Rightarrow> nat \<Rightarrow> (mesh_edge_state \<Rightarrow> bool) \<Rightarrow> (meshEdge \<Rightarrow> bool) \<Rightarrow> time \<Rightarrow> db \<Rightarrow> meshEdge list \<times> db" where
  "runMeshBatch interval limit locked publish now d =
     (let d1 = syncMeshEdges now d in
      case fetchDueMeshEdges limit locked now d1 of
        None \<Rightarrow> ([], d)
      | Some due \<Rightarrow>
          let edges = filter publish due in
          (edges, d1\<lparr>mesh_states := fold (reschedule_edge interval now) edges (mesh_states d1)\<rparr>))"

section \<open>The edge set\<close>

text \<open>The pairs of locations the mesh probes.\<close>

definition mesh_pairs :: "db \<Rightarrow> (uuid \<times> uuid) set" where
  "mesh_pairs d = {(l_id a, l_id b) | a b. a \<in> set (locations d) \<and> b \<in> set (locations d) \<and>
     participates a \<and> participates b \<and> l_tenant_id a = l_tenant_id b \<and> l_id a \<noteq> l_id b}"

text \<open>
  The invariant of the mesh tables: the keys are keys, an edge joins two different locations of
  one tenant, and its state is one the machine produces.
\<close>

definition edge_ok :: "db \<Rightarrow> mesh_edge_state \<Rightarrow> bool" where
  "edge_ok d e \<longleftrightarrow> ms_source_location_id e \<noteq> ms_target_location_id e \<and>
     ms_current_state e \<noteq> StateDegraded \<and>
     (\<exists>a\<in>set (locations d). \<exists>b\<in>set (locations d). l_id a = ms_source_location_id e \<and>
        l_id b = ms_target_location_id e \<and> l_tenant_id a = l_tenant_id b)"

definition mesh_ok :: "db \<Rightarrow> bool" where
  "mesh_ok d \<longleftrightarrow> distinct (map l_id (locations d)) \<and> distinct (map ms_key (mesh_states d)) \<and>
     distinct (map mp_job_id (mesh_results d)) \<and> (\<forall>e\<in>set (mesh_states d). edge_ok d e)"

lemma new_edge_key [simp]: "ms_key (new_edge now a b) = (l_id a, l_id b)"
  by (simp add: new_edge_def)

lemma in_wanted_edges:
  "e \<in> set (wanted_edges now d) \<longleftrightarrow> (\<exists>a\<in>set (locations d). \<exists>b\<in>set (locations d).
     e = new_edge now a b \<and> participates a \<and> participates b \<and> l_tenant_id a = l_tenant_id b \<and>
     l_id a \<noteq> l_id b)"
  unfolding wanted_edges_def by (simp add: image_iff) metis

lemma wanted_keys: "ms_key ` set (wanted_edges now d) = mesh_pairs d"
proof (rule set_eqI)
  fix k
  have "k \<in> ms_key ` set (wanted_edges now d) \<longleftrightarrow>
    (\<exists>e. e \<in> set (wanted_edges now d) \<and> k = ms_key e)" by (auto simp: image_iff)
  also have "\<dots> \<longleftrightarrow> k \<in> mesh_pairs d"
    unfolding in_wanted_edges mesh_pairs_def by (simp add: Bex_def) (metis new_edge_key)
  finally show "k \<in> ms_key ` set (wanted_edges now d) \<longleftrightarrow> k \<in> mesh_pairs d" .
qed

lemma edge_ok_new:
  "a \<in> set (locations d) \<Longrightarrow> b \<in> set (locations d) \<Longrightarrow> l_tenant_id a = l_tenant_id b \<Longrightarrow>
   l_id a \<noteq> l_id b \<Longrightarrow> edge_ok d (new_edge now a b)"
  by (auto simp: edge_ok_def new_edge_def)

lemma edge_ok_cong: "locations d' = locations d \<Longrightarrow> edge_ok d' e = edge_ok d e"
  by (simp add: edge_ok_def)

definition qualifies :: "db \<Rightarrow> uuid \<Rightarrow> bool" where
  "qualifies d lid \<longleftrightarrow> list_ex (\<lambda>l. l_id l = lid \<and> participates l) (locations d)"

lemma sync_rows:
  "mesh_states (syncMeshEdges now d) =
     filter (\<lambda>e. qualifies d (ms_source_location_id e) \<and> qualifies d (ms_target_location_id e))
       (insert_missing ms_key (mesh_states d) (wanted_edges now d))"
  by (simp add: syncMeshEdges_def qualifies_def Let_def sql_delete_def)

lemma sync_frame [simp]:
  "locations (syncMeshEdges now d) = locations d"
  "mesh_results (syncMeshEdges now d) = mesh_results d"
  "monitors (syncMeshEdges now d) = monitors d"
  by (simp_all add: syncMeshEdges_def Let_def)

lemma qualifies_participates:
  assumes "distinct (map l_id (locations d))" and "x \<in> set (locations d)" and "qualifies d (l_id x)"
  shows "participates x"
proof -
  obtain y where "y \<in> set (locations d)" "l_id y = l_id x" "participates y"
    using assms(3) by (auto simp: qualifies_def list_ex_iff)
  with assms(1,2) show ?thesis by (metis distinct_map inj_onD)
qed

lemma edge_ok_qualifies:
  assumes d: "distinct (map l_id (locations d))" and "edge_ok d e"
    and q: "qualifies d (ms_source_location_id e)" "qualifies d (ms_target_location_id e)"
  shows "ms_key e \<in> mesh_pairs d"
proof -
  obtain a b where ab: "a \<in> set (locations d)" "b \<in> set (locations d)"
    "l_id a = ms_source_location_id e" "l_id b = ms_target_location_id e"
    "l_tenant_id a = l_tenant_id b" "l_id a \<noteq> l_id b"
    using assms(2) by (auto simp: edge_ok_def)
  with q have "participates a" "participates b" by (auto intro: qualifies_participates [OF d])
  with ab have "(l_id a, l_id b) \<in> mesh_pairs d" unfolding mesh_pairs_def by blast
  with ab(3,4) show ?thesis by simp
qed

lemma mesh_pairs_qualify:
  "(x, y) \<in> mesh_pairs d \<Longrightarrow> qualifies d x \<and> qualifies d y"
  by (auto simp: mesh_pairs_def qualifies_def list_ex_iff)

lemma insert_wanted_ok:
  assumes "mesh_ok d" and "e \<in> set (insert_missing ms_key (mesh_states d) (wanted_edges now d))"
  shows "edge_ok d e"
  using insert_missing_set [OF assms(2)] assms(1)
  by (auto simp: mesh_ok_def in_wanted_edges intro: edge_ok_new)

lemma sync_keys:
  assumes ok: "mesh_ok d"
  shows "ms_key ` set (mesh_states (syncMeshEdges now d)) = mesh_pairs d"
proof (intro equalityI subsetI)
  fix k assume "k \<in> ms_key ` set (mesh_states (syncMeshEdges now d))"
  with insert_wanted_ok [OF ok] ok show "k \<in> mesh_pairs d"
    by (auto simp: sync_rows mesh_ok_def intro!: edge_ok_qualifies)
next
  fix k assume k: "k \<in> mesh_pairs d"
  then have "k \<in> ms_key ` set (insert_missing ms_key (mesh_states d) (wanted_edges now d))"
    unfolding insert_missing_keys wanted_keys by blast
  then obtain e where "e \<in> set (insert_missing ms_key (mesh_states d) (wanted_edges now d))"
    and "k = ms_key e" by blast
  with mesh_pairs_qualify k show "k \<in> ms_key ` set (mesh_states (syncMeshEdges now d))"
    by (auto simp: sync_rows)
qed

lemma sync_ok: "mesh_ok d \<Longrightarrow> mesh_ok (syncMeshEdges now d)"
  using insert_wanted_ok [of d]
  by (auto simp: mesh_ok_def sync_rows edge_ok_cong [of "syncMeshEdges now d" d]
      intro!: distinct_map_filter insert_missing_distinct)

section \<open>Applying a result\<close>

lemma apply_to_edge_simps [simp]:
  "ms_source_location_id (apply_to_edge now p t e) = ms_source_location_id e"
  "ms_target_location_id (apply_to_edge now p t e) = ms_target_location_id e"
  "edge_snapshot (apply_to_edge now p t e) = next_snapshot t"
  "ms_current_state (apply_to_edge now p t e) = tr_To t"
  by (simp_all add: apply_to_edge_def edge_snapshot_def next_snapshot_def)

lemma insert_mesh_result_cases:
  assumes "insert_mesh_result p d = Inr (b, d')"
  obtains (duplicate) "\<not> b" "d' = d" "list_ex (\<lambda>q. mp_job_id q = pr_jobID p) (mesh_results d)"
  | (inserted) "b" "d' = d\<lparr>mesh_results := mesh_results d @ [mesh_row p]\<rparr>"
      "\<not> list_ex (\<lambda>q. mp_job_id q = pr_jobID p) (mesh_results d)"
  using assms unfolding insert_mesh_result_def by (auto split: if_split_asm)

lemma edge_ok_apply:
  "edge_ok d e \<Longrightarrow> tr_To t \<noteq> StateDegraded \<Longrightarrow> edge_ok d (apply_to_edge now p t e)"
  by (simp add: edge_ok_def)

text \<open>The three ways \<open>persistMeshResult\<close> succeeds.\<close>

lemma persistMeshResult_cases:
  assumes "persistMeshResult n now p d = Inr (oc, d')"
  obtains (gone) "find_edge (pr_sourceID p) (pr_targetID p) d = None" "d' = d"
      "oc = \<lparr>oc_duplicate = False, oc_stateChanged = False\<rparr>"
  | (redelivered) "d' = d" "list_ex (\<lambda>q. mp_job_id q = pr_jobID p) (mesh_results d)"
      "oc = \<lparr>oc_duplicate = True, oc_stateChanged = False\<rparr>"
  | (applied) e where "find_edge (pr_sourceID p) (pr_targetID p) d = Some e"
      "\<not> list_ex (\<lambda>q. mp_job_id q = pr_jobID p) (mesh_results d)"
      "d' = d\<lparr>mesh_results := mesh_results d @ [mesh_row p],
              mesh_states := sql_update (\<lambda>x. ms_key x = (pr_sourceID p, pr_targetID p))
                (apply_to_edge now p (Apply (edge_snapshot e) (IsFailureStatus (pr_Status p)) n))
                (mesh_states d)\<rparr>"
      "oc = \<lparr>oc_duplicate = False, oc_stateChanged =
               tr_Changed (Apply (edge_snapshot e) (IsFailureStatus (pr_Status p)) n)\<rparr>"
proof (cases "find_edge (pr_sourceID p) (pr_targetID p) d")
  case None
  with assms show thesis by (intro gone) (simp_all add: persistMeshResult_def)
next
  case (Some e)
  with assms obtain b d1 where ins: "insert_mesh_result p d = Inr (b, d1)"
    by (auto simp: persistMeshResult_def bindE_eq_Inr)
  then show thesis
  proof (cases rule: insert_mesh_result_cases)
    case duplicate
    with Some ins assms show thesis by (intro redelivered) (simp_all add: persistMeshResult_def)
  next
    case inserted
    have "persistMeshResult n now p d = Inr (\<lparr>oc_duplicate = False, oc_stateChanged =
        tr_Changed (Apply (edge_snapshot e) (IsFailureStatus (pr_Status p)) n)\<rparr>,
        d\<lparr>mesh_results := mesh_results d @ [mesh_row p],
          mesh_states := sql_update (\<lambda>x. ms_key x = (pr_sourceID p, pr_targetID p))
            (apply_to_edge now p (Apply (edge_snapshot e) (IsFailureStatus (pr_Status p)) n))
            (mesh_states d)\<rparr>)"
      using Some ins inserted by (simp add: persistMeshResult_def Let_def)
    with assms have "oc = \<lparr>oc_duplicate = False, oc_stateChanged =
        tr_Changed (Apply (edge_snapshot e) (IsFailureStatus (pr_Status p)) n)\<rparr>"
      and "d' = d\<lparr>mesh_results := mesh_results d @ [mesh_row p],
          mesh_states := sql_update (\<lambda>x. ms_key x = (pr_sourceID p, pr_targetID p))
            (apply_to_edge now p (Apply (edge_snapshot e) (IsFailureStatus (pr_Status p)) n))
            (mesh_states d)\<rparr>"
      by (simp_all only: sum.inject prod.inject)
    then show thesis by (intro applied [OF Some inserted(3)])
  qed
qed

lemma apply_edges_keys:
  "map ms_key (sql_update q (apply_to_edge now p t) es) = map ms_key es"
  by (rule map_sql_update) simp

lemma mesh_row_job [simp]: "mp_job_id (mesh_row p) = pr_jobID p"
  by (simp add: mesh_row_def)

lemma persistMeshResult_ok:
  assumes ok: "mesh_ok d" and rec: "persistMeshResult n now p d = Inr (oc, d')"
  shows "mesh_ok d'"
  using rec
proof (cases rule: persistMeshResult_cases)
  case (applied e)
  let ?t = "Apply (edge_snapshot e) (IsFailureStatus (pr_Status p)) n"
  let ?es = "sql_update (\<lambda>x. ms_key x = (pr_sourceID p, pr_targetID p)) (apply_to_edge now p ?t) (mesh_states d)"
  have "edge_ok d x" if "x \<in> set ?es" for x
  proof -
    obtain y where y: "y \<in> set (mesh_states d)" and x: "x = y \<or> x = apply_to_edge now p ?t y"
      using \<open>x \<in> set ?es\<close> by (auto simp: set_sql_update)
    then have "edge_ok d y" using ok by (simp add: mesh_ok_def)
    with x Apply_range [of "edge_snapshot e" "IsFailureStatus (pr_Status p)" n] show ?thesis
      by (auto intro: edge_ok_apply)
  qed
  moreover have "distinct (map ms_key ?es)" using ok by (simp add: mesh_ok_def apply_edges_keys)
  moreover have "edge_ok d' = edge_ok d" using applied(3) by (intro ext edge_ok_cong) simp
  ultimately show ?thesis
    using ok applied(2,3) by (auto simp: mesh_ok_def list_ex_iff)
qed (use ok in simp_all)

lemma find_edge_applied:
  "find_edge a b (d\<lparr>mesh_results := rs, mesh_states :=
      sql_update (\<lambda>x. ms_key x = (a, b)) (apply_to_edge now p t) (mesh_states d)\<rparr>) =
   map_option (apply_to_edge now p t) (find_edge a b d)"
  unfolding find_edge_def
  by (simp, subst find_sql_update) (auto simp: find_Some_iff intro!: option.map_cong)

section \<open>The schedule\<close>

text \<open>In a synchronised mesh every due edge has an endpoint to probe.\<close>

lemma set_due_edges:
  "(e, l) \<in> set (due_edges limit locked now d) \<Longrightarrow>
   e \<in> set (mesh_states d) \<and> l \<in> set (locations d) \<and> l_id l = ms_target_location_id e \<and>
   ms_next_run_at e \<le> now \<and> \<not> locked e"
  unfolding due_edges_def by (auto dest!: in_set_takeD)

lemma fetch_synced:
  assumes ok: "mesh_ok d"
  obtains due where "fetchDueMeshEdges limit locked now (syncMeshEdges now d) = Some due"
    and "\<And>e. e \<in> set due \<Longrightarrow> (me_SourceID e, me_TargetID e) \<in> mesh_pairs d"
proof -
  let ?d = "syncMeshEdges now d"
  have due: "ms_key e \<in> mesh_pairs d \<and> l_mesh_endpoint l \<noteq> None"
    if "(e, l) \<in> set (due_edges limit locked now ?d)" for e l
  proof -
    have e: "e \<in> set (mesh_states ?d)" and l: "l \<in> set (locations d)" "l_id l = ms_target_location_id e"
      using set_due_edges [OF that] by simp_all
    have "ms_key e \<in> mesh_pairs d" using e sync_keys [OF ok, of now] by blast
    moreover from this have "qualifies d (l_id l)"
      using l mesh_pairs_qualify [of "ms_source_location_id e" "ms_target_location_id e" d] by simp
    then have "participates l" using ok l by (auto simp: mesh_ok_def intro: qualifies_participates)
    ultimately show ?thesis by (auto simp: participates_def split: option.splits)
  qed
  then have "\<not> list_ex (\<lambda>(e, l). l_mesh_endpoint l = None) (due_edges limit locked now ?d)"
    by (auto simp: list_ex_iff)
  then show thesis
    by (intro that) (use due in \<open>auto simp: fetchDueMeshEdges_def Let_def\<close>)
qed

lemma reschedule_keys: "map ms_key (fold (reschedule_edge i now) es rows) = map ms_key rows"
proof (induction es arbitrary: rows)
  case (Cons e es)
  have "map ms_key (reschedule_edge i now e rows) = map ms_key rows"
    unfolding reschedule_edge_def by (rule map_sql_update) simp
  with Cons show ?case by simp
qed simp

text \<open>Rescheduling only ever writes future due times, so a written edge stays written.\<close>

lemma reschedule_future:
  assumes "0 < i"
    and "(\<exists>e\<in>set es. (me_SourceID e, me_TargetID e) = k) \<or>
         (\<forall>s\<in>set rows. ms_key s = k \<longrightarrow> now < ms_next_run_at s)"
  shows "\<forall>s\<in>set (fold (reschedule_edge i now) es rows). ms_key s = k \<longrightarrow> now < ms_next_run_at s"
  using assms(2)
proof (induction es arbitrary: rows)
  case (Cons e es)
  have pos: "0 < meshDelay i e"
    using assms(1) by (simp add: meshDelay_def meshSuspectRecheckInterval_def)
  have step: "\<forall>s\<in>set (reschedule_edge i now e rows). ms_key s = k \<longrightarrow> now < ms_next_run_at s"
    if "(me_SourceID e, me_TargetID e) = k \<or> (\<forall>s\<in>set rows. ms_key s = k \<longrightarrow> now < ms_next_run_at s)"
  proof (intro ballI impI)
    fix s assume "s \<in> set (reschedule_edge i now e rows)" and "ms_key s = k"
    then obtain s0 where s0: "s0 \<in> set rows" "ms_key s0 = k"
      and s: "ms_next_run_at s = (if ms_key s0 = (me_SourceID e, me_TargetID e)
                then now + secs (meshDelay i e) else ms_next_run_at s0)"
      unfolding reschedule_edge_def set_sql_update by (auto split: if_splits)
    with that pos show "now < ms_next_run_at s" by (cases "ms_key s0 = (me_SourceID e, me_TargetID e)") auto
  qed
  show ?case unfolding fold_simps
    by (rule Cons.IH) (use Cons.prems step in auto)
qed simp

section \<open>Properties\<close>

text \<open>
  The scheduler probes exactly the right paths. After \<open>syncMeshEdges\<close> there is one edge row
  for every ordered pair of different, enabled, undeleted locations of one tenant that both have
  a mesh endpoint, and no other; an edge that was there before and still qualifies keeps its row
  and so its state; and synchronising again, at any time, changes nothing.
\<close>

theorem syncMeshEdges_exact:
  assumes ok: "mesh_ok d"
  shows "ms_key ` set (mesh_states (syncMeshEdges now d)) = mesh_pairs d \<and>
         distinct (map ms_key (mesh_states (syncMeshEdges now d))) \<and>
         (\<forall>e\<in>set (mesh_states d). ms_key e \<in> mesh_pairs d \<longrightarrow> e \<in> set (mesh_states (syncMeshEdges now d))) \<and>
         syncMeshEdges now' (syncMeshEdges now d) = syncMeshEdges now d"
proof (intro conjI ballI impI)
  show keys: "ms_key ` set (mesh_states (syncMeshEdges now d)) = mesh_pairs d"
    by (rule sync_keys [OF ok])
  show "distinct (map ms_key (mesh_states (syncMeshEdges now d)))"
    using sync_ok [OF ok] by (simp add: mesh_ok_def)
  show "e \<in> set (mesh_states (syncMeshEdges now d))"
    if "e \<in> set (mesh_states d)" "ms_key e \<in> mesh_pairs d" for e
    using that mesh_pairs_qualify [of "ms_source_location_id e" "ms_target_location_id e" d]
    by (simp add: sync_rows insert_missing_keeps)
  let ?d = "syncMeshEdges now d"
  have pairs: "mesh_pairs ?d = mesh_pairs d" and q: "qualifies ?d = qualifies d"
    by (simp_all add: mesh_pairs_def qualifies_def fun_eq_iff)
  have "insert_missing ms_key (mesh_states ?d) (wanted_edges now' ?d) = mesh_states ?d"
    by (rule insert_missing_known) (simp only: wanted_keys pairs keys subset_refl)
  then have "mesh_states (syncMeshEdges now' ?d) = mesh_states ?d"
    unfolding sync_rows [of now' ?d] q by (simp add: sync_rows)
  then show "syncMeshEdges now' ?d = ?d" by (simp add: syncMeshEdges_def Let_def)
qed

theorem syncMeshEdges_exact_witness:
  "ms_key ` set (mesh_states (syncMeshEdges 5 sample_db)) = mesh_pairs sample_db \<and>
   (21, 22) \<in> mesh_pairs sample_db \<and>
   syncMeshEdges 9 (syncMeshEdges 5 sample_db) = syncMeshEdges 5 sample_db"
proof -
  have "mesh_ok sample_db" by (simp add: mesh_ok_def sample_defs)
  moreover have "(21, 22) \<in> mesh_pairs sample_db"
    unfolding mesh_pairs_def
    by (intro CollectI exI [of _ "sample_location 21"] exI [of _ "sample_location 22"])
       (simp add: sample_db_def sample_location_def participates_def)
  ultimately show ?thesis using syncMeshEdges_exact [of sample_db 5 9] by blast
qed


text \<open>A failed probe of the edge from location 21 to location 22.\<close>

definition sample_probe :: mesh_probe where
  "sample_probe = \<lparr>pr_tenantID = 1, pr_jobID = 300, pr_sourceID = 21, pr_targetID = 22,
     pr_Status = ''failure'', pr_LatencyMs = None, pr_ErrorMessage = None, pr_CompletedAt = 8\<rparr>"

definition sample_edge :: mesh_edge_state where
  "sample_edge = new_edge 5 (sample_location 21) (sample_location 22)"


text \<open>
  A mesh batch never fails on its data and never publishes a probe twice for one due time.
  Whatever rows other transactions hold and whichever publications the broker refuses, the batch
  finds an endpoint for every due edge it claims; each published job is for a pair that
  participates, and with a positive probe interval its edge is not due any more when the batch
  commits.
\<close>

theorem runMeshBatch_reschedules:
  assumes ok: "mesh_ok d" and i: "0 < interval"
    and run: "runMeshBatch interval limit locked publish now d = (published, d')"
  shows "fetchDueMeshEdges limit locked now (syncMeshEdges now d) \<noteq> None \<and>
     (\<forall>e\<in>set published. publish e \<and> (me_SourceID e, me_TargetID e) \<in> mesh_pairs d \<and>
       (\<forall>s\<in>set (mesh_states d'). ms_key s = (me_SourceID e, me_TargetID e) \<longrightarrow> now < ms_next_run_at s))"
proof -
  obtain due where due: "fetchDueMeshEdges limit locked now (syncMeshEdges now d) = Some due"
    and pairs: "\<And>e. e \<in> set due \<Longrightarrow> (me_SourceID e, me_TargetID e) \<in> mesh_pairs d"
    by (rule fetch_synced [OF ok, of limit locked now]) blast
  from run due have p: "published = filter publish due"
    and d': "mesh_states d' = fold (reschedule_edge interval now) published (mesh_states (syncMeshEdges now d))"
    by (auto simp: runMeshBatch_def Let_def)
  have "\<forall>s\<in>set (mesh_states d'). ms_key s = (me_SourceID e, me_TargetID e) \<longrightarrow> now < ms_next_run_at s"
    if "e \<in> set published" for e
    unfolding d' by (rule reschedule_future [OF i]) (use that in blast)
  with p pairs due show ?thesis by auto
qed

theorem runMeshBatch_reschedules_witness:
  "\<exists>published d'. runMeshBatch 60 10 (\<lambda>_. False) (\<lambda>_. True) 9 (sample_db\<lparr>mesh_states := [sample_edge]\<rparr>) =
      (published, d') \<and> fetchDueMeshEdges 10 (\<lambda>_. False) 9
        (syncMeshEdges 9 (sample_db\<lparr>mesh_states := [sample_edge]\<rparr>)) \<noteq> None"
proof -
  let ?d = "sample_db\<lparr>mesh_states := [sample_edge]\<rparr>"
  have ok: "mesh_ok ?d"
    by (simp add: mesh_ok_def edge_ok_def sample_edge_def new_edge_def sample_defs)
  obtain published d' where run: "runMeshBatch 60 10 (\<lambda>_. False) (\<lambda>_. True) 9 ?d = (published, d')"
    by (cases "runMeshBatch 60 10 (\<lambda>_. False) (\<lambda>_. True) 9 ?d")
  from runMeshBatch_reschedules [OF ok _ run] run show ?thesis by simp
qed

end
