(* ===== verification/Ingest.thy ===== *)
theory Ingest
  imports Mesh
begin

text \<open>
  The consumer of the result stream, \<open>scheduler/internal/ingest/ingest.go\<close> and \<open>persist.go\<close>:
  from one broker message to a committed database, an acknowledgement and the events published.

  Code outside the repository or below its level is a parameter: \<open>parse\<close> is \<open>uuid.Parse\<close>,
  \<open>decrypt\<close> the platform's at-rest cipher, \<open>sign\<close> the HMAC of the canonical JSON of a message
  under a decoded credential (\<open>SignJSON\<close>, \<open>None\<close> for a credential that does not decode).
  \<open>json.Unmarshal\<close> gives the message record or nothing.
\<close>

section \<open>Messages\<close>

record CheckResultMessage =
  msg_Version :: string
  msg_JobID :: string
  msg_MonitorID :: string
  msg_TenantID :: string
  msg_LocationID :: string
  msg_Status :: string
  msg_ResultSource :: string
  msg_HTTPStatus :: "int option"
  msg_LatencyMs :: "int option"
  msg_ErrorMessage :: "string option"
  msg_MatchedBodySubstring :: bool
  msg_MetricsData :: string
  msg_StartedAt :: time
  msg_CompletedAt :: time
  msg_Mesh :: "string option"
  msg_LocationSignature :: string

record monitorResult =
  mr_MonitorID :: uuid
  mr_TenantID :: uuid
  mr_JobID :: uuid
  mr_LocationID :: "uuid option"

text \<open>What the library calls do, and the configuration the handlers read.\<close>

record env =
  parse_uuid :: "string \<Rightarrow> uuid option"
  decrypt :: "string \<Rightarrow> string option"
  sign_json :: "string \<Rightarrow> CheckResultMessage \<Rightarrow> string option"
  cfg_subject :: string
  cfg_mesh_threshold :: int

section \<open>Persisting one result\<close>

definition to_result :: "CheckResultMessage \<Rightarrow> monitorResult \<Rightarrow> Result" where
  "to_result m ids =
     \<lparr>r_MonitorID = mr_MonitorID ids, r_TenantID = mr_TenantID ids, r_JobID = mr_JobID ids,
      r_LocationID = mr_LocationID ids, r_Status = msg_Status m,
      r_ResultSource = msg_ResultSource m, r_HTTPStatus = msg_HTTPStatus m,
      r_LatencyMs = msg_LatencyMs m, r_ErrorMessage = msg_ErrorMessage m,
      r_MatchedBodySubstring = msg_MatchedBodySubstring m, r_MetricsData = msg_MetricsData m,
      r_StartedAt = msg_StartedAt m, r_CompletedAt = msg_CompletedAt m,
      r_SyntheticAbsence = False\<rparr>"

definition persist ::
    "time \<Rightarrow> time \<Rightarrow> CheckResultMessage \<Rightarrow> monitorResult \<Rightarrow> db \<Rightarrow> db_error + (outcome \<times> db)" where
  "persist now clock m ids d =
     (let result = to_result m ids in
      if msg_ResultSource m = ''platform'' then
        bindE (InsertOnly now clock result d) (\<lambda>(inserted, d1).
          Inr (\<lparr>oc_duplicate = \<not> inserted, oc_stateChanged = False\<rparr>, d1))
      else case mr_LocationID ids of
        Some l \<Rightarrow> persistAtLocation now clock result l d
      | None \<Rightarrow> bindE (Record now clock result d) (\<lambda>(t, d1).
          Inr (\<lparr>oc_duplicate = tr_Duplicate t, oc_stateChanged = tr_Changed t\<rparr>, d1)))"

definition isMonitorGone :: "db_error \<Rightarrow> bool" where
  "isMonitorGone e \<longleftrightarrow> e = ErrNoRows \<or> e = ForeignKeyViolation"

section \<open>Authentication of location results\<close>

datatype auth_error =
    InvalidLocationID | InvalidTenantID | InvalidMonitorID
  | CredentialLookup | CredentialDecrypt
  | LocationOnPlatformSubject | SignatureWithoutLocation | UnexpectedSubject
  | SubjectLocationMismatch
  | MissingSignature | BadCredential | InvalidSignature

text \<open>
  The query and its conditions: \<open>tenantID\<close> and \<open>monitorID\<close> each add one when not empty. The
  monitor condition is numbered as the third parameter, so with an empty tenant the statement
  has a parameter too few and the lookup fails.
\<close>

definition credential_row :: "uuid \<Rightarrow> uuid option \<Rightarrow> uuid option \<Rightarrow> db \<Rightarrow> string option" where
  "credential_row lid tid mid d =
     (case find (\<lambda>l. l_id l = lid \<and> l_enabled l \<and> l_deleted_at l = None \<and>
                     l_worker_credential l \<noteq> None \<and>
                     (case tid of None \<Rightarrow> True | Some t \<Rightarrow> l_tenant_id l = t) \<and>
                     (case mid of None \<Rightarrow> True
                      | Some m \<Rightarrow> list_ex (\<lambda>ml. ml = (m, lid)) (monitor_locations d) \<and>
                                  list_ex (\<lambda>x. m_id x = m \<and> m_tenant_id x = l_tenant_id l \<and>
                                               m_deleted_at x = None) (monitors d)))
                (locations d) of
        None \<Rightarrow> None
      | Some l \<Rightarrow> l_worker_credential l)"

definition locationCredential ::
    "env \<Rightarrow> string \<Rightarrow> string \<Rightarrow> string \<Rightarrow> db \<Rightarrow> auth_error + string" where
  "locationCredential env locationID tenantID monitorID d =
     (case parse_uuid env locationID of
        None \<Rightarrow> Inl InvalidLocationID
      | Some lid \<Rightarrow>
          bindE (if tenantID = [] then Inr None
                 else case parse_uuid env tenantID of None \<Rightarrow> Inl InvalidTenantID
                      | Some t \<Rightarrow> Inr (Some t)) (\<lambda>tid.
          bindE (if monitorID = [] then Inr None
                 else case parse_uuid env monitorID of None \<Rightarrow> Inl InvalidMonitorID
                      | Some m \<Rightarrow> Inr (Some m)) (\<lambda>mid.
          if tid = None \<and> mid \<noteq> None then Inl CredentialLookup
          else case credential_row lid tid mid d of
            None \<Rightarrow> Inl CredentialLookup
          | Some stored \<Rightarrow>
              (case decrypt env stored of None \<Rightarrow> Inl CredentialDecrypt | Some c \<Rightarrow> Inr c))))"

definition VerifyJSON :: "env \<Rightarrow> string \<Rightarrow> string \<Rightarrow> CheckResultMessage \<Rightarrow> auth_error + unit" where
  "VerifyJSON env credential signature m =
     (if signature = [] then Inl MissingSignature
      else case sign_json env credential m of
        None \<Rightarrow> Inl BadCredential
      | Some expected \<Rightarrow> if expected = signature then Inr () else Inl InvalidSignature)"

definition has_prefix :: "string \<Rightarrow> string \<Rightarrow> bool" where
  "has_prefix p s \<longleftrightarrow> take (length p) s = p"

definition verifyLocationResult ::
    "env \<Rightarrow> string \<Rightarrow> CheckResultMessage \<Rightarrow> db \<Rightarrow> auth_error + unit" where
  "verifyLocationResult env subject m d =
     (let locationPrefix = cfg_subject env @ ''.loc.'' in
      if subject = cfg_subject env then
        if msg_LocationID m \<noteq> [] then Inl LocationOnPlatformSubject
        else if msg_LocationSignature m \<noteq> [] then Inl SignatureWithoutLocation
        else Inr ()
      else if \<not> has_prefix locationPrefix subject then Inl UnexpectedSubject
      else
        let subjectLocation = drop (length locationPrefix) subject in
        if subjectLocation = [] \<or> CHR ''.'' \<in> set subjectLocation \<or> msg_LocationID m \<noteq> subjectLocation
        then Inl SubjectLocationMismatch
        else
          let monitorID = (if msg_Mesh m \<noteq> None then [] else msg_MonitorID m) in
          bindE (locationCredential env (msg_LocationID m) (msg_TenantID m) monitorID d)
            (\<lambda>credential. VerifyJSON env credential (msg_LocationSignature m)
                            (m\<lparr>msg_LocationSignature := []\<rparr>)))"

section \<open>The handler\<close>

definition buildResult :: "env \<Rightarrow> CheckResultMessage \<Rightarrow> monitorResult option" where
  "buildResult env m =
     (case parse_uuid env (msg_MonitorID m) of None \<Rightarrow> None | Some monitorID \<Rightarrow>
      case parse_uuid env (msg_TenantID m) of None \<Rightarrow> None | Some tenantID \<Rightarrow>
      case parse_uuid env (msg_JobID m) of None \<Rightarrow> None | Some jobID \<Rightarrow>
      if msg_LocationID m = [] then
        Some \<lparr>mr_MonitorID = monitorID, mr_TenantID = tenantID, mr_JobID = jobID,
              mr_LocationID = None\<rparr>
      else case parse_uuid env (msg_LocationID m) of None \<Rightarrow> None | Some l \<Rightarrow>
        Some \<lparr>mr_MonitorID = monitorID, mr_TenantID = tenantID, mr_JobID = jobID,
              mr_LocationID = Some l\<rparr>)"

datatype ack = Ack | Nak

text \<open>One handled message: the reply to the broker and the state-change events published.\<close>

record handled =
  h_ack :: ack
  h_events :: "(string \<times> string) list"

definition acked :: handled where
  "acked = \<lparr>h_ack = Ack, h_events = []\<rparr>"

definition naked :: handled where
  "naked = \<lparr>h_ack = Nak, h_events = []\<rparr>"

definition parseMeshResult :: "env \<Rightarrow> string \<Rightarrow> CheckResultMessage \<Rightarrow> mesh_probe option" where
  "parseMeshResult env target m =
     (case parse_uuid env (msg_TenantID m) of None \<Rightarrow> None | Some tenantID \<Rightarrow>
      case parse_uuid env (msg_JobID m) of None \<Rightarrow> None | Some jobID \<Rightarrow>
      case parse_uuid env (msg_LocationID m) of None \<Rightarrow> None | Some sourceID \<Rightarrow>
      case parse_uuid env target of None \<Rightarrow> None | Some targetID \<Rightarrow>
        Some \<lparr>pr_tenantID = tenantID, pr_jobID = jobID, pr_sourceID = sourceID,
              pr_targetID = targetID, pr_Status = msg_Status m, pr_LatencyMs = msg_LatencyMs m,
              pr_ErrorMessage = msg_ErrorMessage m, pr_CompletedAt = msg_CompletedAt m\<rparr>)"

definition handleMeshResult ::
    "env \<Rightarrow> time \<Rightarrow> string \<Rightarrow> CheckResultMessage \<Rightarrow> db \<Rightarrow> handled \<times> db" where
  "handleMeshResult env now target m d =
     (case parseMeshResult env target m of
        None \<Rightarrow> (acked, d)
      | Some p \<Rightarrow>
          (case persistMeshResult (cfg_mesh_threshold env) now p d of
             Inl e \<Rightarrow> (if isMonitorGone e then acked else naked, d)
           | Inr (oc, d') \<Rightarrow> (acked, d')))"

definition handleMessage ::
    "env \<Rightarrow> time \<Rightarrow> time \<Rightarrow> string \<Rightarrow> CheckResultMessage option \<Rightarrow> db \<Rightarrow> handled \<times> db" where
  "handleMessage env now clock subject data d =
     (case data of None \<Rightarrow> (acked, d) | Some m \<Rightarrow>
      if msg_Version m \<noteq> ''v1'' then (acked, d)
      else case verifyLocationResult env subject m d of
        Inl _ \<Rightarrow> (acked, d)
      | Inr _ \<Rightarrow>
          (case msg_Mesh m of
             Some target \<Rightarrow> handleMeshResult env now target m d
           | None \<Rightarrow>
               (case buildResult env m of None \<Rightarrow> (acked, d) | Some result \<Rightarrow>
                case persist now clock m result d of
                  Inl e \<Rightarrow> (if isMonitorGone e then acked else naked, d)
                | Inr (oc, d') \<Rightarrow>
                    if oc_duplicate oc then (acked, d')
                    else (\<lparr>h_ack = Ack, h_events = (if oc_stateChanged oc
                            then [(msg_MonitorID m, msg_TenantID m)] else [])\<rparr>, d'))))"

section \<open>Which errors the transactions can return\<close>

lemma insertResult_error:
  "insertResult now clock r d = Inl e \<Longrightarrow>
   e = ForeignKeyViolation \<or> (e = CheckViolation \<and> \<not> result_checks r)"
  by (auto simp: insertResult_def Let_def split: if_splits)

text \<open>
  On a store that keeps its invariant, \<open>Record\<close> and \<open>persistAtLocation\<close> fail only on a missing
  monitor or on the insert: the state update and the timeline never do.
\<close>

lemma Record_error:
  assumes ok: "store_ok d" and rec: "Record now clock r d = Inl e"
  shows "isMonitorGone e \<or> (e = CheckViolation \<and> \<not> result_checks r)"
proof (cases "find_monitor (r_MonitorID r) d")
  case None
  with rec show ?thesis by (simp add: Record_def isMonitorGone_def)
next
  case (Some m)
  show ?thesis
  proof (cases "insertResult now clock r d")
    case (Inl e')
    with Some rec have "e' = e" by (simp add: Record_def Let_def split: if_splits)
    with Inl insertResult_error [of now clock r d e] show ?thesis by (auto simp: isMonitorGone_def)
  next
    case (Inr bd)
    obtain b d1 where ins: "insertResult now clock r d = Inr (b, d1)" using Inr by (cases bd) simp
    have "\<exists>t d'. Record now clock r d = Inr (t, d')"
    proof (cases "b \<and> \<not> location_bound (r_MonitorID r) d \<and>
        (r_SyntheticAbsence r \<or> \<not> before (r_StartedAt r) (m_last_result_started_at m))")
      case True
      then have ins': "insertResult now clock r d = Inr (True, d1)" using ins by simp
      have "\<not> list_ex (same_evidence r) (check_results d)" "result_refs r d"
        using ins' by (auto elim: insertResult_cases)
      then show ?thesis
        using Record_applied [OF ok Some _ insertResult_checks [OF ins]] True by blast
    next
      case False
      with Some ins show ?thesis by (auto simp: Record_def Let_def)
    qed
    with rec show ?thesis by simp
  qed
qed

lemma persistAtLocation_error:
  assumes ok: "store_ok d" and rec: "persistAtLocation now clock r l d = Inl e"
  shows "isMonitorGone e \<or> (e = CheckViolation \<and> \<not> result_checks r)"
proof (cases "find_monitor (r_MonitorID r) d")
  case None
  with rec show ?thesis by (simp add: persistAtLocation_def isMonitorGone_def)
next
  case (Some m)
  show ?thesis
  proof (cases "insertResult now clock r d")
    case (Inl e')
    with Some rec have "e' = e" by (simp add: persistAtLocation_def)
    with Inl insertResult_error [of now clock r d e] show ?thesis by (auto simp: isMonitorGone_def)
  next
    case (Inr bd)
    obtain b d1 where ins: "insertResult now clock r d = Inr (b, d1)" using Inr by (cases bd) simp
    note fr = insertResult_frame [OF ins]
    have wm: "location_watermark (r_MonitorID r) l d1 = location_watermark (r_MonitorID r) l d"
      by (simp add: location_watermark_def find_location_state_def fr)
    have "\<exists>oc d'. persistAtLocation now clock r l d = Inr (oc, d')"
    proof (cases "b \<and> (r_MonitorID r, l) \<in> set (monitor_locations d) \<and>
        \<not> before (r_StartedAt r) (location_watermark (r_MonitorID r) l d)")
      case True
      then have ins': "insertResult now clock r d = Inr (True, d1)" using ins by simp
      have "\<not> list_ex (same_evidence r) (check_results d)" "result_refs r d"
        using ins' by (auto elim: insertResult_cases)
      then show ?thesis
        using persistAtLocation_applied [OF ok Some insertResult_checks [OF ins]] True by blast
    next
      case False
      with Some ins fr wm show ?thesis by (auto simp: persistAtLocation_def list_ex_iff)
    qed
    with rec show ?thesis by simp
  qed
qed

lemma result_checks_to_result:
  "result_checks (to_result m ids) \<longleftrightarrow>
   msg_Status m \<in> {''success'', ''failure'', ''error''} \<and> msg_ResultSource m \<in> {''monitor'', ''platform''}"
  by (simp add: result_checks_def to_result_def)

lemma persist_error:
  assumes "store_ok d" and "persist now clock m ids d = Inl e"
  shows "isMonitorGone e \<or> (e = CheckViolation \<and> \<not> result_checks (to_result m ids))"
  using assms Record_error [OF assms(1)] persistAtLocation_error [OF assms(1)] insertResult_error
  by (fastforce simp: persist_def Let_def InsertOnly_def bindE_eq_Inl isMonitorGone_def
      split: if_splits option.splits)

section \<open>The store under the handler\<close>

lemma persist_ok:
  assumes "store_ok d" and "persist now clock m ids d = Inr (oc, d')"
  shows "store_ok d'"
  using assms
  by (auto simp: persist_def Let_def InsertOnly_def bindE_eq_Inr split: if_splits option.splits
      intro: insertResult_ok Record_ok persistAtLocation_ok)

lemma store_ok_mesh [simp]:
  "store_ok (d\<lparr>mesh_results := rs, mesh_states := es\<rparr>) = store_ok d"
  by (simp add: store_defs tracked_def monitor_timeline_def)

lemma persistMeshResult_frame:
  "persistMeshResult n now p d = Inr (oc, d') \<Longrightarrow>
   \<exists>rs es. d' = d\<lparr>mesh_results := rs, mesh_states := es\<rparr>"
proof (erule persistMeshResult_cases)
  assume "d' = d"
  then have "d' = d\<lparr>mesh_results := mesh_results d, mesh_states := mesh_states d\<rparr>" by simp
  then show ?thesis by blast
next
  assume "d' = d"
  then have "d' = d\<lparr>mesh_results := mesh_results d, mesh_states := mesh_states d\<rparr>" by simp
  then show ?thesis by blast
qed blast

definition valid_status :: "CheckResultMessage \<Rightarrow> bool" where
  "valid_status m \<longleftrightarrow> msg_Status m \<in> {''success'', ''failure'', ''error''} \<and>
     (msg_Mesh m = None \<longrightarrow> msg_ResultSource m \<in> {''monitor'', ''platform''})"

lemma persistMeshResult_error:
  "persistMeshResult n now p d = Inl e \<Longrightarrow>
   isMonitorGone e \<or> pr_Status p \<notin> {''success'', ''failure'', ''error''}"
  by (auto simp: persistMeshResult_def insert_mesh_result_def isMonitorGone_def Let_def
      split: option.splits if_splits)

text \<open>Every way a message can be handled.\<close>

lemma handleMeshResult_cases:
  assumes "handleMeshResult env now target m d = (h, d')"
  obtains (dropped) "h = acked" "d' = d"
  | (nacked) "h = naked" "d' = d" "msg_Status m \<notin> {''success'', ''failure'', ''error''}"
  | (applied) p oc where "h = acked" "parseMeshResult env target m = Some p"
      "persistMeshResult (cfg_mesh_threshold env) now p d = Inr (oc, d')"
proof (cases "parseMeshResult env target m")
  case None
  with assms show thesis by (intro dropped) (simp_all add: handleMeshResult_def)
next
  case (Some p)
  then have st: "pr_Status p = msg_Status m"
    by (auto simp: parseMeshResult_def split: option.splits)
  show thesis
  proof (cases "persistMeshResult (cfg_mesh_threshold env) now p d")
    case (Inl e)
    with Some assms st persistMeshResult_error [OF Inl] show thesis
      by (cases "isMonitorGone e") (auto simp: handleMeshResult_def intro: dropped nacked)
  next
    case (Inr x)
    with Some assms show thesis by (cases x) (auto simp: handleMeshResult_def intro: applied)
  qed
qed

lemma handleMessage_cases:
  assumes ok: "store_ok d" and run: "handleMessage env now clock subject data d = (h, d')"
  obtains (dropped) "h = acked" "d' = d"
  | (nacked) m where "data = Some m" "h = naked" "d' = d" "\<not> valid_status m"
  | (mesh) m target p oc where "data = Some m" "h = acked"
      "verifyLocationResult env subject m d = Inr ()" "msg_Mesh m = Some target"
      "parseMeshResult env target m = Some p"
      "persistMeshResult (cfg_mesh_threshold env) now p d = Inr (oc, d')"
  | (persisted) m ids oc where "data = Some m" "verifyLocationResult env subject m d = Inr ()"
      "msg_Mesh m = None" "buildResult env m = Some ids" "persist now clock m ids d = Inr (oc, d')"
      "h = \<lparr>h_ack = Ack, h_events = (if \<not> oc_duplicate oc \<and> oc_stateChanged oc
                                   then [(msg_MonitorID m, msg_TenantID m)] else [])\<rparr>"
proof (cases data)
  case None
  with run show thesis by (intro dropped) (simp_all add: handleMessage_def)
next
  case (Some m)
  note D = Some
  show thesis
  proof (cases "msg_Version m = ''v1'' \<and> verifyLocationResult env subject m d = Inr ()")
    case False
    have "handleMessage env now clock subject data d = (acked, d)"
      using False D by (auto simp: handleMessage_def split: sum.split)
    with run show thesis by (intro dropped) simp_all
  next
    case True
    show thesis
    proof (cases "msg_Mesh m")
      case (Some target)
      with True D run have "handleMeshResult env now target m d = (h, d')"
        by (simp add: handleMessage_def)
      then show thesis
        by (cases rule: handleMeshResult_cases)
           (use True D Some in \<open>auto simp: valid_status_def intro: dropped nacked mesh\<close>)
    next
      case None
      show thesis
      proof (cases "buildResult env m")
        case None
        with True D \<open>msg_Mesh m = None\<close> run show thesis
          by (intro dropped) (simp_all add: handleMessage_def)
      next
        case (Some ids)
        show thesis
        proof (cases "persist now clock m ids d")
          case (Inl e)
          with True D \<open>msg_Mesh m = None\<close> Some run
          have "h = (if isMonitorGone e then acked else naked)" "d' = d"
            by (simp_all add: handleMessage_def)
          with persist_error [OF ok Inl] D \<open>msg_Mesh m = None\<close> show thesis
            by (cases "isMonitorGone e")
               (auto simp: valid_status_def result_checks_to_result intro: dropped nacked)
        next
          case (Inr x)
          obtain oc d1 where x: "persist now clock m ids d = Inr (oc, d1)" using Inr by (cases x) simp
          with True D \<open>msg_Mesh m = None\<close> Some run
          have "h = \<lparr>h_ack = Ack, h_events = (if \<not> oc_duplicate oc \<and> oc_stateChanged oc
                  then [(msg_MonitorID m, msg_TenantID m)] else [])\<rparr>" "d' = d1"
            by (simp_all add: handleMessage_def acked_def split: if_splits)
          with x True D \<open>msg_Mesh m = None\<close> Some show thesis by (intro persisted) simp_all
        qed
      qed
    qed
  qed
qed

lemma handled_simps [simp]:
  "h_ack acked = Ack" "h_events acked = []" "h_ack naked = Nak" "h_events naked = []"
  by (simp_all add: acked_def naked_def)

lemma mesh_ok_cong:
  "locations d' = locations d \<Longrightarrow> mesh_states d' = mesh_states d \<Longrightarrow> mesh_results d' = mesh_results d \<Longrightarrow>
   mesh_ok d' = mesh_ok d"
  by (simp add: mesh_ok_def edge_ok_def)

section \<open>Redelivery and announcements\<close>

lemma persist_again:
  assumes ok: "store_ok d" and rec: "persist now clock m ids d = Inr (oc, d')"
  shows "\<exists>oc'. persist now' clock' m ids d' = Inr (oc', d') \<and> (oc_stateChanged oc' \<longrightarrow> oc_duplicate oc')"
proof -
  let ?r = "to_result m ids"
  consider (platform) b where "msg_ResultSource m = ''platform''"
      "insertResult now clock ?r d = Inr (b, d')"
    | (loc) l where "msg_ResultSource m \<noteq> ''platform''" "mr_LocationID ids = Some l"
        "persistAtLocation now clock ?r l d = Inr (oc, d')"
    | (global) t where "msg_ResultSource m \<noteq> ''platform''" "mr_LocationID ids = None"
        "Record now clock ?r d = Inr (t, d')"
    using rec by (auto simp: persist_def Let_def InsertOnly_def bindE_eq_Inr split: if_splits option.splits)
  then show ?thesis
  proof cases
    case platform
    then have "insertResult now' clock' ?r d' = Inr (False, d')"
      by (intro insertResult_again insertResult_checks insertResult_recorded)
    with platform show ?thesis by (simp add: persist_def Let_def InsertOnly_def)
  next
    case loc
    with persistAtLocation_again [OF ok loc(3), of now' clock'] show ?thesis
      by (simp add: persist_def Let_def)
  next
    case global
    obtain t' where "Record now' clock' ?r d' = Inr (t', d')" "\<not> tr_Changed t'"
      using Record_again [OF ok global(3), of now' clock'] by blast
    with global show ?thesis by (simp add: persist_def Let_def)
  qed
qed

lemma to_result_simps [simp]: "r_MonitorID (to_result m ids) = mr_MonitorID ids"
  by (simp add: to_result_def)

lemma persist_announces:
  assumes ok: "store_ok d" and rec: "persist now clock m ids d = Inr (oc, d')"
    and mon: "find_monitor mid d = Some x"
  shows "\<exists>x'. find_monitor mid d' = Some x' \<and>
     (m_current_state x' \<noteq> m_current_state x \<longleftrightarrow> mid = mr_MonitorID ids \<and> oc_stateChanged oc) \<and>
     (oc_stateChanged oc \<longrightarrow> \<not> oc_duplicate oc)"
proof -
  let ?r = "to_result m ids"
  consider (platform) b where "insertResult now clock ?r d = Inr (b, d')" "\<not> oc_stateChanged oc"
    | (loc) l where "persistAtLocation now clock ?r l d = Inr (oc, d')"
    | (global) t where "Record now clock ?r d = Inr (t, d')"
        "oc = \<lparr>oc_duplicate = tr_Duplicate t, oc_stateChanged = tr_Changed t\<rparr>"
    using rec by (auto simp: persist_def Let_def InsertOnly_def bindE_eq_Inr split: if_splits option.splits)
  then show ?thesis
  proof cases
    case platform
    with mon show ?thesis by simp
  next
    case loc
    from persistAtLocation_announces [OF ok loc mon] show ?thesis by simp
  next
    case global
    from Record_announces [OF ok global(1) mon] global(2) show ?thesis by simp
  qed
qed

lemma persistMeshResult_again:
  assumes rec: "persistMeshResult n now p d = Inr (oc, d')" and changed: "d' \<noteq> d"
  shows "\<exists>oc'. persistMeshResult n now' p d' = Inr (oc', d')"
  using rec
proof (cases rule: persistMeshResult_cases)
  case (applied e)
  from applied(1) rec have "pr_Status p \<in> {''success'', ''failure'', ''error''}"
    by (simp add: persistMeshResult_def insert_mesh_result_def split: if_splits)
  moreover have "list_ex (\<lambda>q. mp_job_id q = pr_jobID p) (mesh_results d')" by (simp add: applied(3))
  ultimately show ?thesis
    by (cases "find_edge (pr_sourceID p) (pr_targetID p) d'")
       (simp_all add: persistMeshResult_def insert_mesh_result_def)
qed (use changed in simp_all)

lemma persistMeshResult_monitors:
  "persistMeshResult n now p d = Inr (oc, d') \<Longrightarrow> find_monitor mid d' = find_monitor mid d"
  by (drule persistMeshResult_frame) (auto simp: find_monitor_def)

lemma buildResult_SomeD:
  "buildResult env m = Some ids \<Longrightarrow> parse_uuid env (msg_MonitorID m) = Some (mr_MonitorID ids)"
  by (auto simp: buildResult_def split: option.splits if_splits)

section \<open>Authenticated evidence\<close>

lemma credential_row_SomeD:
  assumes "credential_row lid tid mid d = Some stored"
  shows "\<exists>l\<in>set (locations d). l_id l = lid \<and> l_enabled l \<and> l_deleted_at l = None \<and>
     l_worker_credential l = Some stored \<and>
     (case tid of None \<Rightarrow> True | Some t \<Rightarrow> l_tenant_id l = t) \<and>
     (case mid of None \<Rightarrow> True | Some m \<Rightarrow> (m, lid) \<in> set (monitor_locations d))"
proof -
  obtain l where l: "l_worker_credential l = Some stored" and f: "find (\<lambda>l. l_id l = lid \<and> l_enabled l \<and>
      l_deleted_at l = None \<and> l_worker_credential l \<noteq> None \<and>
      (case tid of None \<Rightarrow> True | Some t \<Rightarrow> l_tenant_id l = t) \<and>
      (case mid of None \<Rightarrow> True
       | Some m \<Rightarrow> list_ex (\<lambda>ml. ml = (m, lid)) (monitor_locations d) \<and>
           list_ex (\<lambda>x. m_id x = m \<and> m_tenant_id x = l_tenant_id l \<and> m_deleted_at x = None)
             (monitors d))) (locations d) = Some l"
    using assms unfolding credential_row_def by (simp split: option.split_asm)
  from find_SomeD [OF f] l show ?thesis
    by (intro bexI [of _ l]) (simp_all add: list_ex_iff split: option.splits)
qed

lemma verify_accepts:
  assumes v: "verifyLocationResult env subject m d = Inr ()"
  obtains (platform) "subject = cfg_subject env" "msg_LocationID m = []"
  | (location) l c where "subject = cfg_subject env @ ''.loc.'' @ msg_LocationID m"
      "parse_uuid env (msg_LocationID m) = Some (l_id l)" "l \<in> set (locations d)" "l_enabled l"
      "l_deleted_at l = None" "map_option (decrypt env) (l_worker_credential l) = Some (Some c)"
      "sign_json env c (m\<lparr>msg_LocationSignature := []\<rparr>) = Some (msg_LocationSignature m)"
      "msg_Mesh m = None \<and> msg_MonitorID m \<noteq> [] \<Longrightarrow>
         \<exists>mid. parse_uuid env (msg_MonitorID m) = Some mid \<and> (mid, l_id l) \<in> set (monitor_locations d)"
proof (cases "subject = cfg_subject env")
  case True
  with v show thesis by (intro platform) (auto simp: verifyLocationResult_def split: if_splits)
next
  case False
  let ?pre = "cfg_subject env @ ''.loc.''"
  let ?mon = "if msg_Mesh m \<noteq> None then [] else msg_MonitorID m"
  from v False have pre: "has_prefix ?pre subject" and suf: "drop (length ?pre) subject = msg_LocationID m"
    and cred: "bindE (locationCredential env (msg_LocationID m) (msg_TenantID m) ?mon d)
            (\<lambda>credential. VerifyJSON env credential (msg_LocationSignature m)
                            (m\<lparr>msg_LocationSignature := []\<rparr>)) = Inr ()"
    unfolding verifyLocationResult_def Let_def by (auto split: if_split_asm)
  have subj: "subject = cfg_subject env @ ''.loc.'' @ msg_LocationID m"
    using pre suf append_take_drop_id [of "length ?pre" subject] by (simp add: has_prefix_def)
  from cred obtain c where c: "locationCredential env (msg_LocationID m) (msg_TenantID m) ?mon d = Inr c"
    and sig: "VerifyJSON env c (msg_LocationSignature m) (m\<lparr>msg_LocationSignature := []\<rparr>) = Inr ()"
    by (auto simp: bindE_eq_Inr)
  from c obtain lid tid mid stored where lid: "parse_uuid env (msg_LocationID m) = Some lid"
    and mid: "if ?mon = [] then mid = None else parse_uuid env ?mon = mid \<and> mid \<noteq> None"
    and row: "credential_row lid tid mid d = Some stored" and dec: "decrypt env stored = Some c"
    unfolding locationCredential_def by (auto simp: bindE_eq_Inr split: option.splits if_split_asm)
  from row obtain l where l: "l \<in> set (locations d)" "l_id l = lid" "l_enabled l" "l_deleted_at l = None"
    "l_worker_credential l = Some stored"
    and sel: "\<And>x. mid = Some x \<Longrightarrow> (x, lid) \<in> set (monitor_locations d)"
    using credential_row_SomeD [OF row] by (auto split: option.splits)
  have "sign_json env c (m\<lparr>msg_LocationSignature := []\<rparr>) = Some (msg_LocationSignature m)"
    using sig by (auto simp: VerifyJSON_def split: if_splits option.splits)
  with subj lid l dec sel mid show thesis by (intro location [of l c]) (auto split: if_splits)
qed

section \<open>A sample message\<close>

definition sample_env :: env where
  "sample_env = \<lparr>parse_uuid = (\<lambda>s. map_of [(''t1'', 1), (''m7'', 7), (''m8'', 8), (''l21'', 21),
                                       (''l23'', 23), (''j'', 500)] s),
                 decrypt = Some, sign_json = (\<lambda>c m. Some (c @ msg_JobID m)),
                 cfg_subject = ''check.results'', cfg_mesh_threshold = 2\<rparr>"

definition sample_msg :: "string \<Rightarrow> string \<Rightarrow> string \<Rightarrow> string \<Rightarrow> CheckResultMessage" where
  "sample_msg mon loc status sig =
     \<lparr>msg_Version = ''v1'', msg_JobID = ''j'', msg_MonitorID = mon, msg_TenantID = ''t1'',
      msg_LocationID = loc, msg_Status = status, msg_ResultSource = ''monitor'',
      msg_HTTPStatus = None, msg_LatencyMs = None, msg_ErrorMessage = None,
      msg_MatchedBodySubstring = False, msg_MetricsData = [], msg_StartedAt = 50,
      msg_CompletedAt = 51, msg_Mesh = None, msg_LocationSignature = sig\<rparr>"

lemmas sample_msg_defs = sample_env_def sample_msg_def

text \<open>The default fleet's failing result of monitor 7 is applied.\<close>

lemma sample_handled:
  obtains d' where "handleMessage sample_env 60 60 ''check.results''
      (Some (sample_msg ''m7'' [] ''failure'' [])) sample_db =
        (\<lparr>h_ack = Ack, h_events = [(''m7'', ''t1'')]\<rparr>, d')" and "store_ok d'" and "d' \<noteq> sample_db"
    and "find_monitor 7 d' \<noteq> None"
proof -
  let ?m = "sample_msg ''m7'' [] ''failure'' []"
  let ?ids = "\<lparr>mr_MonitorID = 7, mr_TenantID = 1, mr_JobID = 500, mr_LocationID = None\<rparr>"
  let ?r = "to_result ?m ?ids"
  let ?t = "Apply (monitor_snapshot (sample_monitor 7 2 1)) True 2"
  have m: "find_monitor (r_MonitorID ?r) sample_db = Some (sample_monitor 7 2 1)"
    by (simp add: sample_find)
  have t: "?t = Apply (monitor_snapshot (sample_monitor 7 2 1)) (IsFailureStatus (r_Status ?r))
      (m_consecutive_failures_threshold (sample_monitor 7 2 1))"
    by (simp add: to_result_def sample_msg_def IsFailureStatus_def sample_monitor_def)
  have pre: "\<not> location_bound (r_MonitorID ?r) sample_db" "result_checks ?r"
    "\<not> list_ex (same_evidence ?r) (check_results sample_db)" "result_refs ?r sample_db"
    "r_SyntheticAbsence ?r \<or> \<not> before (r_StartedAt ?r) (m_last_result_started_at (sample_monitor 7 2 1))"
    by (simp_all add: to_result_def sample_msg_def sample_defs location_bound_def result_checks_def
        result_refs_def find_monitor_def before_def)
  obtain d' where rec: "Record 60 60 ?r sample_db = Inr (?t, d')" and ok: "store_ok d'"
    and f: "find_monitor (r_MonitorID ?r) d' = Some (apply_to_monitor 60 ?r ?t (sample_monitor 7 2 1))"
    and cr: "check_results d' = check_results sample_db @ [result_row 60 ?r]"
    by (rule Record_applied [OF sample_db_ok m pre t, of 60 60]) blast
  have t': "tr_Changed ?t" "\<not> tr_Duplicate ?t"
    by (simp_all add: monitor_snapshot_def sample_monitor_def)
  have b: "buildResult sample_env ?m = Some ?ids"
    by (simp add: buildResult_def sample_msg_defs)
  have v: "verifyLocationResult sample_env ''check.results'' ?m sample_db = Inr ()"
    by (simp add: verifyLocationResult_def sample_msg_defs)
  have fields: "msg_Version ?m = ''v1''" "msg_Mesh ?m = None" "msg_MonitorID ?m = ''m7''"
    "msg_TenantID ?m = ''t1''" "msg_ResultSource ?m = ''monitor''"
    by (simp_all add: sample_msg_def)
  have "persist 60 60 ?m ?ids sample_db =
      Inr (\<lparr>oc_duplicate = False, oc_stateChanged = True\<rparr>, d')"
    using rec t' fields by (simp add: persist_def Let_def)
  with b v fields have "handleMessage sample_env 60 60 ''check.results'' (Some ?m) sample_db =
      (\<lparr>h_ack = Ack, h_events = [(''m7'', ''t1'')]\<rparr>, d')"
    by (simp add: handleMessage_def)
  moreover have "d' \<noteq> sample_db" using cr by (auto simp: sample_db_def)
  moreover have "find_monitor 7 d' \<noteq> None" using f by simp
  ultimately show thesis using ok by (intro that)
qed

section \<open>Properties\<close>

text \<open>
  C3. A message is processed exactly once. When handling a message changed the database, handling
  the same message again, at any later time, is acknowledged, publishes no event and leaves the
  database exactly as it is; this holds for default-fleet results, location results, expired
  jobs and mesh probes alike.
\<close>

theorem handleMessage_exactly_once:
  assumes ok: "store_ok d" and run: "handleMessage env now clock subject data d = (h, d')"
    and changed: "d' \<noteq> d"
  shows "handleMessage env now' clock' subject data d' = (acked, d')"
  using ok run
proof (cases rule: handleMessage_cases)
  case (mesh m target p oc)
  obtain oc' where "persistMeshResult (cfg_mesh_threshold env) now' p d' = Inr (oc', d')"
    using persistMeshResult_again [OF mesh(6) changed] by blast
  with mesh show ?thesis
    by (simp add: handleMessage_def handleMeshResult_def split: sum.split)
next
  case (persisted m ids oc)
  obtain oc' where "persist now' clock' m ids d' = Inr (oc', d')" "oc_stateChanged oc' \<longrightarrow> oc_duplicate oc'"
    using persist_again [OF ok persisted(5)] by blast
  with persisted show ?thesis
    by (auto simp: handleMessage_def acked_def split: sum.split)
qed (use changed in simp_all)

theorem handleMessage_exactly_once_witness:
  "\<exists>d'. handleMessage sample_env 60 60 ''check.results''
      (Some (sample_msg ''m7'' [] ''failure'' [])) sample_db =
        (\<lparr>h_ack = Ack, h_events = [(''m7'', ''t1'')]\<rparr>, d') \<and>
    handleMessage sample_env 75 75 ''check.results'' (Some (sample_msg ''m7'' [] ''failure'' [])) d' = (acked, d')"
proof -
  obtain d' where run: "handleMessage sample_env 60 60 ''check.results''
      (Some (sample_msg ''m7'' [] ''failure'' [])) sample_db =
        (\<lparr>h_ack = Ack, h_events = [(''m7'', ''t1'')]\<rparr>, d')" and "d' \<noteq> sample_db"
    by (rule sample_handled)
  from handleMessage_exactly_once [OF sample_db_ok this] run show ?thesis by blast
qed

text \<open>
  The published events are exactly the state changes. After a message is handled, the stored
  state of a monitor differs from before if and only if an event naming that monitor was
  published for the message; so subscribers miss no transition and see no spurious one.
\<close>

theorem handleMessage_announces_exactly_the_changes:
  assumes ok: "store_ok d" and run: "handleMessage env now clock subject data d = (h, d')"
    and mon: "find_monitor mid d = Some x"
  shows "\<exists>x'. find_monitor mid d' = Some x' \<and>
    (m_current_state x' \<noteq> m_current_state x \<longleftrightarrow>
     (\<exists>(a, b)\<in>set (h_events h). parse_uuid env a = Some mid))"
  using ok run
proof (cases rule: handleMessage_cases)
  case (mesh m target p oc)
  with mon persistMeshResult_monitors [OF mesh(6), of mid] show ?thesis by simp
next
  case (persisted m ids oc)
  from persist_announces [OF ok persisted(5) mon] buildResult_SomeD [OF persisted(4)] persisted(6)
  show ?thesis by auto
qed (use mon in simp_all)

theorem handleMessage_announces_exactly_the_changes_witness:
  "\<exists>d' x'. handleMessage sample_env 60 60 ''check.results''
      (Some (sample_msg ''m7'' [] ''failure'' [])) sample_db =
        (\<lparr>h_ack = Ack, h_events = [(''m7'', ''t1'')]\<rparr>, d') \<and>
     find_monitor 7 d' = Some x' \<and> m_current_state x' \<noteq> StateUnknown"
proof -
  obtain d' where run: "handleMessage sample_env 60 60 ''check.results''
      (Some (sample_msg ''m7'' [] ''failure'' [])) sample_db =
        (\<lparr>h_ack = Ack, h_events = [(''m7'', ''t1'')]\<rparr>, d')"
    by (rule sample_handled)
  from handleMessage_announces_exactly_the_changes [OF sample_db_ok run sample_find(1)] run
  show ?thesis by (auto simp: sample_env_def sample_monitor_def)
qed

text \<open>
  C30. Location evidence is authentic. Whenever a message that names a location changes the
  database, it arrived on that location's own subject, the location exists, is enabled and not
  deleted, the message's signature is the one its stored worker credential produces for the rest
  of the message, and, unless it is a mesh probe, the location is selected for the monitor the
  message names. A message without a location changes anything only on the platform subject.
\<close>

theorem handleMessage_location_results_authentic:
  assumes ok: "store_ok d" and run: "handleMessage env now clock subject (Some m) d = (h, d')"
    and changed: "d' \<noteq> d" and parses: "parse_uuid env [] = None"
  shows "(subject = cfg_subject env \<and> msg_LocationID m = []) \<or>
    (\<exists>l\<in>set (locations d). \<exists>c. subject = cfg_subject env @ ''.loc.'' @ msg_LocationID m \<and>
       parse_uuid env (msg_LocationID m) = Some (l_id l) \<and> l_enabled l \<and> l_deleted_at l = None \<and>
       map_option (decrypt env) (l_worker_credential l) = Some (Some c) \<and>
       sign_json env c (m\<lparr>msg_LocationSignature := []\<rparr>) = Some (msg_LocationSignature m) \<and>
       (msg_Mesh m = None \<longrightarrow> (\<exists>mid. parse_uuid env (msg_MonitorID m) = Some mid \<and>
          (mid, l_id l) \<in> set (monitor_locations d))))"
proof -
  have v: "verifyLocationResult env subject m d = Inr ()"
    and b: "msg_Mesh m = None \<Longrightarrow> msg_MonitorID m \<noteq> []"
  proof -
    show "verifyLocationResult env subject m d = Inr ()"
      using ok run by (cases rule: handleMessage_cases) (use changed in auto)
    show "msg_MonitorID m \<noteq> []" if "msg_Mesh m = None"
      using ok run
      by (cases rule: handleMessage_cases) (use changed that parses in \<open>auto dest!: buildResult_SomeD\<close>)
  qed
  from v show ?thesis
  proof (cases rule: verify_accepts)
    case (location l c)
    with b show ?thesis by (intro disjI2 bexI [of _ l] exI [of _ c]) simp_all
  qed simp
qed

theorem handleMessage_location_results_authentic_witness:
  "\<exists>h d'. handleMessage sample_env 60 60 ''check.results.loc.l21''
      (Some (sample_msg ''m8'' ''l21'' ''failure'' ''kj'')) sample_db = (h, d') \<and> d' \<noteq> sample_db \<and>
    (\<exists>l\<in>set (locations sample_db). l_enabled l \<and> (8, l_id l) \<in> set (monitor_locations sample_db))"
proof -
  let ?m = "sample_msg ''m8'' ''l21'' ''failure'' ''kj''"
  let ?ids = "\<lparr>mr_MonitorID = 8, mr_TenantID = 1, mr_JobID = 500, mr_LocationID = Some 21\<rparr>"
  let ?r = "to_result ?m ?ids"
  have m: "find_monitor (r_MonitorID ?r) sample_db = Some (sample_monitor 8 1 2)"
    by (simp add: sample_find)
  have pre: "result_checks ?r" "\<not> list_ex (same_evidence ?r) (check_results sample_db)"
    "result_refs ?r sample_db" "(r_MonitorID ?r, 21) \<in> set (monitor_locations sample_db)"
    "\<not> before (r_StartedAt ?r) (location_watermark (r_MonitorID ?r) 21 sample_db)"
    by (simp_all add: to_result_def sample_msg_def sample_defs result_checks_def result_refs_def
        find_monitor_def before_def location_watermark_def find_location_state_def)
  obtain oc d' d1 where rec: "persistAtLocation 60 60 ?r 21 sample_db = Inr (oc, d')"
    and ls: "location_states d' = location_states
        (upsert_location_state 60 ?r 21 (location_transition ?r 21 (sample_monitor 8 1 2) sample_db) d1)"
    by (rule persistAtLocation_applied [OF sample_db_ok m pre, of 60 60]) blast
  have "d' \<noteq> sample_db"
  proof
    assume "d' = sample_db"
    with ls have "find_location_state 8 21 sample_db = find_location_state 8 21
        (upsert_location_state 60 ?r 21 (location_transition ?r 21 (sample_monitor 8 1 2) sample_db) d1)"
      by (simp add: find_location_state_def)
    then show False
      unfolding find_location_upsert by (simp add: find_location_state_def sample_db_def)
  qed
  have b: "buildResult sample_env ?m = Some ?ids"
    by (simp add: buildResult_def sample_msg_defs)
  have v: "verifyLocationResult sample_env ''check.results.loc.l21'' ?m sample_db = Inr ()"
    by (simp add: verifyLocationResult_def sample_msg_defs has_prefix_def locationCredential_def
        credential_row_def VerifyJSON_def sample_defs)
  have fields: "msg_Version ?m = ''v1''" "msg_Mesh ?m = None" "msg_ResultSource ?m = ''monitor''"
    by (simp_all add: sample_msg_def)
  have "persist 60 60 ?m ?ids sample_db = Inr (oc, d')"
    using rec fields by (simp add: persist_def Let_def)
  then obtain h where run: "handleMessage sample_env 60 60 ''check.results.loc.l21'' (Some ?m) sample_db = (h, d')"
    using b v fields by (cases "oc_duplicate oc") (auto simp: handleMessage_def)
  have none: "parse_uuid sample_env [] = None" by (simp add: sample_env_def)
  from handleMessage_location_results_authentic [OF sample_db_ok run \<open>d' \<noteq> sample_db\<close> none]
    run \<open>d' \<noteq> sample_db\<close> show ?thesis
    by (auto simp: sample_msg_defs)
qed



text \<open>
  What the state semantics call the membership guard never sees a removed location's result:
  the authentication step drops it first. A non-mesh message of a location that is not selected
  for the monitor it names leaves the database unchanged, so it is not even kept as history,
  where rule S-E4 of the documentation says it is inserted.
\<close>

theorem unselected_location_result_is_dropped:
  assumes ok: "store_ok d" and run: "handleMessage env now clock subject (Some m) d = (h, d')"
    and loc: "parse_uuid env (msg_LocationID m) = Some l" "parse_uuid env (msg_MonitorID m) = Some mid"
    and mesh: "msg_Mesh m = None" and parses: "parse_uuid env [] = None"
    and unselected: "(mid, l) \<notin> set (monitor_locations d)"
  shows "d' = d \<and> h_events h = []"
proof -
  have "verifyLocationResult env subject m d \<noteq> Inr ()"
  proof
    assume "verifyLocationResult env subject m d = Inr ()"
    moreover have "msg_MonitorID m \<noteq> []" "msg_LocationID m \<noteq> []" using loc parses by auto
    ultimately show False
      by (cases rule: verify_accepts) (use loc mesh unselected in auto)
  qed
  with ok run show ?thesis
    by (cases rule: handleMessage_cases) (use mesh in auto)
qed

theorem unselected_location_result_is_dropped_witness:
  "snd (handleMessage sample_env 60 60 ''check.results.loc.l21''
     (Some (sample_msg ''m7'' ''l21'' ''failure'' ''kj'')) sample_db) = sample_db"
proof -
  let ?run = "handleMessage sample_env 60 60 ''check.results.loc.l21''
     (Some (sample_msg ''m7'' ''l21'' ''failure'' ''kj'')) sample_db"
  have run: "?run = (fst ?run, snd ?run)" by simp
  show ?thesis
    using unselected_location_result_is_dropped [OF sample_db_ok run, of 21 7]
    by (simp add: sample_msg_defs sample_db_def)
qed

end
