(* ===== verification/Sweep.thy ===== *)
theory Sweep
  imports Prelude
begin

text \<open>
  Keyset pagination, the loop of every watchdog pass: scan a page of rows after the cursor in key
  order, work on each row, stop at a short page, otherwise continue after the page's last key.
  The scan and the work run against a database that changes under the loop, so whether the loop
  ends, and whether it misses a row, is not obvious; \<open>keyset\<close> says what the scan and the work
  have to promise for it to end, \<open>keyset_complete\<close> for it to miss nothing.
\<close>

partial_function (option) sweep ::
    "(uuid \<Rightarrow> 's \<Rightarrow> 'r list \<times> 's) \<Rightarrow> ('r \<Rightarrow> uuid) \<Rightarrow> ('r \<Rightarrow> 's \<Rightarrow> 's) \<Rightarrow> nat \<Rightarrow> uuid \<Rightarrow> 's \<Rightarrow> 's option" where
  "sweep scan key work limit cursor s =
     (case scan cursor s of (rows, s1) \<Rightarrow>
        if length rows < limit then Some (fold work rows s1)
        else sweep scan key work limit (key (last rows)) (fold work rows s1))"

text \<open>The rows of one page.\<close>

definition page_of :: "('r \<Rightarrow> uuid) \<Rightarrow> nat \<Rightarrow> uuid \<Rightarrow> 'r list \<Rightarrow> 'r list" where
  "page_of key limit cursor rows =
     take limit (sort_key key (filter (\<lambda>r. cursor < key r) rows))"

lemma set_page_of: "r \<in> set (page_of key limit cursor rows) \<Longrightarrow> r \<in> set rows \<and> cursor < key r"
  unfolding page_of_def by (auto dest: in_set_takeD)

lemma length_page_of: "length (page_of key limit cursor rows) \<le> limit"
  by (simp add: page_of_def)

lemma page_of_complete:
  assumes "r \<in> set rows" and "cursor < key r" and d: "distinct (map key rows)"
  shows "r \<in> set (page_of key limit cursor rows) \<or>
    (length (page_of key limit cursor rows) = limit \<and>
     (0 < limit \<longrightarrow> key (last (page_of key limit cursor rows)) < key r))"
proof -
  let ?all = "sort_key key (filter (\<lambda>r. cursor < key r) rows)"
  have r: "r \<in> set ?all" using assms by simp
  then obtain i where i: "i < length ?all" "?all ! i = r" unfolding in_set_conv_nth by blast
  show ?thesis
  proof (cases "i < limit")
    case True
    with i have "r = take limit ?all ! i" "i < length (take limit ?all)" by auto
    then show ?thesis unfolding page_of_def by (metis nth_mem)
  next
    case False
    then have len: "length (take limit ?all) = limit" using i by simp
    moreover have "key (last (take limit ?all)) < key r" if "0 < limit"
    proof -
      have "take limit ?all \<noteq> []" using that i by (cases ?all) auto
      then have "last (take limit ?all) = ?all ! (limit - 1)" using len that False i
        by (simp add: last_conv_nth)
      moreover have "?all ! (limit - 1) \<in> set ?all" using False i that by (intro nth_mem) simp
      moreover have "key (?all ! (limit - 1)) \<le> key (?all ! i)"
        using sorted_nth_mono [of "map key ?all" "limit - 1" i] False i that by simp
      moreover have "key (?all ! (limit - 1)) \<noteq> key (?all ! i)"
      proof -
        have "distinct (map key ?all)"
          using d by (simp add: distinct_map inj_on_def)
        then show ?thesis
          using False i(1) that nth_eq_iff_index_eq [of "map key ?all" "limit - 1" i] by simp
      qed
      ultimately show ?thesis using i by simp
    qed
    ultimately show ?thesis unfolding page_of_def by blast
  qed
qed

lemma page_of_sorted:
  assumes "distinct (map key rows)"
  shows "sorted_wrt (<) (map key (page_of key limit cursor rows))"
proof -
  let ?all = "sort_key key (filter (\<lambda>r. cursor < key r) rows)"
  have "distinct (map key ?all)" using assms by (simp add: distinct_map inj_on_def)
  then have "sorted_wrt (<) (map key ?all)" by (simp add: strict_sorted_iff)
  then show ?thesis by (simp add: page_of_def take_map [symmetric] sorted_wrt_take)
qed

section \<open>The loop ends\<close>

locale keyset =
  fixes scan :: "uuid \<Rightarrow> 's \<Rightarrow> 'r list \<times> 's" and key :: "'r \<Rightarrow> uuid" and work :: "'r \<Rightarrow> 's \<Rightarrow> 's"
    and limit :: nat and universe :: "'s \<Rightarrow> uuid set" and inv :: "'s \<Rightarrow> bool"
  assumes limit_pos: "0 < limit"
    and scan_inv: "inv s \<Longrightarrow> inv (snd (scan c s)) \<and> universe (snd (scan c s)) = universe s"
    and work_inv: "inv s \<Longrightarrow> inv (work r s) \<and> universe (work r s) = universe s"
    and scan_rows: "inv s \<Longrightarrow> r \<in> set (fst (scan c s)) \<Longrightarrow> key r \<in> universe s \<and> c < key r"
    and universe_finite: "inv s \<Longrightarrow> finite (universe s)"
begin

lemma fold_inv: "inv s \<Longrightarrow> inv (fold work rs s) \<and> universe (fold work rs s) = universe s"
  by (induction rs arbitrary: s) (simp_all add: work_inv)

lemma page_inv:
  "inv s \<Longrightarrow> scan c s = (rows, s1) \<Longrightarrow>
   inv (fold work rows s1) \<and> universe (fold work rows s1) = universe s"
  using scan_inv [of s c] fold_inv [of s1 rows] by simp

text \<open>A full page leaves fewer keys to visit.\<close>

lemma page_decreases:
  assumes "inv s" and "scan c s = (rows, s1)" and "\<not> length rows < limit"
  shows "card {y \<in> universe (fold work rows s1). key (last rows) < y} < card {y \<in> universe s. c < y}"
proof -
  have "last rows \<in> set rows" using assms(3) limit_pos by (intro last_in_set) auto
  then have "key (last rows) \<in> universe s" "c < key (last rows)"
    using scan_rows [OF assms(1), of "last rows" c] assms(2) by auto
  then have "{y \<in> universe s. key (last rows) < y} \<subset> {y \<in> universe s. c < y}" by auto
  with universe_finite [OF assms(1)] page_inv [OF assms(1,2)] show ?thesis
    by (simp add: psubset_card_mono)
qed

lemma sweep_ends:
  "inv s \<Longrightarrow> \<exists>s'. sweep scan key work limit c s = Some s' \<and> inv s' \<and> universe s' = universe s"
proof (induction "card {x \<in> universe s. c < x}" arbitrary: c s rule: less_induct)
  case less
  obtain rows s1 where sc: "scan c s = (rows, s1)" by (cases "scan c s")
  let ?s2 = "fold work rows s1"
  have p: "inv ?s2" "universe ?s2 = universe s" using page_inv [OF less.prems sc] by auto
  show ?case
  proof (cases "length rows < limit")
    case True
    with sc p show ?thesis by (subst sweep.simps) simp
  next
    case False
    from less.hyps [OF page_decreases [OF less.prems sc False] p(1)] False sc p(2)
    show ?thesis by (subst sweep.simps) simp
  qed
qed

text \<open>
  What every page keeps, the whole sweep keeps; the property may speak of the cursor, which moves
  to the last key of the page.
\<close>

lemma sweep_invariant:
  assumes page: "\<And>c s rows s1. inv s \<Longrightarrow> Q c s \<Longrightarrow> scan c s = (rows, s1) \<Longrightarrow>
      Q (if rows = [] then c else key (last rows)) (fold work rows s1)"
  shows "inv s \<Longrightarrow> Q c s \<Longrightarrow> sweep scan key work limit c s = Some s' \<Longrightarrow> \<exists>c'. Q c' s'"
proof (induction "card {y \<in> universe s. c < y}" arbitrary: c s rule: less_induct)
  case less
  obtain rows s1 where sc: "scan c s = (rows, s1)" by (cases "scan c s")
  let ?s2 = "fold work rows s1"
  have q: "Q (if rows = [] then c else key (last rows)) ?s2" by (rule page [OF less.prems(1,2) sc])
  show ?case
  proof (cases "length rows < limit")
    case True
    with sc q less.prems(3) show ?thesis by (subst (asm) sweep.simps) auto
  next
    case False
    then have "rows \<noteq> []" using limit_pos by auto
    moreover have "sweep scan key work limit (key (last rows)) ?s2 = Some s'"
      using less.prems(3) sc False by (subst (asm) sweep.simps) simp
    moreover have "inv ?s2" using page_inv [OF less.prems(1) sc] by simp
    ultimately show ?thesis
      using less.hyps [OF page_decreases [OF less.prems(1) sc False]] q by simp
  qed
qed

end

section \<open>The loop misses nothing\<close>

locale keyset_complete = keyset +
  fixes pending :: "uuid \<Rightarrow> 'a \<Rightarrow> bool" and settled :: "uuid \<Rightarrow> 'a \<Rightarrow> bool"
  assumes scan_complete: "inv s \<Longrightarrow> pending x s \<Longrightarrow> c < x \<Longrightarrow> scan c s = (rows, s1) \<Longrightarrow>
      pending x s1 \<and> (x \<in> key ` set rows \<or> (limit \<le> length rows \<and> key (last rows) < x))"
    and scan_settled: "inv s \<Longrightarrow> settled x s \<Longrightarrow> settled x (snd (scan c s))"
    and work_other: "inv s \<Longrightarrow> pending x s \<Longrightarrow> key r \<noteq> x \<Longrightarrow> pending x (work r s)"
    and work_self: "inv s \<Longrightarrow> pending x s \<Longrightarrow> key r = x \<Longrightarrow> settled x (work r s)"
    and work_settled: "inv s \<Longrightarrow> settled x s \<Longrightarrow> settled x (work r s)"
begin

lemma fold_settled: "inv s \<Longrightarrow> settled x s \<Longrightarrow> settled x (fold work rs s)"
  by (induction rs arbitrary: s) (simp_all add: work_inv work_settled)

lemma fold_pending:
  "inv s \<Longrightarrow> pending x s \<Longrightarrow>
   if x \<in> key ` set rs then settled x (fold work rs s) else pending x (fold work rs s)"
proof (induction rs arbitrary: s)
  case (Cons r rs)
  have "inv (work r s)" using work_inv Cons.prems by blast
  with Cons work_self [of s x r] work_other [of s x r] fold_settled [of "work r s" x rs] show ?case
    by (cases "key r = x") auto
qed simp

lemma sweep_settled:
  assumes "inv s" and "settled x s" and "sweep scan key work limit c s = Some s'"
  shows "settled x s'"
proof -
  have "settled x (fold work rows s1)" if "inv s" "settled x s" "scan c s = (rows, s1)" for c s rows s1
    using that scan_settled [of s x c] scan_inv [of s c] by (intro fold_settled) simp_all
  then show ?thesis using sweep_invariant [of "\<lambda>_. settled x"] assms by blast
qed

lemma sweep_complete:
  "inv s \<Longrightarrow> pending x s \<Longrightarrow> c < x \<Longrightarrow> sweep scan key work limit c s = Some s' \<Longrightarrow> settled x s'"
proof (induction "card {y \<in> universe s. c < y}" arbitrary: c s rule: less_induct)
  case less
  obtain rows s1 where sc: "scan c s = (rows, s1)" by (cases "scan c s")
  let ?s2 = "fold work rows s1"
  have p: "inv ?s2" "universe ?s2 = universe s" using page_inv [OF less.prems(1) sc] by auto
  have s1: "inv s1" using scan_inv [OF less.prems(1), of c] sc by simp
  note comp = scan_complete [OF less.prems(1-3) sc]
  show ?case
  proof (cases "length rows < limit")
    case True
    with comp fold_pending [of s1 x rows] s1 sc less.prems(4) show ?thesis
      by (subst (asm) sweep.simps) auto
  next
    case False
    note smaller = page_decreases [OF less.prems(1) sc False]
    have rest: "sweep scan key work limit (key (last rows)) ?s2 = Some s'"
      using less.prems(4) sc False by (subst (asm) sweep.simps) simp
    show ?thesis
    proof (cases "x \<in> key ` set rows")
      case True
      with fold_pending [of s1 x rows] s1 comp have "settled x ?s2" by simp
      then show ?thesis using sweep_settled [OF p(1) _ rest] by blast
    next
      case False
      with fold_pending [of s1 x rows] s1 comp have "pending x ?s2" "key (last rows) < x" by auto
      with less.hyps [OF smaller p(1) _ _ rest] show ?thesis by blast
    qed
  qed
qed

end

end
