(* ===== verification/Watchdog.thy ===== *)
theory Watchdog
  imports Ingest Sweep
begin

text \<open>
  The freshness watchdog, \<open>scheduler/internal/scheduler/watchdog.go\<close>: four passes that turn
  missing evidence into state. Each pass is a keyset sweep (\<open>Sweep\<close>) whose statements and
  transactions each read their own \<open>NOW()\<close>: the n-th of them reads \<open>tick n\<close>.
\<close>

section \<open>State of a run\<close>

record world =
  w_db :: db
  w_tick :: nat
  w_events :: "(uuid \<times> uuid) list"

definition PassiveMonitorTypes :: "string list" where
  "PassiveMonitorTypes = [''group'', ''push'', ''agent'']"

definition IsPassiveMonitorType :: "string \<Rightarrow> bool" where
  "IsPassiveMonitorType t \<longleftrightarrow> list_ex (\<lambda>p. p = t) PassiveMonitorTypes"

definition watchdogBatchLimit :: nat where
  "watchdogBatchLimit = 500"

text \<open>
  \<open>COALESCE(last_result_at, created_at) < NOW() - make_interval(secs => GREATEST(interval * k, f))\<close>.
\<close>

definition last_seen :: "monitor \<Rightarrow> time" where
  "last_seen m = (case m_last_result_at m of None \<Rightarrow> m_created_at m | Some t \<Rightarrow> t)"

definition stale :: "int \<Rightarrow> int \<Rightarrow> time \<Rightarrow> monitor \<Rightarrow> bool" where
  "stale multiplier floor_secs now m \<longleftrightarrow>
     last_seen m < now - secs (max (m_interval_seconds m * multiplier) floor_secs)"

definition live_monitor :: "monitor \<Rightarrow> bool" where
  "live_monitor m \<longleftrightarrow> m_enabled m \<and> m_deleted_at m = None"

section \<open>The active pass\<close>

definition active_candidate :: "time \<Rightarrow> db \<Rightarrow> monitor \<Rightarrow> bool" where
  "active_candidate now d m \<longleftrightarrow> live_monitor m \<and> \<not> IsPassiveMonitorType (m_type m) \<and>
     m_current_state m \<noteq> StateUnknown \<and> \<not> location_bound (m_id m) d \<and>
     stale StaleMultiplier MinFreshnessSeconds now m"

definition mark_unknown :: "time \<Rightarrow> monitor \<Rightarrow> monitor" where
  "mark_unknown now m = m\<lparr>m_current_state := StateUnknown, m_consecutive_failures := 0,
     m_last_state_change_at := Some now, m_updated_at := now\<rparr>"

definition eligible :: "time \<Rightarrow> monitor \<Rightarrow> bool" where
  "eligible now m \<longleftrightarrow> live_monitor m \<and> m_current_state m \<noteq> StateUnknown \<and>
     stale StaleMultiplier MinFreshnessSeconds now m"

definition markMonitorUnknown :: "time \<Rightarrow> uuid \<Rightarrow> db \<Rightarrow> db_error + (uuid option \<times> db)" where
  "markMonitorUnknown now mid d =
     (case find_monitor mid d of
        None \<Rightarrow> Inr (None, d)
      | Some m \<Rightarrow>
          if \<not> eligible now m then Inr (None, d)
          else
            bindE (RecordIntervalTx now (m_tenant_id m) mid StateUnknown ''watchdog_stale''
                    (update_monitor mid (mark_unknown now) d))
                  (\<lambda>d2. Inr (Some (m_tenant_id m), d2)))"

text \<open>
  One candidate of a pass: its transaction at the next tick; a failed one is logged and leaves
  the database, a change is published.
\<close>

definition step_candidate ::
    "(nat \<Rightarrow> time) \<Rightarrow> (time \<Rightarrow> uuid \<Rightarrow> db \<Rightarrow> db_error + (uuid option \<times> db)) \<Rightarrow> uuid \<Rightarrow> world \<Rightarrow> world" where
  "step_candidate tick f mid w =
     (case f (tick (w_tick w)) mid (w_db w) of
        Inl _ \<Rightarrow> w\<lparr>w_tick := Suc (w_tick w)\<rparr>
      | Inr (announce, d) \<Rightarrow>
          w\<lparr>w_db := d, w_tick := Suc (w_tick w),
            w_events := w_events w @ (case announce of None \<Rightarrow> [] | Some t \<Rightarrow> [(mid, t)])\<rparr>)"

definition scan_ids ::
    "(nat \<Rightarrow> time) \<Rightarrow> nat \<Rightarrow> (time \<Rightarrow> db \<Rightarrow> monitor \<Rightarrow> bool) \<Rightarrow> uuid \<Rightarrow> world \<Rightarrow> uuid list \<times> world" where
  "scan_ids tick limit candidate cursor w =
     (map m_id (page_of m_id limit cursor
        (filter (candidate (tick (w_tick w)) (w_db w)) (monitors (w_db w)))),
      w\<lparr>w_tick := Suc (w_tick w)\<rparr>)"

definition watchdogActivePass :: "(nat \<Rightarrow> time) \<Rightarrow> world \<Rightarrow> world option" where
  "watchdogActivePass tick =
     sweep (scan_ids tick watchdogBatchLimit active_candidate) id
           (step_candidate tick markMonitorUnknown) watchdogBatchLimit 0"

section \<open>The quorum pass\<close>

text \<open>
  The joins: a selected location that is disabled or deleted, that never reported, or whose last
  report is stale makes its monitor a candidate.
\<close>

definition quorum_candidate :: "time \<Rightarrow> db \<Rightarrow> monitor \<Rightarrow> bool" where
  "quorum_candidate now d m \<longleftrightarrow> live_monitor m \<and>
     list_ex (\<lambda>(mid, l). mid = m_id m \<and>
        (\<not> live_location d l \<or>
         (case find_location_state (m_id m) l d of
            None \<Rightarrow> True
          | Some s \<Rightarrow> (case mls_last_check_at s of
              None \<Rightarrow> True
            | Some t \<Rightarrow> t < now - secs (max (m_interval_seconds m * StaleMultiplier)
                                            MinFreshnessSeconds)))))
       (monitor_locations d)"

definition set_aggregate :: "time \<Rightarrow> State \<Rightarrow> int \<Rightarrow> monitor \<Rightarrow> monitor" where
  "set_aggregate now newState maxFailures m = m\<lparr>m_current_state := newState,
     m_consecutive_failures := maxFailures, m_last_state_change_at := Some now,
     m_updated_at := now\<rparr>"

definition reaggregateMonitor :: "time \<Rightarrow> uuid \<Rightarrow> db \<Rightarrow> db_error + (uuid option \<times> db)" where
  "reaggregateMonitor now mid d =
     (case find_monitor mid d of
        None \<Rightarrow> Inr (None, d)
      | Some m \<Rightarrow>
          if \<not> live_monitor m then Inr (None, d)
          else
            let (counts, maxFailures) =
                  LoadFreshLocationCounts now mid (FreshnessHorizonSeconds (m_interval_seconds m)) d;
                newState = AggregateLocations counts (m_location_quorum m) in
            if newState = m_current_state m then Inr (None, d)
            else
              bindE (RecordIntervalTx now (m_tenant_id m) mid newState ''watchdog_stale''
                      (update_monitor mid (set_aggregate now newState maxFailures) d))
                    (\<lambda>d2. Inr (Some (m_tenant_id m), d2)))"

definition watchdogQuorumPass :: "(nat \<Rightarrow> time) \<Rightarrow> world \<Rightarrow> world option" where
  "watchdogQuorumPass tick =
     sweep (scan_ids tick watchdogBatchLimit quorum_candidate) id
           (step_candidate tick reaggregateMonitor) watchdogBatchLimit 0"

section \<open>The heartbeat pass\<close>

record candidate =
  ca_id :: uuid
  ca_tenantID :: uuid
  ca_lastSeen :: time
  ca_deadline :: time

text \<open>
  \<open>grace config\<close> is the value of \<open>grace_period_seconds\<close> in the monitor's JSON configuration,
  nothing when the key is absent or the JSON does not decode.
\<close>

definition heartbeat_window :: "(string \<Rightarrow> int option) \<Rightarrow> string \<Rightarrow> monitor \<Rightarrow> int" where
  "heartbeat_window grace monitorType m =
     (if monitorType = ''push'' then
        m_interval_seconds m +
          (case grace (m_config m) of
             Some g \<Rightarrow> if g \<ge> 0 then g else m_interval_seconds m
           | None \<Rightarrow> m_interval_seconds m)
      else FreshnessHorizonSeconds (m_interval_seconds m))"

definition heartbeat_stale :: "string \<Rightarrow> time \<Rightarrow> monitor \<Rightarrow> bool" where
  "heartbeat_stale monitorType now m \<longleftrightarrow>
     (if monitorType = ''agent'' then stale StaleMultiplier MinFreshnessSeconds now m
      else stale 1 0 now m)"

definition heartbeat_candidate :: "string \<Rightarrow> time \<Rightarrow> db \<Rightarrow> monitor \<Rightarrow> bool" where
  "heartbeat_candidate monitorType now d m \<longleftrightarrow>
     m_type m = monitorType \<and> live_monitor m \<and> heartbeat_stale monitorType now m"

definition to_candidate :: "(string \<Rightarrow> int option) \<Rightarrow> string \<Rightarrow> monitor \<Rightarrow> candidate" where
  "to_candidate grace monitorType m =
     \<lparr>ca_id = m_id m, ca_tenantID = m_tenant_id m, ca_lastSeen = last_seen m,
      ca_deadline = last_seen m + secs (heartbeat_window grace monitorType m)\<rparr>"

definition scan_heartbeats ::
    "(nat \<Rightarrow> time) \<Rightarrow> nat \<Rightarrow> (string \<Rightarrow> int option) \<Rightarrow> string \<Rightarrow> uuid \<Rightarrow> world \<times> candidate list \<Rightarrow>
     candidate list \<times> (world \<times> candidate list)" where
  "scan_heartbeats tick limit grace monitorType cursor = (\<lambda>(w, cands).
     (map (to_candidate grace monitorType) (page_of m_id limit cursor
        (filter (heartbeat_candidate monitorType (tick (w_tick w)) (w_db w)) (monitors (w_db w)))),
      (w\<lparr>w_tick := Suc (w_tick w)\<rparr>, cands)))"

definition silence_message :: "string \<Rightarrow> string" where
  "silence_message monitorType =
     (if monitorType = ''agent'' then ''Agent has not reported metrics within the freshness window''
      else ''No push received within expected interval + grace period'')"

definition synthetic_failure :: "time \<Rightarrow> uuid \<Rightarrow> string \<Rightarrow> candidate \<Rightarrow> Result" where
  "synthetic_failure now job monitorType c =
     \<lparr>r_MonitorID = ca_id c, r_TenantID = ca_tenantID c, r_JobID = job, r_LocationID = None,
      r_Status = ''failure'', r_ResultSource = ''monitor'', r_HTTPStatus = None,
      r_LatencyMs = None, r_ErrorMessage = Some (silence_message monitorType),
      r_MatchedBodySubstring = False, r_MetricsData = [], r_StartedAt = now,
      r_CompletedAt = now, r_SyntheticAbsence = True\<rparr>"

text \<open>
  The recording loop. \<open>gonow\<close> is the scheduler's \<open>time.Now()\<close>, read once after the scan; \<open>job n\<close>
  is the identifier \<open>uuid.New()\<close> gives at tick \<open>n\<close>.
\<close>

definition record_silence ::
    "(nat \<Rightarrow> time) \<Rightarrow> (nat \<Rightarrow> uuid) \<Rightarrow> time \<Rightarrow> string \<Rightarrow> candidate \<Rightarrow> world \<Rightarrow> world" where
  "record_silence tick job gonow monitorType c w =
     (if gonow < ca_deadline c then w
      else case Record (tick (w_tick w)) (tick (w_tick w))
                  (synthetic_failure gonow (job (w_tick w)) monitorType c) (w_db w) of
        Inl _ \<Rightarrow> w\<lparr>w_tick := Suc (w_tick w)\<rparr>
      | Inr (t, d) \<Rightarrow> w\<lparr>w_db := d, w_tick := Suc (w_tick w),
                        w_events := w_events w @ (if tr_Changed t then [(ca_id c, ca_tenantID c)] else [])\<rparr>)"

definition watchdogHeartbeatPass ::
    "(nat \<Rightarrow> time) \<Rightarrow> (nat \<Rightarrow> uuid) \<Rightarrow> time \<Rightarrow> (string \<Rightarrow> int option) \<Rightarrow> string \<Rightarrow> world \<Rightarrow> world option" where
  "watchdogHeartbeatPass tick job gonow grace monitorType w =
     (case sweep (scan_heartbeats tick watchdogBatchLimit grace monitorType) ca_id
             (\<lambda>c (w, cands). (w, cands @ [c])) watchdogBatchLimit 0 (w, []) of
        None \<Rightarrow> None
      | Some (w1, cands) \<Rightarrow> Some (fold (record_silence tick job gonow monitorType) cands w1))"

section \<open>A run\<close>

text \<open>\<open>locked\<close> says whether the advisory lock was free; another replica holding it ends the run.\<close>

definition runWatchdog ::
    "bool \<Rightarrow> (nat \<Rightarrow> time) \<Rightarrow> (nat \<Rightarrow> uuid) \<Rightarrow> time \<Rightarrow> time \<Rightarrow> (string \<Rightarrow> int option) \<Rightarrow> world \<Rightarrow> world option" where
  "runWatchdog locked tick job gonow1 gonow2 grace w =
     (if \<not> locked then Some w
      else case watchdogActivePass tick w of None \<Rightarrow> None | Some w1 \<Rightarrow>
           case watchdogQuorumPass tick w1 of None \<Rightarrow> None | Some w2 \<Rightarrow>
           case watchdogHeartbeatPass tick job gonow1 grace ''push'' w2 of None \<Rightarrow> None | Some w3 \<Rightarrow>
             watchdogHeartbeatPass tick job gonow2 grace ''agent'' w3)"

section \<open>Writers of one monitor's state\<close>

text \<open>
  What a transaction that writes the state of one monitor leaves alone: every other monitor and
  its timeline, the set of monitors, the memberships, the locations' rows and the history.
\<close>

definition same_rest :: "uuid \<Rightarrow> db \<Rightarrow> db \<Rightarrow> bool" where
  "same_rest mid d d' \<longleftrightarrow>
     map m_id (monitors d') = map m_id (monitors d) \<and>
     (\<forall>x. x \<noteq> mid \<longrightarrow> find_monitor x d' = find_monitor x d \<and>
                      monitor_timeline x d' = monitor_timeline x d) \<and>
     monitor_locations d' = monitor_locations d \<and> locations d' = locations d \<and>
     location_states d' = location_states d \<and> check_results d' = check_results d \<and>
     tenants d' = tenants d"

lemma same_rest_refl [simp]: "same_rest mid d d"
  by (simp add: same_rest_def)

lemma same_restD:
  assumes "same_rest mid d d'"
  shows "map m_id (monitors d') = map m_id (monitors d)"
    and "x \<noteq> mid \<Longrightarrow> find_monitor x d' = find_monitor x d"
    and "monitor_locations d' = monitor_locations d" and "locations d' = locations d"
    and "location_states d' = location_states d" and "check_results d' = check_results d"
    and "m_id ` set (monitors d') = m_id ` set (monitors d)"
proof -
  show ids: "map m_id (monitors d') = map m_id (monitors d)" using assms by (simp add: same_rest_def)
  show "m_id ` set (monitors d') = m_id ` set (monitors d)"
    using arg_cong [OF ids, of set] by simp
qed (use assms in \<open>simp_all add: same_rest_def\<close>)

lemma write_state:
  assumes ok: "store_ok d" and m: "find_monitor mid d = Some m" and k: "keeps_identity g"
    and s: "m_current_state (g m) = s" and r: "reason \<in> set IntervalReasons"
  obtains d' where "RecordIntervalTx now (m_tenant_id m) mid s reason (update_monitor mid g d) = Inr d'"
    and "store_ok d'" and "same_rest mid d d'" and "find_monitor mid d' = Some (g m)"
    and "monitor_timeline mid d' = extended now (m_tenant_id m) mid s reason (monitor_timeline mid d)"
proof -
  have t: "m_tenant_id m \<in> set (tenants d)"
    using m ok by (auto dest!: find_monitor_SomeD simp: store_okD)
  obtain d' where rec: "RecordIntervalTx now (m_tenant_id m) mid s reason (update_monitor mid g d) = Inr d'"
    and ok': "store_ok d'" and fr: "d' = update_monitor mid g d\<lparr>state_intervals := state_intervals d'\<rparr>"
    and tl: "monitor_timeline mid d' = extended now (m_tenant_id m) mid s reason (monitor_timeline mid d)"
    and oth: "\<And>x. x \<noteq> mid \<Longrightarrow> monitor_timeline x d' = monitor_timeline x d"
    by (rule record_state_ok [OF ok k m s t r, of now]) blast
  have find': "find_monitor x d' = find_monitor x (update_monitor mid g d)" for x
    by (subst fr) (simp add: find_monitor_def)
  have "same_rest mid d d'"
    unfolding same_rest_def
    using arg_cong [OF fr, of monitors] arg_cong [OF fr, of monitor_locations] arg_cong [OF fr, of locations]
      arg_cong [OF fr, of location_states] arg_cong [OF fr, of check_results] arg_cong [OF fr, of tenants]
      oth k update_monitor_ids [OF k, of mid d]
    by (simp add: find' find_monitor_update option.map_ident)
  moreover have "find_monitor mid d' = Some (g m)" using m k by (simp add: find' find_monitor_update)
  ultimately show thesis by (rule that [OF rec ok' _ _ tl])
qed

locale monitor_writer =
  fixes f :: "time \<Rightarrow> uuid \<Rightarrow> db \<Rightarrow> db_error + (uuid option \<times> db)"
  assumes writes: "store_ok d \<Longrightarrow>
    \<exists>a d'. f now mid d = Inr (a, d') \<and> store_ok d' \<and> same_rest mid d d'"
begin

lemma step_ok:
  assumes "store_ok (w_db w)"
  shows "store_ok (w_db (step_candidate tick f mid w)) \<and>
     same_rest mid (w_db w) (w_db (step_candidate tick f mid w)) \<and>
     w_tick (step_candidate tick f mid w) = Suc (w_tick w)"
  using writes [OF assms, of "tick (w_tick w)" mid] by (auto simp: step_candidate_def)

lemma step_find:
  "store_ok (w_db w) \<Longrightarrow> x \<noteq> mid \<Longrightarrow>
   find_monitor x (w_db (step_candidate tick f mid w)) = find_monitor x (w_db w)"
  using step_ok [of w tick mid] by (auto dest: same_restD(2))

lemma step_ids:
  "store_ok (w_db w) \<Longrightarrow>
   m_id ` set (monitors (w_db (step_candidate tick f mid w))) = m_id ` set (monitors (w_db w))"
  using step_ok [of w tick mid] by (auto dest: same_restD(7))

lemma step_bound:
  "store_ok (w_db w) \<Longrightarrow>
   location_bound x (w_db (step_candidate tick f mid w)) = location_bound x (w_db w)"
  using step_ok [of w tick mid] by (auto dest: same_restD(3) simp: location_bound_def)

end

lemma watchdog_reason [simp]: "''watchdog_stale'' \<in> set IntervalReasons"
  by (simp add: IntervalReasons_def)

lemma keeps_identity_mark [simp]: "keeps_identity (mark_unknown now)"
  by (rule keeps_identityI) (simp_all add: mark_unknown_def)

lemma mark_unknown_state [simp]: "m_current_state (mark_unknown now m) = StateUnknown"
  by (simp add: mark_unknown_def)

lemma markMonitorUnknown_cases:
  assumes ok: "store_ok d"
  obtains (skipped) "markMonitorUnknown now mid d = Inr (None, d)"
      "\<And>m. find_monitor mid d = Some m \<Longrightarrow> \<not> eligible now m"
  | (marked) m d' where "find_monitor mid d = Some m" "eligible now m"
      "markMonitorUnknown now mid d = Inr (Some (m_tenant_id m), d')" "store_ok d'"
      "same_rest mid d d'" "find_monitor mid d' = Some (mark_unknown now m)"
proof (cases "\<exists>m. find_monitor mid d = Some m \<and> eligible now m")
  case True
  then obtain m where m: "find_monitor mid d = Some m" and e: "eligible now m" by blast
  obtain d' where "RecordIntervalTx now (m_tenant_id m) mid StateUnknown ''watchdog_stale''
      (update_monitor mid (mark_unknown now) d) = Inr d'" "store_ok d'" "same_rest mid d d'"
    "find_monitor mid d' = Some (mark_unknown now m)"
    by (rule write_state [OF ok m keeps_identity_mark mark_unknown_state watchdog_reason, of now])
  with m e show thesis by (intro marked [of m d']) (simp_all add: markMonitorUnknown_def)
next
  case False
  then show thesis by (intro skipped) (auto simp: markMonitorUnknown_def split: option.split)
qed

interpretation mark: monitor_writer markMonitorUnknown
proof
  fix d now mid assume ok: "store_ok d"
  then show "\<exists>a d'. markMonitorUnknown now mid d = Inr (a, d') \<and> store_ok d' \<and> same_rest mid d d'"
    by (cases rule: markMonitorUnknown_cases [of d now mid]) (use ok in auto)
qed

text \<open>The same for the aggregate, whose input is the database itself.\<close>

lemma keeps_identity_aggregate [simp]: "keeps_identity (set_aggregate now s n)"
  by (rule keeps_identityI) (simp_all add: set_aggregate_def)

lemma set_aggregate_state [simp]: "m_current_state (set_aggregate now s n m) = s"
  by (simp add: set_aggregate_def)

lemma reaggregateMonitor_cases:
  assumes ok: "store_ok d"
  obtains (skipped) "reaggregateMonitor now mid d = Inr (None, d)"
      "\<And>m. find_monitor mid d = Some m \<Longrightarrow> live_monitor m \<Longrightarrow> m_current_state m = fst (aggregated now m d)"
  | (written) m n d' where "find_monitor mid d = Some m" "live_monitor m"
      "m_current_state m \<noteq> fst (aggregated now m d)"
      "reaggregateMonitor now mid d = Inr (Some (m_tenant_id m), d')" "store_ok d'"
      "same_rest mid d d'"
      "find_monitor mid d' = Some (set_aggregate now (fst (aggregated now m d)) n m)"
proof (cases "\<exists>m. find_monitor mid d = Some m \<and> live_monitor m \<and>
    m_current_state m \<noteq> fst (aggregated now m d)")
  case True
  then obtain m where m: "find_monitor mid d = Some m" and l: "live_monitor m"
    and ne: "m_current_state m \<noteq> fst (aggregated now m d)" by blast
  have mid: "m_id m = mid" using m by (auto dest: find_monitor_SomeD)
  obtain c n where lf: "LoadFreshLocationCounts now mid
      (FreshnessHorizonSeconds (m_interval_seconds m)) d = (c, n)" by fastforce
  then have s: "fst (aggregated now m d) = AggregateLocations c (m_location_quorum m)"
    by (simp add: aggregated_def mid)
  obtain d' where "RecordIntervalTx now (m_tenant_id m) mid (fst (aggregated now m d)) ''watchdog_stale''
      (update_monitor mid (set_aggregate now (fst (aggregated now m d)) n) d) = Inr d'" "store_ok d'"
    "same_rest mid d d'" "find_monitor mid d' = Some (set_aggregate now (fst (aggregated now m d)) n m)"
    by (rule write_state [OF ok m keeps_identity_aggregate set_aggregate_state watchdog_reason, of now])
  with m l ne lf s show thesis by (intro written [of m d' n]) (auto simp: reaggregateMonitor_def)
next
  case False
  have "reaggregateMonitor now mid d = Inr (None, d)"
  proof (cases "find_monitor mid d")
    case (Some m)
    then have "m_id m = mid" by (auto dest: find_monitor_SomeD)
    with Some False show ?thesis
      by (auto simp: reaggregateMonitor_def aggregated_def split: prod.splits)
  qed (simp add: reaggregateMonitor_def)
  with False show thesis by (intro skipped) auto
qed

interpretation reaggregate: monitor_writer reaggregateMonitor
proof
  fix d now mid assume ok: "store_ok d"
  then show "\<exists>a d'. reaggregateMonitor now mid d = Inr (a, d') \<and> store_ok d' \<and> same_rest mid d d'"
    by (cases rule: reaggregateMonitor_cases [of d now mid]) (use ok in auto)
qed

section \<open>The passes end and miss nothing\<close>

lemma batch_limit_pos [simp]: "0 < watchdogBatchLimit"
  by (simp add: watchdogBatchLimit_def)

lemma scan_ids_simps [simp]:
  "w_db (snd (scan_ids tick n cand c w)) = w_db w"
  "w_tick (snd (scan_ids tick n cand c w)) = Suc (w_tick w)"
  "snd (scan_ids tick n cand c w) = w\<lparr>w_tick := Suc (w_tick w)\<rparr>"
  by (simp_all add: scan_ids_def)

lemma scan_ids_rows:
  "x \<in> set (fst (scan_ids tick n cand c w)) \<Longrightarrow> x \<in> m_id ` set (monitors (w_db w)) \<and> c < x"
  by (auto simp: scan_ids_def dest: set_page_of)

lemma scan_ids_complete:
  assumes ok: "store_ok (w_db w)" and m: "find_monitor x (w_db w) = Some m"
    and cand: "cand (tick (w_tick w)) (w_db w) m" and c: "c < x" and n: "0 < n"
    and sc: "scan_ids tick n cand c w = (rows, w1)"
  shows "x \<in> set rows \<or> (n \<le> length rows \<and> last rows < x)"
proof -
  let ?ms = "filter (cand (tick (w_tick w)) (w_db w)) (monitors (w_db w))"
  have x: "m \<in> set ?ms" "m_id m = x" using m cand by (auto dest: find_monitor_SomeD)
  have d: "distinct (map m_id ?ms)" using ok by (simp add: store_okD distinct_map_filter)
  have rows: "rows = map m_id (page_of m_id n c ?ms)" using sc by (simp add: scan_ids_def)
  from page_of_complete [OF x(1) _ d, of c n] x(2) c n show ?thesis
    by (cases "page_of m_id n c ?ms = []") (auto simp: rows last_map)
qed

lemma stale_mono: "now \<le> now' \<Longrightarrow> stale k f now m \<Longrightarrow> stale k f now' m"
  by (simp add: stale_def)

definition needs_mark :: "(nat \<Rightarrow> time) \<Rightarrow> uuid \<Rightarrow> world \<Rightarrow> bool" where
  "needs_mark tick x w \<longleftrightarrow> (\<exists>m. find_monitor x (w_db w) = Some m \<and>
     active_candidate (tick (w_tick w)) (w_db w) m)"

definition is_unknown :: "uuid \<Rightarrow> world \<Rightarrow> bool" where
  "is_unknown x w \<longleftrightarrow> (\<exists>m. find_monitor x (w_db w) = Some m \<and> m_current_state m = StateUnknown)"

lemma active_eligible: "active_candidate now d m \<Longrightarrow> eligible now m"
  by (simp add: active_candidate_def eligible_def)

lemma active_candidate_later:
  "active_candidate now d m \<Longrightarrow> now \<le> now' \<Longrightarrow> location_bound (m_id m) d' = location_bound (m_id m) d \<Longrightarrow>
   active_candidate now' d' m"
  by (auto simp: active_candidate_def intro: stale_mono)

lemma step_mark:
  assumes ok: "store_ok (w_db w)"
  shows "needs_mark tick x w \<Longrightarrow> is_unknown x (step_candidate tick markMonitorUnknown x w)"
    and "is_unknown x w \<Longrightarrow> is_unknown x (step_candidate tick markMonitorUnknown r w)"
proof -
  show "is_unknown x (step_candidate tick markMonitorUnknown x w)" if n: "needs_mark tick x w"
    using ok
  proof (cases rule: markMonitorUnknown_cases [of _ "tick (w_tick w)" x])
    case skipped
    with n show ?thesis by (auto simp: needs_mark_def dest: active_eligible)
  next
    case (marked m d')
    then show ?thesis by (simp add: is_unknown_def step_candidate_def)
  qed
  show "is_unknown x (step_candidate tick markMonitorUnknown r w)" if u: "is_unknown x w"
  proof (cases "r = x")
    case True
    from ok show ?thesis
    proof (cases rule: markMonitorUnknown_cases [of _ "tick (w_tick w)" x])
      case skipped
      with u True show ?thesis by (simp add: is_unknown_def step_candidate_def)
    next
      case (marked m d')
      with u True show ?thesis by (auto simp: is_unknown_def eligible_def)
    qed
  next
    case False
    with u mark.step_find [OF ok, of x r tick] show ?thesis by (simp add: is_unknown_def)
  qed
qed

interpretation active: keyset_complete
  "scan_ids tick watchdogBatchLimit active_candidate" id "step_candidate tick markMonitorUnknown"
  watchdogBatchLimit "\<lambda>w. m_id ` set (monitors (w_db w))" "\<lambda>w. mono tick \<and> store_ok (w_db w)"
  "needs_mark tick" is_unknown for tick :: "nat \<Rightarrow> time"
proof (unfold_locales, goal_cases)
  case (3 s r)
  then show ?case using mark.step_ok [of s tick r] mark.step_ids [of s tick r] by simp
next
  case (4 s r c)
  then show ?case using scan_ids_rows by fastforce
next
  case (6 s x c rows s1)
  then obtain m where m: "find_monitor x (w_db s) = Some m"
    and cand: "active_candidate (tick (w_tick s)) (w_db s) m" by (auto simp: needs_mark_def)
  have "s1 = s\<lparr>w_tick := Suc (w_tick s)\<rparr>"
    using 6(4) scan_ids_simps(3) [of tick watchdogBatchLimit active_candidate c s] by simp
  moreover have "tick (w_tick s) \<le> tick (Suc (w_tick s))" using 6(1) by (simp add: mono_def)
  ultimately have "needs_mark tick x s1"
    using m active_candidate_later [OF cand, of "tick (Suc (w_tick s))" "w_db s"]
    by (simp add: needs_mark_def)
  with scan_ids_complete [OF _ m cand 6(3) batch_limit_pos 6(4)] 6(1) show ?case by auto
next
  case (7 s x c)
  then show ?case by (simp add: is_unknown_def)
next
  case (8 s x r)
  then obtain m where m: "find_monitor x (w_db s) = Some m"
    and cand: "active_candidate (tick (w_tick s)) (w_db s) m" and ok: "store_ok (w_db s)"
    by (auto simp: needs_mark_def)
  let ?s = "step_candidate tick markMonitorUnknown r s"
  have "w_tick ?s = Suc (w_tick s)" using mark.step_ok [OF ok, of tick r] by simp
  moreover have "find_monitor x (w_db ?s) = Some m" using mark.step_find [OF ok, of x r tick] 8(3) m by simp
  moreover have "tick (w_tick s) \<le> tick (Suc (w_tick s))" using 8(1) by (simp add: mono_def)
  ultimately show ?case
    using active_candidate_later [OF cand _ mark.step_bound [OF ok, of "m_id m" tick r]]
    by (simp add: needs_mark_def)
next
  case (9 s x r)
  then show ?case using step_mark(1) [of s tick x] by simp
next
  case (10 s x r)
  then show ?case using step_mark(2) [of s x tick r] by simp
qed (auto simp: mono_def)

text \<open>
  The quorum pass: a candidate stays one while other monitors are worked on, and afterwards its
  state is the aggregate of its locations at an instant of the pass.
\<close>

definition needs_quorum :: "(nat \<Rightarrow> time) \<Rightarrow> uuid \<Rightarrow> world \<Rightarrow> bool" where
  "needs_quorum tick x w \<longleftrightarrow> (\<exists>m. find_monitor x (w_db w) = Some m \<and>
     quorum_candidate (tick (w_tick w)) (w_db w) m)"

definition at_quorum :: "(nat \<Rightarrow> time) \<Rightarrow> uuid \<Rightarrow> world \<Rightarrow> bool" where
  "at_quorum tick x w \<longleftrightarrow> (\<exists>m k. find_monitor x (w_db w) = Some m \<and> live_monitor m \<and> k < w_tick w \<and>
     m_current_state m = AggregateLocations (counts_of (location_view (tick k) m (w_db w)))
                           (m_location_quorum m))"

lemma quorum_candidate_later:
  assumes "quorum_candidate now d m" and "now \<le> now'" and "monitor_locations d' = monitor_locations d"
    and "locations d' = locations d" and "location_states d' = location_states d"
  shows "quorum_candidate now' d' m"
proof -
  have same: "live_location d' = live_location d" "find_location_state mid l d' = find_location_state mid l d"
    for mid l using assms by (auto simp: live_location_def find_location_state_def fun_eq_iff)
  obtain l where l: "(m_id m, l) \<in> set (monitor_locations d)"
    "\<not> live_location d l \<or> (case find_location_state (m_id m) l d of None \<Rightarrow> True
       | Some s \<Rightarrow> (case mls_last_check_at s of None \<Rightarrow> True
           | Some t \<Rightarrow> t < now - secs (max (m_interval_seconds m * StaleMultiplier) MinFreshnessSeconds)))"
    using assms(1) by (auto simp: quorum_candidate_def list_ex_iff)
  then have "\<not> live_location d l \<or> (case find_location_state (m_id m) l d of None \<Rightarrow> True
       | Some s \<Rightarrow> (case mls_last_check_at s of None \<Rightarrow> True
           | Some t \<Rightarrow> t < now' - secs (max (m_interval_seconds m * StaleMultiplier) MinFreshnessSeconds)))"
    using assms(2) by (auto split: option.splits)
  with l(1) assms(1,3) show ?thesis
    by (auto simp: quorum_candidate_def list_ex_iff same intro!: bexI [of _ "(m_id m, l)"])
qed

lemma set_aggregate_view:
  "location_view now' (set_aggregate now s n m) d = location_view now' m d"
  "m_location_quorum (set_aggregate now s n m) = m_location_quorum m"
  "live_monitor (set_aggregate now s n m) = live_monitor m"
  by (simp_all add: set_aggregate_def location_view_def live_monitor_def)

lemma location_view_same_rest: "same_rest x d d' \<Longrightarrow> location_view now m d' = location_view now m d"
  by (rule location_view_cong) (simp_all add: same_restD)

lemma step_aggregate:
  assumes ok: "store_ok (w_db w)" and m: "find_monitor x (w_db w) = Some m" and l: "live_monitor m"
  shows "at_quorum tick x (step_candidate tick reaggregateMonitor x w)"
  using ok
proof (cases rule: reaggregateMonitor_cases [of _ "tick (w_tick w)" x])
  case skipped
  from skipped(2) [OF m l] m l show ?thesis
    unfolding at_quorum_def step_candidate_def skipped(1) aggregated_view
    by (intro exI [of _ m] exI [of _ "w_tick w"]) simp
next
  case (written m' n d')
  then have "m' = m" using m by simp
  have view: "location_view (tick (w_tick w)) m d' = location_view (tick (w_tick w)) m (w_db w)"
    by (rule location_view_same_rest [OF written(6)])
  show ?thesis
    using written \<open>m' = m\<close> view unfolding at_quorum_def
    by (intro exI [of _ "set_aggregate (tick (w_tick w)) (fst (aggregated (tick (w_tick w)) m (w_db w))) n m"]
          exI [of _ "w_tick w"])
       (simp add: step_candidate_def set_aggregate_view aggregated_view)
qed

lemma step_quorum:
  assumes ok: "store_ok (w_db w)"
  shows "needs_quorum tick x w \<Longrightarrow> at_quorum tick x (step_candidate tick reaggregateMonitor x w)"
    and "at_quorum tick x w \<Longrightarrow> at_quorum tick x (step_candidate tick reaggregateMonitor r w)"
proof -
  show "at_quorum tick x (step_candidate tick reaggregateMonitor x w)" if "needs_quorum tick x w"
    using that step_aggregate [OF ok] by (auto simp: needs_quorum_def quorum_candidate_def)
  show "at_quorum tick x (step_candidate tick reaggregateMonitor r w)" if q: "at_quorum tick x w"
  proof (cases "r = x")
    case True
    with q step_aggregate [OF ok, of x _ tick] show ?thesis by (auto simp: at_quorum_def)
  next
    case False
    let ?w = "step_candidate tick reaggregateMonitor r w"
    have "same_rest r (w_db w) (w_db ?w)" "w_tick ?w = Suc (w_tick w)"
      using reaggregate.step_ok [OF ok, of tick r] by auto
    with q reaggregate.step_find [OF ok, of x r tick] False show ?thesis
      unfolding at_quorum_def by (auto simp: location_view_same_rest intro: less_SucI)
  qed
qed

interpretation quorum: keyset_complete
  "scan_ids tick watchdogBatchLimit quorum_candidate" id "step_candidate tick reaggregateMonitor"
  watchdogBatchLimit "\<lambda>w. m_id ` set (monitors (w_db w))" "\<lambda>w. mono tick \<and> store_ok (w_db w)"
  "needs_quorum tick" "at_quorum tick" for tick :: "nat \<Rightarrow> time"
proof (unfold_locales, goal_cases)
  case (3 s r)
  then show ?case using reaggregate.step_ok [of s tick r] reaggregate.step_ids [of s tick r] by simp
next
  case (4 s r c)
  then show ?case using scan_ids_rows by fastforce
next
  case (6 s x c rows s1)
  then obtain m where m: "find_monitor x (w_db s) = Some m"
    and cand: "quorum_candidate (tick (w_tick s)) (w_db s) m" by (auto simp: needs_quorum_def)
  have "s1 = s\<lparr>w_tick := Suc (w_tick s)\<rparr>"
    using 6(4) scan_ids_simps(3) [of tick watchdogBatchLimit quorum_candidate c s] by simp
  moreover have "tick (w_tick s) \<le> tick (Suc (w_tick s))" using 6(1) by (simp add: mono_def)
  ultimately have "needs_quorum tick x s1"
    using m quorum_candidate_later [OF cand, of "tick (Suc (w_tick s))" "w_db s"]
    by (simp add: needs_quorum_def)
  with scan_ids_complete [OF _ m cand 6(3) batch_limit_pos 6(4)] 6(1) show ?case by auto
next
  case (7 s x c)
  then show ?case by (auto simp: at_quorum_def intro: less_SucI)
next
  case (8 s x r)
  then obtain m where m: "find_monitor x (w_db s) = Some m"
    and cand: "quorum_candidate (tick (w_tick s)) (w_db s) m" and ok: "store_ok (w_db s)"
    by (auto simp: needs_quorum_def)
  let ?s = "step_candidate tick reaggregateMonitor r s"
  have st: "w_tick ?s = Suc (w_tick s)" "same_rest r (w_db s) (w_db ?s)"
    using reaggregate.step_ok [OF ok, of tick r] by auto
  moreover have "find_monitor x (w_db ?s) = Some m"
    using reaggregate.step_find [OF ok, of x r tick] 8(3) m by simp
  moreover have "tick (w_tick s) \<le> tick (Suc (w_tick s))" using 8(1) by (simp add: mono_def)
  ultimately show ?case
    using quorum_candidate_later [OF cand, of "tick (Suc (w_tick s))" "w_db ?s"] same_restD [OF st(2)]
    by (simp add: needs_quorum_def)
next
  case (9 s x r)
  then show ?case using step_quorum(1) [of s tick x] by simp
next
  case (10 s x r)
  then show ?case using step_quorum(2) [of s tick x r] by simp
qed (auto simp: mono_def)

section \<open>The heartbeat pass\<close>

abbreviation collect :: "candidate \<Rightarrow> world \<times> candidate list \<Rightarrow> world \<times> candidate list" where
  "collect \<equiv> (\<lambda>c (w, cands). (w, cands @ [c]))"

lemma fold_collect: "fold collect rows (w, cs) = (w, cs @ rows)"
  by (induction rows arbitrary: cs) simp_all

lemma to_candidate_id [simp]: "ca_id (to_candidate grace ty m) = m_id m"
  by (simp add: to_candidate_def)

definition silent :: "(nat \<Rightarrow> time) \<Rightarrow> string \<Rightarrow> uuid \<Rightarrow> world \<times> candidate list \<Rightarrow> bool" where
  "silent tick ty x s \<longleftrightarrow> (\<exists>m. find_monitor x (w_db (fst s)) = Some m \<and>
     heartbeat_candidate ty (tick (w_tick (fst s))) (w_db (fst s)) m)"

lemma heartbeat_candidate_later:
  "heartbeat_candidate ty now d m \<Longrightarrow> now \<le> now' \<Longrightarrow> heartbeat_candidate ty now' d m"
  by (auto simp: heartbeat_candidate_def heartbeat_stale_def intro: stale_mono)

lemma scan_heartbeats_parts:
  assumes "scan_heartbeats tick n grace ty c s = (rows, s1)"
  shows "rows = map (to_candidate grace ty) (page_of m_id n c
           (filter (heartbeat_candidate ty (tick (w_tick (fst s))) (w_db (fst s))) (monitors (w_db (fst s)))))"
    and "s1 = (fst s\<lparr>w_tick := Suc (w_tick (fst s))\<rparr>, snd s)"
  using assms by (auto simp: scan_heartbeats_def split: prod.splits)

interpretation heartbeat: keyset_complete
  "scan_heartbeats tick watchdogBatchLimit grace ty" ca_id collect watchdogBatchLimit
  "\<lambda>s. m_id ` set (monitors (w_db (fst s)))" "\<lambda>s. mono tick \<and> store_ok (w_db (fst s))"
  "silent tick ty" "\<lambda>x s. x \<in> ca_id ` set (snd s)"
  for tick :: "nat \<Rightarrow> time" and grace and ty
proof (unfold_locales, goal_cases)
  case (2 s c)
  then show ?case by (cases s) (simp add: scan_heartbeats_def)
next
  case (3 s r)
  then show ?case by (cases s) simp
next
  case (4 s r c)
  then show ?case by (cases s) (auto simp: scan_heartbeats_def dest: set_page_of)
next
  case (6 s x c rows s1)
  note parts = scan_heartbeats_parts [OF 6(4)]
  obtain m where m: "find_monitor x (w_db (fst s)) = Some m"
    and cand: "heartbeat_candidate ty (tick (w_tick (fst s))) (w_db (fst s)) m"
    using 6(2) by (auto simp: silent_def)
  have "tick (w_tick (fst s)) \<le> tick (Suc (w_tick (fst s)))" using 6(1) by (simp add: mono_def)
  with m cand have "silent tick ty x s1"
    by (auto simp: silent_def parts(2) intro: heartbeat_candidate_later)
  moreover have "scan_ids tick watchdogBatchLimit (heartbeat_candidate ty) c (fst s) =
      (map ca_id rows, fst s1)"
    by (simp add: scan_ids_def parts comp_def)
  from scan_ids_complete [OF _ m cand 6(3) batch_limit_pos this] 6(1)
  have "x \<in> set (map ca_id rows) \<or>
      (watchdogBatchLimit \<le> length (map ca_id rows) \<and> last (map ca_id rows) < x)" by simp
  then have "x \<in> ca_id ` set rows \<or> (watchdogBatchLimit \<le> length rows \<and> ca_id (last rows) < x)"
    by (cases "rows = []") (auto simp: last_map watchdogBatchLimit_def)
  ultimately show ?case by blast
next
  case (7 s x c)
  then show ?case by (cases s) (simp add: scan_heartbeats_def)
next
  case (8 s x r)
  then show ?case by (cases s) (simp add: silent_def)
next
  case (9 s x r)
  then show ?case by (cases s) auto
next
  case (10 s x r)
  then show ?case by (cases s) auto
qed auto

text \<open>
  What the collection holds: candidates of monitors of the unchanged database, in key order up
  to the cursor, hence each monitor at most once.
\<close>

definition collected :: "(string \<Rightarrow> int option) \<Rightarrow> string \<Rightarrow> world \<Rightarrow> uuid \<Rightarrow> world \<times> candidate list \<Rightarrow> bool" where
  "collected grace ty w0 cursor s \<longleftrightarrow> w_db (fst s) = w_db w0 \<and> w_tick w0 \<le> w_tick (fst s) \<and>
     w_events (fst s) = w_events w0 \<and>
     sorted_wrt (<) (map ca_id (snd s)) \<and> (\<forall>c\<in>set (snd s). ca_id c \<le> cursor) \<and>
     set (snd s) \<subseteq> to_candidate grace ty ` set (monitors (w_db w0))"

lemma collected_page:
  assumes ok: "store_ok (w_db w0)" and q: "collected grace ty w0 c s"
    and sc: "scan_heartbeats tick n grace ty c s = (rows, s1)"
  shows "collected grace ty w0 (if rows = [] then c else ca_id (last rows)) (fold collect rows s1)"
proof -
  note parts = scan_heartbeats_parts [OF sc]
  let ?ms = "filter (heartbeat_candidate ty (tick (w_tick (fst s))) (w_db (fst s))) (monitors (w_db (fst s)))"
  have "distinct (map m_id ?ms)" using ok q by (simp add: collected_def store_okD distinct_map_filter)
  from page_of_sorted [OF this, of n c] have so: "sorted_wrt (<) (map ca_id rows)"
    by (simp add: parts(1) comp_def)
  have ids: "\<forall>r\<in>set rows. c < ca_id r" "set rows \<subseteq> to_candidate grace ty ` set (monitors (w_db w0))"
    using q by (auto simp: parts(1) collected_def dest: set_page_of)
  have last: "ca_id r \<le> ca_id (last rows)" if "r \<in> set rows" for r
    using so that by (cases rows rule: rev_cases) (auto simp: sorted_wrt_append)
  have "ca_id x \<le> (if rows = [] then c else ca_id (last rows))" if "x \<in> set (snd s) \<union> set rows" for x
  proof (cases "x \<in> set rows")
    case True
    with last show ?thesis by auto
  next
    case False
    then have le: "ca_id x \<le> c" using that q by (simp add: collected_def)
    show ?thesis
    proof (cases "rows = []")
      case False
      then have "c < ca_id (last rows)" using ids(1) by simp
      with le False show ?thesis by simp
    qed (use le in simp)
  qed
  moreover have "sorted_wrt (<) (map ca_id (snd s @ rows))"
  proof -
    have "ca_id a < ca_id b" if "a \<in> set (snd s)" "b \<in> set rows" for a b
      using that q ids(1) by (force simp: collected_def)
    with q so show ?thesis by (auto simp: collected_def sorted_wrt_append)
  qed
  ultimately show ?thesis
    using q ids(2) unfolding parts(2) fold_collect collected_def by simp
qed

text \<open>The collection, complete and without repetition.\<close>

lemma collect_heartbeats:
  assumes mono: "mono tick" and ok: "store_ok (w_db w)"
  obtains w1 cands where "sweep (scan_heartbeats tick watchdogBatchLimit grace ty) ca_id collect
      watchdogBatchLimit 0 (w, []) = Some (w1, cands)"
    and "w_db w1 = w_db w" and "w_tick w \<le> w_tick w1" and "distinct (map ca_id cands)"
    and "set cands \<subseteq> to_candidate grace ty ` set (monitors (w_db w))"
    and "\<And>x. 0 < x \<Longrightarrow> silent tick ty x (w, []) \<Longrightarrow> x \<in> ca_id ` set cands"
proof -
  have inv: "mono tick \<and> store_ok (w_db (fst (w, [] :: candidate list)))" using mono ok by simp
  obtain s' where s': "sweep (scan_heartbeats tick watchdogBatchLimit grace ty) ca_id collect
      watchdogBatchLimit 0 (w, []) = Some s'"
    using heartbeat.sweep_ends [OF inv] by blast
  have "\<exists>c'. collected grace ty w c' s'"
  proof (rule heartbeat.sweep_invariant [of _ "collected grace ty w", OF _ inv _ s'])
    show "collected grace ty w 0 (w, [])" by (simp add: collected_def)
  next
    fix c s rows s1
    assume "collected grace ty w c s" "scan_heartbeats tick watchdogBatchLimit grace ty c s = (rows, s1)"
    then show "collected grace ty w (if rows = [] then c else ca_id (last rows)) (fold collect rows s1)"
      by (rule collected_page [OF ok])
  qed
  then obtain c' where "collected grace ty w c' s'" by blast
  then show thesis
    using s' heartbeat.sweep_complete [OF inv _ _ s']
    by (intro that [of "fst s'" "snd s'"]) (auto simp: collected_def strict_sorted_iff)
qed

section \<open>Recording silence\<close>

text \<open>The identifiers still to be drawn are new.\<close>

definition fresh_jobs :: "(nat \<Rightarrow> uuid) \<Rightarrow> world \<Rightarrow> bool" where
  "fresh_jobs job w \<longleftrightarrow> inj job \<and> (\<forall>k\<ge>w_tick w. \<forall>c\<in>set (check_results (w_db w)). cr_job_id c \<noteq> job k)"

lemma synthetic_simps [simp]:
  "r_MonitorID (synthetic_failure now job ty c) = ca_id c"
  "r_TenantID (synthetic_failure now job ty c) = ca_tenantID c"
  "r_JobID (synthetic_failure now job ty c) = job"
  "r_LocationID (synthetic_failure now job ty c) = None"
  "r_SyntheticAbsence (synthetic_failure now job ty c)"
  "IsFailureStatus (r_Status (synthetic_failure now job ty c))"
  "result_checks (synthetic_failure now job ty c)"
  by (simp_all add: synthetic_failure_def IsFailureStatus_def result_checks_def)

lemma result_row_job [simp]: "cr_job_id (result_row now r) = r_JobID r"
  by (simp add: result_row_def)

lemma record_silence_keeps:
  assumes ok: "store_ok (w_db w)" and fj: "fresh_jobs job w"
  shows "store_ok (w_db (record_silence tick job gonow ty c w))"
    and "fresh_jobs job (record_silence tick job gonow ty c w)"
    and "x \<noteq> ca_id c \<Longrightarrow> find_monitor x (w_db w) = Some m \<Longrightarrow>
         find_monitor x (w_db (record_silence tick job gonow ty c w)) = Some m"
proof -
  let ?r = "synthetic_failure gonow (job (w_tick w)) ty c"
  let ?now = "tick (w_tick w)"
  have rec: "store_ok d \<and> fresh_jobs job (w\<lparr>w_db := d, w_tick := Suc (w_tick w), w_events := ev\<rparr>) \<and>
      (x \<noteq> ca_id c \<longrightarrow> find_monitor x (w_db w) = Some m \<longrightarrow> find_monitor x d = Some m)"
    if "Record ?now ?now ?r (w_db w) = Inr (t, d)" for t d ev
  proof (intro conjI impI)
    show "store_ok d" using ok that by (rule Record_ok)
    show "fresh_jobs job (w\<lparr>w_db := d, w_tick := Suc (w_tick w), w_events := ev\<rparr>)"
      using fj Record_results [OF ok that]
      by (auto simp: fresh_jobs_def inj_eq split: if_splits)
    show "find_monitor x d = Some m" if "x \<noteq> ca_id c" "find_monitor x (w_db w) = Some m"
      using Record_monitor [OF ok \<open>Record ?now ?now ?r (w_db w) = Inr (t, d)\<close> that(2)] that(1) by auto
  qed
  have tick: "fresh_jobs job (w\<lparr>w_tick := Suc (w_tick w)\<rparr>)"
    using fj by (auto simp: fresh_jobs_def)
  show "store_ok (w_db (record_silence tick job gonow ty c w))"
    using ok rec by (auto simp: record_silence_def split: sum.split prod.split)
  show "fresh_jobs job (record_silence tick job gonow ty c w)"
    using fj rec tick by (auto simp: record_silence_def split: sum.split prod.split)
  show "find_monitor x (w_db (record_silence tick job gonow ty c w)) = Some m"
    if "x \<noteq> ca_id c" "find_monitor x (w_db w) = Some m"
    using that rec by (auto simp: record_silence_def split: sum.split prod.split)
qed

lemma record_silence_bound:
  "store_ok (w_db w) \<Longrightarrow>
   location_bound x (w_db (record_silence tick job gonow ty c w)) = location_bound x (w_db w)"
  by (auto simp: record_silence_def location_bound_def dest: Record_memberships
      split: sum.split prod.split)

lemma record_silence_self:
  assumes ok: "store_ok (w_db w)" and fj: "fresh_jobs job w"
    and m: "find_monitor (ca_id c) (w_db w) = Some m" and t: "ca_tenantID c = m_tenant_id m"
    and nb: "\<not> location_bound (ca_id c) (w_db w)" and due: "ca_deadline c \<le> gonow"
  shows "\<exists>m'. find_monitor (ca_id c) (w_db (record_silence tick job gonow ty c w)) = Some m' \<and>
    monitor_snapshot m' = stream_step (m_consecutive_failures_threshold m) (monitor_snapshot m) True"
proof -
  let ?r = "synthetic_failure gonow (job (w_tick w)) ty c" and ?now = "tick (w_tick w)"
  let ?t = "Apply (monitor_snapshot m) (IsFailureStatus (r_Status ?r)) (m_consecutive_failures_threshold m)"
  have new: "\<not> list_ex (same_evidence ?r) (check_results (w_db w))"
    using fj by (auto simp: list_ex_iff same_evidence_def fresh_jobs_def)
  have refs: "result_refs ?r (w_db w)"
    using m t ok by (auto simp: result_refs_def dest: find_monitor_SomeD intro: store_okD(3))
  obtain d where "Record ?now ?now ?r (w_db w) = Inr (?t, d)"
    and f: "find_monitor (ca_id c) d = Some (apply_to_monitor ?now ?r ?t m)"
    using Record_applied [OF ok _ _ _ new refs _ refl, of m ?now ?now] m nb by (auto simp del: Apply_any)
  moreover have "monitor_snapshot (apply_to_monitor ?now ?r ?t m) =
      stream_step (m_consecutive_failures_threshold m) (monitor_snapshot m) True"
    by (simp add: apply_to_monitor_def monitor_snapshot_def stream_step_def next_snapshot_def)
  ultimately show ?thesis using due by (auto simp: record_silence_def)
qed

lemma fold_silence_other:
  "store_ok (w_db w) \<Longrightarrow> fresh_jobs job w \<Longrightarrow> find_monitor x (w_db w) = Some m \<Longrightarrow>
   x \<notin> ca_id ` set cs \<Longrightarrow>
   find_monitor x (w_db (fold (record_silence tick job gonow ty) cs w)) = Some m"
proof (induction cs arbitrary: w)
  case (Cons c cs)
  have "x \<noteq> ca_id c" using Cons.prems(4) by auto
  from Cons.IH [OF record_silence_keeps(1,2) [OF Cons.prems(1,2)]
      record_silence_keeps(3) [OF Cons.prems(1,2) this Cons.prems(3)]] Cons.prems(4)
  show ?case by simp
qed simp

lemma fold_silence:
  assumes "store_ok (w_db w)" and "fresh_jobs job w" and "distinct (map ca_id cs)" and "c \<in> set cs"
    and "find_monitor (ca_id c) (w_db w) = Some m" and "ca_tenantID c = m_tenant_id m"
    and "\<not> location_bound (ca_id c) (w_db w)"
  shows "\<exists>m'. find_monitor (ca_id c) (w_db (fold (record_silence tick job gonow ty) cs w)) = Some m' \<and>
    (if gonow < ca_deadline c then m' = m
     else monitor_snapshot m' = stream_step (m_consecutive_failures_threshold m) (monitor_snapshot m) True)"
  using assms
proof (induction cs arbitrary: w)
  case (Cons a cs)
  note ok = Cons.prems(1) and fj = Cons.prems(2)
  let ?w = "record_silence tick job gonow ty a w"
  note keep = record_silence_keeps [OF ok fj, where tick = tick and gonow = gonow and ty = ty and c = a]
  show ?case
  proof (cases "a = c")
    case True
    then have out: "ca_id c \<notin> ca_id ` set cs" using Cons.prems(3) by simp
    show ?thesis
    proof (cases "gonow < ca_deadline c")
      case early: True
      then have "?w = w" using True by (simp add: record_silence_def)
      with fold_silence_other [OF ok fj Cons.prems(5) out] early show ?thesis by simp
    next
      case False
      then have due: "ca_deadline c \<le> gonow" by simp
      obtain m' where "find_monitor (ca_id c) (w_db ?w) = Some m'"
        and "monitor_snapshot m' = stream_step (m_consecutive_failures_threshold m) (monitor_snapshot m) True"
        using record_silence_self [OF ok fj Cons.prems(5-7) due, of tick ty] True by blast
      with fold_silence_other [OF keep(1,2) _ out] False show ?thesis by simp
    qed
  next
    case False
    then have in': "c \<in> set cs" using Cons.prems(4) by simp
    then have "ca_id c \<in> ca_id ` set cs" by simp
    then have ne: "ca_id c \<noteq> ca_id a" using Cons.prems(3) by auto
    from Cons.IH [OF keep(1,2) _ in' keep(3) [OF ne Cons.prems(5)] Cons.prems(6)]
      Cons.prems(3,7) record_silence_bound [OF ok] show ?thesis by simp
  qed
qed simp

lemma fold_silence_ok:
  "store_ok (w_db w) \<Longrightarrow> fresh_jobs job w \<Longrightarrow>
   store_ok (w_db (fold (record_silence tick job gonow ty) cs w)) \<and>
   fresh_jobs job (fold (record_silence tick job gonow ty) cs w)"
  by (induction cs arbitrary: w) (simp_all add: record_silence_keeps)

lemma heartbeat_pass_ok:
  assumes "mono tick" and ok: "store_ok (w_db w)" and "fresh_jobs job w"
  shows "\<exists>w'. watchdogHeartbeatPass tick job gonow grace ty w = Some w' \<and> store_ok (w_db w') \<and>
              fresh_jobs job w'"
proof -
  obtain w1 cands where sw: "sweep (scan_heartbeats tick watchdogBatchLimit grace ty) ca_id collect
      watchdogBatchLimit 0 (w, []) = Some (w1, cands)"
    and w1: "w_db w1 = w_db w" "w_tick w \<le> w_tick w1"
    by (rule collect_heartbeats [OF assms(1,2), of grace ty]) blast
  have "fresh_jobs job w1" using assms(3) w1 by (auto simp: fresh_jobs_def)
  with fold_silence_ok [of w1 job tick gonow ty cands] ok w1 sw show ?thesis
    by (simp add: watchdogHeartbeatPass_def)
qed

text \<open>
  Every writer of one monitor's state gives a sweep that ends, keeps the store and draws no
  identifier.
\<close>

sublocale monitor_writer \<subseteq> pass: keyset
  "scan_ids tick watchdogBatchLimit cand" id "step_candidate tick f" watchdogBatchLimit
  "\<lambda>w. m_id ` set (monitors (w_db w))" "\<lambda>w. store_ok (w_db w)" for tick cand
proof (unfold_locales, goal_cases)
  case (3 s r)
  then show ?case using step_ok [of s tick r] step_ids [of s tick r] by simp
next
  case (4 s r c)
  then show ?case using scan_ids_rows by fastforce
qed auto

context monitor_writer
begin

lemma fold_jobs:
  assumes "store_ok (w_db s)" and "fresh_jobs job s"
  shows "fresh_jobs job (fold (step_candidate tick f) rows s)"
  using assms
proof (induction rows arbitrary: s)
  case (Cons r rows)
  have "fresh_jobs job (step_candidate tick f r s)"
    using step_ok [OF Cons.prems(1), of tick r] Cons.prems(2)
    by (auto simp: fresh_jobs_def dest: same_restD(6))
  with Cons step_ok [OF Cons.prems(1), of tick r] show ?case by simp
qed simp

lemma pass_ok:
  assumes ok: "store_ok (w_db w)"
  shows "\<exists>w'. sweep (scan_ids tick watchdogBatchLimit cand) id (step_candidate tick f)
      watchdogBatchLimit c w = Some w' \<and> store_ok (w_db w') \<and> (fresh_jobs job w \<longrightarrow> fresh_jobs job w')"
proof -
  obtain w' where w': "sweep (scan_ids tick watchdogBatchLimit cand) id (step_candidate tick f)
      watchdogBatchLimit c w = Some w'" and ok': "store_ok (w_db w')"
    using pass.sweep_ends [OF ok] by blast
  have "fresh_jobs job (fold (step_candidate tick f) rows s1)"
    if "store_ok (w_db s)" "fresh_jobs job s" "scan_ids tick watchdogBatchLimit cand c s = (rows, s1)"
    for c s rows s1
    using that by (intro fold_jobs) (auto simp: scan_ids_def fresh_jobs_def)
  then have "fresh_jobs job w \<longrightarrow> fresh_jobs job w'"
    using pass.sweep_invariant [of "\<lambda>_. fresh_jobs job", OF _ ok _ w'] by blast
  with w' ok' show ?thesis by blast
qed

end

section \<open>Properties\<close>

text \<open>
  C4. Every monitor without fresh evidence becomes unknown (S-F1). Whatever the number of stale
  monitors, whenever the database clock does not run backwards, the active pass ends, and every
  live active monitor without locations whose last result is older than its freshness window when
  the pass starts is unknown when it ends; the store keeps its invariant.
\<close>

theorem watchdogActivePass_complete:
  assumes "mono tick" and "store_ok (w_db w)" and m: "find_monitor x (w_db w) = Some m"
    and cand: "active_candidate (tick (w_tick w)) (w_db w) m" and x: "0 < x"
  shows "\<exists>w' m'. watchdogActivePass tick w = Some w' \<and> store_ok (w_db w') \<and>
     find_monitor x (w_db w') = Some m' \<and> m_current_state m' = StateUnknown"
proof -
  have inv: "mono tick \<and> store_ok (w_db w)" using assms by simp
  obtain w' where w': "watchdogActivePass tick w = Some w'" "store_ok (w_db w')"
    using active.sweep_ends [OF inv, of 0] by (auto simp: watchdogActivePass_def)
  have "needs_mark tick x w" using m cand by (auto simp: needs_mark_def)
  from active.sweep_complete [OF inv this x w'(1) [unfolded watchdogActivePass_def]] w'
  show ?thesis by (auto simp: is_unknown_def)
qed

theorem watchdogActivePass_complete_witness:
  "\<exists>w' m'. watchdogActivePass (\<lambda>n. secs 1000 + int n)
      \<lparr>w_db = sample_db\<lparr>monitors := [sample_monitor 7 2 1\<lparr>m_current_state := StateUp\<rparr>],
         monitor_locations := [], state_intervals := [sample_interval 7\<lparr>si_state := StateUp\<rparr>]\<rparr>,
       w_tick = 0, w_events = []\<rparr> = Some w' \<and>
     find_monitor 7 (w_db w') = Some m' \<and> m_current_state m' = StateUnknown"
proof -
  let ?m = "sample_monitor 7 2 1\<lparr>m_current_state := StateUp\<rparr>"
  let ?d = "sample_db\<lparr>monitors := [?m], monitor_locations := [],
              state_intervals := [sample_interval 7\<lparr>si_state := StateUp\<rparr>]\<rparr>"
  let ?tick = "\<lambda>n. secs 1000 + int n"
  have "mono ?tick" by (simp add: mono_def)
  moreover have "store_ok ?d"
    by (simp add: store_defs sample_defs tracked_def monitor_timeline_def timeline_ok_def)
  moreover have "find_monitor 7 ?d = Some ?m" by (simp add: find_monitor_def sample_monitor_def)
  moreover have "active_candidate (?tick 0) ?d ?m"
    by (simp add: active_candidate_def live_monitor_def IsPassiveMonitorType_def PassiveMonitorTypes_def
        location_bound_def stale_def last_seen_def sample_monitor_def StaleMultiplier_def MinFreshnessSeconds_def)
  ultimately show ?thesis
    using watchdogActivePass_complete [of ?tick "\<lparr>w_db = ?d, w_tick = 0, w_events = []\<rparr>" 7 ?m] by auto
qed

text \<open>
  The watchdog never declares a monitor with fresh evidence unknown. A monitor that is not
  stale at any instant the pass reads keeps its row untouched through the active pass.
\<close>

theorem watchdogActivePass_spares_the_fresh:
  assumes ok: "store_ok (w_db w)" and m: "find_monitor x (w_db w) = Some m"
    and fresh: "\<And>n. \<not> stale StaleMultiplier MinFreshnessSeconds (tick n) m"
  shows "\<exists>w'. watchdogActivePass tick w = Some w' \<and> find_monitor x (w_db w') = Some m"
proof -
  have step: "find_monitor x (w_db (step_candidate tick markMonitorUnknown r s)) = Some m"
    if ok': "store_ok (w_db s)" and m': "find_monitor x (w_db s) = Some m" for r s
    using ok'
  proof (cases rule: markMonitorUnknown_cases [of _ "tick (w_tick s)" r])
    case skipped
    with m' show ?thesis by (simp add: step_candidate_def)
  next
    case (marked m1 d')
    with m' fresh have "r \<noteq> x" by (auto simp: eligible_def)
    with mark.step_find [OF ok', of x r tick] m' show ?thesis by simp
  qed
  have fold: "find_monitor x (w_db (fold (step_candidate tick markMonitorUnknown) rows s)) = Some m"
    if "store_ok (w_db s)" "find_monitor x (w_db s) = Some m" for rows s
    using that by (induction rows arbitrary: s) (simp_all add: step mark.step_ok)
  obtain w' where w': "watchdogActivePass tick w = Some w'"
    using mark.pass_ok [OF ok, of tick active_candidate 0] by (auto simp: watchdogActivePass_def)
  have "\<exists>c'::uuid. find_monitor x (w_db w') = Some m"
    by (rule mark.pass.sweep_invariant [of "\<lambda>_ s. find_monitor x (w_db s) = Some m",
          OF _ ok m w' [unfolded watchdogActivePass_def]])
       (auto simp: scan_ids_def intro: fold)
  with w' show ?thesis by blast
qed

theorem watchdogActivePass_spares_the_fresh_witness:
  "\<exists>w'. watchdogActivePass (\<lambda>n. secs 80) \<lparr>w_db = sample_db, w_tick = 0, w_events = []\<rparr> = Some w' \<and>
     find_monitor 7 (w_db w') = Some (sample_monitor 7 2 1)"
proof -
  have "\<not> stale StaleMultiplier MinFreshnessSeconds (secs 80) (sample_monitor 7 2 1)"
    by (simp add: stale_def last_seen_def sample_monitor_def StaleMultiplier_def MinFreshnessSeconds_def)
  with watchdogActivePass_spares_the_fresh [of "\<lparr>w_db = sample_db, w_tick = 0, w_events = []\<rparr>" 7
      "sample_monitor 7 2 1" "\<lambda>n. secs 80"] sample_db_ok sample_find(1) show ?thesis by simp
qed

text \<open>
  A monitor whose locations fell silent is re-derived (S-F2, S-A10). The quorum pass ends, and
  every live monitor that has a selected location which is disabled, deleted, never reported or
  stale when the pass starts ends with its state equal to the quorum of the locations that are
  fresh at an instant the pass read; in particular a monitor with no fresh location is unknown.
\<close>

theorem watchdogQuorumPass_complete:
  assumes "mono tick" and "store_ok (w_db w)" and m: "find_monitor x (w_db w) = Some m"
    and cand: "quorum_candidate (tick (w_tick w)) (w_db w) m" and x: "0 < x"
  shows "\<exists>w' m' k. watchdogQuorumPass tick w = Some w' \<and> store_ok (w_db w') \<and>
     find_monitor x (w_db w') = Some m' \<and>
     m_current_state m' = AggregateLocations (counts_of (location_view (tick k) m' (w_db w')))
                            (m_location_quorum m')"
proof -
  have inv: "mono tick \<and> store_ok (w_db w)" using assms by simp
  obtain w' where w': "watchdogQuorumPass tick w = Some w'" "store_ok (w_db w')"
    using quorum.sweep_ends [OF inv, of 0] by (auto simp: watchdogQuorumPass_def)
  have "needs_quorum tick x w" using m cand by (auto simp: needs_quorum_def)
  from quorum.sweep_complete [OF inv this x w'(1) [unfolded watchdogQuorumPass_def]] w'
  show ?thesis by (auto simp: at_quorum_def)
qed

theorem watchdogQuorumPass_complete_witness:
  "\<exists>w' m'. watchdogQuorumPass (\<lambda>n. secs 100) \<lparr>w_db = sample_db, w_tick = 0, w_events = []\<rparr> = Some w' \<and>
     find_monitor 8 (w_db w') = Some m' \<and>
     m_current_state m' = AggregateLocations (counts_of (location_view (secs 100) m' (w_db w')))
                            (m_location_quorum m')"
proof -
  have "mono (\<lambda>n :: nat. secs 100)" by (simp add: mono_def)
  moreover have "quorum_candidate (secs 100) sample_db (sample_monitor 8 1 2)"
    by (simp add: quorum_candidate_def live_monitor_def sample_defs find_location_state_def)
  ultimately show ?thesis
    using watchdogQuorumPass_complete [of "\<lambda>n. secs 100" "\<lparr>w_db = sample_db, w_tick = 0, w_events = []\<rparr>" 8
        "sample_monitor 8 1 2"] sample_db_ok sample_find(2) by auto
qed

text \<open>
  A silent push or agent monitor receives exactly one failing result per run, and only once
  its deadline has passed (S-F4). For every live monitor of the type, without locations, whose
  reports are overdue when the pass starts, the pass leaves the row as it was when the scheduler's
  clock has not reached the last report plus the window (interval plus grace for push, the
  freshness horizon for agents), and otherwise applies one failure of the temporal machine,
  whatever the evidence clock of the reporter said.
\<close>

theorem watchdogHeartbeatPass_records_silence_once:
  assumes "mono tick" and ok: "store_ok (w_db w)" and fj: "fresh_jobs job w"
    and m: "find_monitor x (w_db w) = Some m" and x: "0 < x"
    and cand: "heartbeat_candidate ty (tick (w_tick w)) (w_db w) m"
    and nb: "\<not> location_bound x (w_db w)"
  shows "\<exists>w' m'. watchdogHeartbeatPass tick job gonow grace ty w = Some w' \<and>
     find_monitor x (w_db w') = Some m' \<and>
     (if gonow < last_seen m + secs (heartbeat_window grace ty m) then m' = m
      else monitor_snapshot m' =
           stream_step (m_consecutive_failures_threshold m) (monitor_snapshot m) True)"
proof -
  obtain w1 cands where sw: "sweep (scan_heartbeats tick watchdogBatchLimit grace ty) ca_id collect
      watchdogBatchLimit 0 (w, []) = Some (w1, cands)"
    and w1: "w_db w1 = w_db w" "w_tick w \<le> w_tick w1" and dist: "distinct (map ca_id cands)"
    and src: "set cands \<subseteq> to_candidate grace ty ` set (monitors (w_db w))"
    and all: "\<And>y. 0 < y \<Longrightarrow> silent tick ty y (w, []) \<Longrightarrow> y \<in> ca_id ` set cands"
    by (rule collect_heartbeats [OF assms(1,2), of grace ty]) blast
  have "silent tick ty x (w, [])" using m cand by (auto simp: silent_def)
  from all [OF x this] obtain c where c: "c \<in> set cands" and cx: "ca_id c = x" by auto
  with src obtain m1 where m1: "m1 \<in> set (monitors (w_db w))" "c = to_candidate grace ty m1" by blast
  with cx m ok have "m1 = m" by (metis find_monitor_unique option.inject to_candidate_id)
  then have cm: "c = to_candidate grace ty m" by (simp add: m1)
  have fj1: "fresh_jobs job w1" using fj w1 by (auto simp: fresh_jobs_def)
  have "ca_tenantID c = m_tenant_id m" by (simp add: cm to_candidate_def)
  then obtain m' where "find_monitor (ca_id c)
      (w_db (fold (record_silence tick job gonow ty) cands w1)) = Some m'"
    and "if gonow < ca_deadline c then m' = m else monitor_snapshot m' =
         stream_step (m_consecutive_failures_threshold m) (monitor_snapshot m) True"
    using fold_silence [of w1 job cands c m tick gonow ty] ok fj1 dist c m nb cx w1(1) by auto
  moreover have "ca_deadline c = last_seen m + secs (heartbeat_window grace ty m)"
    by (simp add: cm to_candidate_def)
  ultimately show ?thesis using sw cx by (auto simp: watchdogHeartbeatPass_def)
qed

theorem watchdogHeartbeatPass_records_silence_once_witness:
  "\<exists>w' m'. watchdogHeartbeatPass (\<lambda>n. secs 500) (\<lambda>n. 1000 + n) (secs 90) (\<lambda>_. Some 30) ''push''
       \<lparr>w_db = sample_db\<lparr>monitors := [sample_monitor 7 2 1\<lparr>m_type := ''push''\<rparr>],
          monitor_locations := [], state_intervals := [sample_interval 7]\<rparr>,
        w_tick = 0, w_events = []\<rparr> = Some w' \<and>
     find_monitor 7 (w_db w') = Some m' \<and> snap_State (monitor_snapshot m') = StateSuspect"
proof -
  let ?m = "sample_monitor 7 2 1\<lparr>m_type := ''push''\<rparr>"
  let ?d = "sample_db\<lparr>monitors := [?m], monitor_locations := [], state_intervals := [sample_interval 7]\<rparr>"
  let ?w = "\<lparr>w_db = ?d, w_tick = 0, w_events = []\<rparr>"
  have "mono (\<lambda>n :: nat. secs 500)" by (simp add: mono_def)
  moreover have "store_ok (w_db ?w)"
    by (simp add: store_defs sample_defs tracked_def monitor_timeline_def timeline_ok_def)
  moreover have "fresh_jobs (\<lambda>n. 1000 + n) ?w" by (simp add: fresh_jobs_def sample_db_def inj_def)
  moreover have "find_monitor 7 (w_db ?w) = Some ?m" by (simp add: find_monitor_def sample_monitor_def)
  moreover have "heartbeat_candidate ''push'' ((\<lambda>n :: nat. secs 500) (w_tick ?w)) (w_db ?w) ?m"
    by (simp add: heartbeat_candidate_def live_monitor_def heartbeat_stale_def stale_def last_seen_def
        sample_monitor_def)
  moreover have "\<not> location_bound 7 (w_db ?w)" by (simp add: location_bound_def)
  ultimately obtain w' m' where "watchdogHeartbeatPass (\<lambda>n. secs 500) (\<lambda>n. 1000 + n) (secs 90)
      (\<lambda>_. Some 30) ''push'' ?w = Some w'" "find_monitor 7 (w_db w') = Some m'"
    "if secs 90 < last_seen ?m + secs (heartbeat_window (\<lambda>_. Some 30) ''push'' ?m) then m' = ?m
     else monitor_snapshot m' = stream_step (m_consecutive_failures_threshold ?m) (monitor_snapshot ?m) True"
    using watchdogHeartbeatPass_records_silence_once [of "\<lambda>n. secs 500" ?w "\<lambda>n. 1000 + n" 7 ?m "''push''"
        "secs 90" "\<lambda>_. Some 30"] by auto
  then show ?thesis
    by (auto simp: last_seen_def heartbeat_window_def sample_monitor_def monitor_snapshot_def eff_threshold_def
        stream_step_def next_snapshot_def)
qed

text \<open>
  C32. A watchdog run ends and keeps the store. For every database that satisfies the invariant and
  every non-decreasing database clock, all four passes return, whatever number of pages each
  takes, and the invariant holds afterwards; with the advisory lock taken elsewhere nothing is
  touched.
\<close>

theorem runWatchdog_ends:
  assumes mono: "mono tick" and ok: "store_ok (w_db w)" and fj: "fresh_jobs job w"
  shows "\<exists>w'. runWatchdog locked tick job gonow1 gonow2 grace w = Some w' \<and> store_ok (w_db w') \<and>
              (\<not> locked \<longrightarrow> w' = w)"
proof (cases locked)
  case True
  obtain w1 where 1: "watchdogActivePass tick w = Some w1" "store_ok (w_db w1)" "fresh_jobs job w1"
    using mark.pass_ok [OF ok, of tick active_candidate 0 job] fj by (auto simp: watchdogActivePass_def)
  obtain w2 where 2: "watchdogQuorumPass tick w1 = Some w2" "store_ok (w_db w2)" "fresh_jobs job w2"
    using reaggregate.pass_ok [OF 1(2), of tick quorum_candidate 0 job] 1(3)
    by (auto simp: watchdogQuorumPass_def)
  obtain w3 where 3: "watchdogHeartbeatPass tick job gonow1 grace ''push'' w2 = Some w3"
      "store_ok (w_db w3)" "fresh_jobs job w3"
    using heartbeat_pass_ok [OF mono 2(2,3)] by blast
  obtain w4 where "watchdogHeartbeatPass tick job gonow2 grace ''agent'' w3 = Some w4" "store_ok (w_db w4)"
    using heartbeat_pass_ok [OF mono 3(2,3)] by blast
  with True 1 2 3 show ?thesis by (simp add: runWatchdog_def)
next
  case False
  with ok show ?thesis by (simp add: runWatchdog_def)
qed

theorem runWatchdog_ends_witness:
  "\<exists>w'. runWatchdog True (\<lambda>n. int n) (\<lambda>n. 1000 + n) 5 6 (\<lambda>_. None)
     \<lparr>w_db = sample_db, w_tick = 0, w_events = []\<rparr> = Some w' \<and> store_ok (w_db w')"
proof -
  have "mono (\<lambda>n. int n)" by (simp add: mono_def)
  moreover have "fresh_jobs (\<lambda>n. 1000 + n) \<lparr>w_db = sample_db, w_tick = 0, w_events = []\<rparr>"
    by (simp add: fresh_jobs_def sample_db_def inj_def)
  ultimately show ?thesis
    using runWatchdog_ends [of "\<lambda>n. int n" "\<lparr>w_db = sample_db, w_tick = 0, w_events = []\<rparr>" "\<lambda>n. 1000 + n"
        True 5 6 "\<lambda>_. None"] sample_db_ok by simp
qed

end
