(* ===== verification/Administration.thy ===== *)
theory Administration
  imports Watchdog
begin

text \<open>
  The administrative writers of monitor state: creation, pause and resume, the set of a monitor's
  locations, soft and hard deletion (\<open>api/internal/services/monitors/repository.go\<close>), and the
  deletion of a location (\<open>api/internal/services/locations/service.go\<close>). Each is one transaction.
\<close>

datatype api_error = NotFound | LocationsNotFound | DbError db_error

definition liftDb :: "db_error + 'a \<Rightarrow> api_error + 'a" where
  "liftDb m = (case m of Inl e \<Rightarrow> Inl (DbError e) | Inr x \<Rightarrow> Inr x)"

lemma liftDb_simps [simp]: "liftDb (Inl e) = Inl (DbError e)" "liftDb (Inr x) = Inr x"
  by (simp_all add: liftDb_def)

section \<open>Monitors\<close>

text \<open>
  The inserted row: the columns the statement lists come from the caller, the state columns have
  their defaults. \<open>checks\<close> stands for the CHECK constraints of the table on the caller's columns.
\<close>

definition new_monitor_row :: "monitor \<Rightarrow> monitor" where
  "new_monitor_row m = m\<lparr>m_deleted_at := None, m_current_state := StateUnknown,
     m_consecutive_failures := 0, m_last_state_change_at := None, m_last_result_at := None,
     m_last_result_started_at := None\<rparr>"

definition Create :: "(monitor \<Rightarrow> bool) \<Rightarrow> time \<Rightarrow> monitor \<Rightarrow> db \<Rightarrow> db_error + db" where
  "Create checks now monitor d =
     (let m = new_monitor_row monitor in
      if \<not> checks m then Inl CheckViolation
      else if find_monitor (m_id m) d \<noteq> None then Inl UniqueViolation
      else if m_tenant_id m \<notin> set (tenants d) then Inl ForeignKeyViolation
      else
        let d1 = d\<lparr>monitors := monitors d @ [m]\<rparr> in
        if m_type m \<noteq> ''group'' then
          RecordIntervalTx now (m_tenant_id m) (m_id m) (m_current_state m) ''created'' d1
        else Inr d1)"

definition tenant_monitor :: "uuid \<Rightarrow> uuid \<Rightarrow> db \<Rightarrow> monitor option" where
  "tenant_monitor tenantID mid d =
     (case find_monitor mid d of
        None \<Rightarrow> None
      | Some m \<Rightarrow> if m_tenant_id m = tenantID then Some m else None)"

definition Delete :: "time \<Rightarrow> uuid \<Rightarrow> uuid \<Rightarrow> db \<Rightarrow> api_error + db" where
  "Delete now tenantID mid d =
     (case tenant_monitor tenantID mid d of
        None \<Rightarrow> Inl NotFound
      | Some m \<Rightarrow>
          if m_deleted_at m \<noteq> None then Inl NotFound
          else Inr (update_monitor mid (\<lambda>m. m\<lparr>m_deleted_at := Some now, m_updated_at := now\<rparr>) d))"

definition BulkSoftDelete :: "time \<Rightarrow> uuid \<Rightarrow> uuid list \<Rightarrow> db \<Rightarrow> int \<times> db" where
  "BulkSoftDelete now tenantID monitorIDs d =
     (if monitorIDs = [] then (0, d)
      else
        let p = (\<lambda>m. m_tenant_id m = tenantID \<and> m_id m \<in> set monitorIDs \<and> m_deleted_at m = None) in
        (int (length (filter p (monitors d))),
         d\<lparr>monitors := sql_update p (\<lambda>m. m\<lparr>m_deleted_at := Some now, m_updated_at := now\<rparr>) (monitors d)\<rparr>))"

text \<open>The monitor row and, through \<open>ON DELETE CASCADE\<close>, every row that references it.\<close>

definition HardDelete :: "uuid \<Rightarrow> db \<Rightarrow> db" where
  "HardDelete mid d = d\<lparr>
     monitors := sql_delete (\<lambda>m. m_id m = mid) (monitors d),
     monitor_locations := sql_delete (\<lambda>ml. fst ml = mid) (monitor_locations d),
     location_states := sql_delete (\<lambda>s. mls_monitor_id s = mid) (location_states d),
     check_results := sql_delete (\<lambda>c. cr_monitor_id c = mid) (check_results d),
     rollup_dirty := sql_delete (\<lambda>k. rd_monitor_id k = mid) (rollup_dirty d),
     state_intervals := sql_delete (\<lambda>i. si_monitor_id i = mid) (state_intervals d)\<rparr>"

definition toggle_monitor :: "time \<Rightarrow> bool \<Rightarrow> monitor \<Rightarrow> monitor" where
  "toggle_monitor now enabled m = m\<lparr>m_enabled := enabled, m_current_state := StateUnknown,
     m_consecutive_failures := 0, m_last_state_change_at := Some now, m_updated_at := now\<rparr>"

definition SetEnabled :: "time \<Rightarrow> uuid \<Rightarrow> uuid \<Rightarrow> bool \<Rightarrow> db \<Rightarrow> api_error + db" where
  "SetEnabled now tenantID mid enabled d =
     (case tenant_monitor tenantID mid d of
        None \<Rightarrow> Inl NotFound
      | Some m \<Rightarrow>
          if m_enabled m = enabled then Inr d
          else
            let d1 = update_monitor mid (toggle_monitor now enabled) d;
                d2 = d1\<lparr>location_states := sql_delete (\<lambda>s. mls_monitor_id s = mid) (location_states d1)\<rparr> in
            if m_type m \<noteq> ''group'' then
              liftDb (RecordIntervalTx now tenantID mid StateUnknown
                        (if enabled then ''resume'' else ''pause'') d2)
            else Inr d2)"

definition reset_monitor :: "time \<Rightarrow> monitor \<Rightarrow> monitor" where
  "reset_monitor now m = m\<lparr>m_current_state := StateUnknown, m_consecutive_failures := 0,
                           m_updated_at := now\<rparr>"

text \<open>The two deletes and the inserts: the membership rows and the state rows that remain.\<close>

definition with_locations :: "uuid \<Rightarrow> uuid list \<Rightarrow> db \<Rightarrow> db" where
  "with_locations mid ls d = d\<lparr>
     monitor_locations := insert_missing id
       (sql_delete (\<lambda>(a, l). a = mid \<and> l \<notin> set ls) (monitor_locations d)) (map (Pair mid) ls),
     location_states := sql_delete (\<lambda>s. mls_monitor_id s = mid \<and> mls_location_id s \<notin> set ls)
       (location_states d)\<rparr>"

definition SetLocations :: "time \<Rightarrow> uuid \<Rightarrow> uuid \<Rightarrow> uuid list \<Rightarrow> db \<Rightarrow> api_error + db" where
  "SetLocations now tenantID mid locationIDs d =
     (case tenant_monitor tenantID mid d of
        None \<Rightarrow> Inl NotFound
      | Some m \<Rightarrow>
          if locationIDs \<noteq> [] \<and>
             length (filter (\<lambda>l. l_id l \<in> set locationIDs \<and> l_tenant_id l = tenantID \<and>
                                 l_deleted_at l = None) (locations d)) \<noteq> length locationIDs
          then Inl LocationsNotFound
          else
            let d2 = with_locations mid locationIDs d in
            if locationIDs \<noteq> [] then Inr d2
            else
              let d3 = update_monitor mid (reset_monitor now) d2 in
              if m_current_state m \<noteq> StateUnknown then
                liftDb (RecordIntervalTx now tenantID mid StateUnknown ''location_change'' d3)
              else Inr d3)"

section \<open>Locations\<close>

text \<open>
  The statements of \<open>Create\<close> and \<open>Update\<close> (\<open>locations/service.go\<close>), on columns that passed the
  validation of the request: the partial unique index on the tenant and \<open>lower(name)\<close> of the
  locations that are not deleted is checked, and a new location is enabled. \<open>lower\<close> is the
  database's function on the text of a name.
\<close>

definition name_taken :: "(string \<Rightarrow> string) \<Rightarrow> uuid \<Rightarrow> uuid \<Rightarrow> string \<Rightarrow> db \<Rightarrow> bool" where
  "name_taken lower tenantID lid name d \<longleftrightarrow>
     list_ex (\<lambda>l. l_id l \<noteq> lid \<and> l_tenant_id l = tenantID \<and> l_deleted_at l = None \<and>
                  lower (l_name l) = lower name) (locations d)"

definition CreateLocation ::
    "(string \<Rightarrow> string) \<Rightarrow> uuid \<Rightarrow> uuid \<Rightarrow> string \<Rightarrow> string option \<Rightarrow> string \<Rightarrow> db \<Rightarrow> db_error + db" where
  "CreateLocation lower lid tenantID name meshEndpoint credential d =
     (if lid \<in> l_id ` set (locations d) \<or> name_taken lower tenantID lid name d then Inl UniqueViolation
      else if tenantID \<notin> set (tenants d) then Inl ForeignKeyViolation
      else Inr (d\<lparr>locations := locations d @
        [\<lparr>l_id = lid, l_tenant_id = tenantID, l_name = name, l_enabled = True, l_deleted_at = None,
          l_worker_credential = Some credential, l_mesh_endpoint = meshEndpoint\<rparr>]\<rparr>))"

definition UpdateLocation ::
    "(string \<Rightarrow> string) \<Rightarrow> uuid \<Rightarrow> uuid \<Rightarrow> string \<Rightarrow> bool \<Rightarrow> string option \<Rightarrow> db \<Rightarrow> db_error + db" where
  "UpdateLocation lower tenantID lid name enabled meshEndpoint d =
     (let p = (\<lambda>l. l_id l = lid \<and> l_tenant_id l = tenantID \<and> l_deleted_at l = None) in
      if list_ex p (locations d) \<and> name_taken lower tenantID lid name d then Inl UniqueViolation
      else Inr (d\<lparr>locations := sql_update p (\<lambda>l. l\<lparr>l_name := name, l_enabled := enabled,
                                               l_mesh_endpoint := meshEndpoint\<rparr>) (locations d)\<rparr>))"

definition remaining_locations :: "uuid \<Rightarrow> db \<Rightarrow> int" where
  "remaining_locations mid d = int (length (filter (\<lambda>ml. fst ml = mid) (monitor_locations d)))"

definition clamp_monitor :: "time \<Rightarrow> db \<Rightarrow> monitor \<Rightarrow> monitor" where
  "clamp_monitor now d m =
     (let remaining = remaining_locations (m_id m) d in
      m\<lparr>m_location_quorum := max 1 (min (m_location_quorum m) remaining),
        m_current_state := (if remaining = 0 then StateUnknown else m_current_state m),
        m_consecutive_failures := (if remaining = 0 then 0 else m_consecutive_failures m),
        m_updated_at := now\<rparr>)"

text \<open>The database after the child rows are gone and before the monitors are clamped.\<close>

definition without_location :: "time \<Rightarrow> uuid \<Rightarrow> uuid \<Rightarrow> db \<Rightarrow> db" where
  "without_location now tid lid d = d\<lparr>
     locations := sql_update (\<lambda>l. l_id l = lid \<and> l_tenant_id l = tid \<and> l_deleted_at l = None)
       (\<lambda>l. l\<lparr>l_deleted_at := Some now\<rparr>) (locations d),
     monitor_locations := sql_delete (\<lambda>ml. snd ml = lid) (monitor_locations d),
     location_states := sql_delete (\<lambda>s. mls_location_id s = lid) (location_states d)\<rparr>"

definition affected_by :: "uuid \<Rightarrow> db \<Rightarrow> monitor \<Rightarrow> bool" where
  "affected_by lid d m \<longleftrightarrow> (m_id m, lid) \<in> set (monitor_locations d)"

definition DeleteLocation :: "time \<Rightarrow> uuid \<Rightarrow> uuid \<Rightarrow> db \<Rightarrow> api_error + (int \<times> db)" where
  "DeleteLocation now tenantID lid d =
     (if \<not> list_ex (\<lambda>l. l_id l = lid \<and> l_tenant_id l = tenantID \<and> l_deleted_at l = None) (locations d)
      then Inl NotFound
      else
        let affected = sort (map m_id (filter (affected_by lid d) (monitors d)));
            d2 = without_location now tenantID lid d;
            resetIDs = map m_id (filter (\<lambda>m. m_id m \<in> set affected \<and>
                                             m_current_state m \<noteq> StateUnknown \<and>
                                             \<not> location_bound (m_id m) d2) (monitors d2));
            d3 = d2\<lparr>monitors := sql_update (\<lambda>m. m_id m \<in> set affected) (clamp_monitor now d2) (monitors d2)\<rparr> in
        bindE (liftDb (RecordIntervalsTx now resetIDs StateUnknown ''location_change'' d3))
              (\<lambda>d4. Inr (int (length affected), d4)))"

section \<open>The bulk timeline statement\<close>

lemma insert_intervals_all:
  assumes "distinct (map si_monitor_id new)"
    and "\<And>i. i \<in> set new \<Longrightarrow> si_reason i \<in> set IntervalReasons \<and>
           \<not> list_ex (open_of (si_monitor_id i)) (state_intervals d) \<and>
           find_monitor (si_monitor_id i) d \<noteq> None \<and> si_tenant_id i \<in> set (tenants d)"
  shows "insert_intervals new d = Inr (d\<lparr>state_intervals := state_intervals d @ new\<rparr>)"
  using assms
proof (induction new arbitrary: d)
  case (Cons i new)
  let ?d = "d\<lparr>state_intervals := state_intervals d @ [i]\<rparr>"
  have "insert_interval i d = Inr ?d" using Cons.prems(2) [of i] by (simp add: insert_interval_def)
  moreover have "insert_intervals new ?d = Inr (?d\<lparr>state_intervals := state_intervals ?d @ new\<rparr>)"
  proof (rule Cons.IH)
    show "distinct (map si_monitor_id new)" using Cons.prems(1) by simp
    fix j assume j: "j \<in> set new"
    then have "si_monitor_id j \<in> si_monitor_id ` set new" by simp
    then have "si_monitor_id j \<noteq> si_monitor_id i" using Cons.prems(1) by auto
    with Cons.prems(2) [of j] j show "si_reason j \<in> set IntervalReasons \<and>
           \<not> list_ex (open_of (si_monitor_id j)) (state_intervals ?d) \<and>
           find_monitor (si_monitor_id j) ?d \<noteq> None \<and> si_tenant_id j \<in> set (tenants ?d)"
      by (auto simp: find_monitor_def)
  qed
  ultimately show ?case by simp
qed simp

text \<open>
  On well-formed timelines the statement is \<open>RecordIntervalTx\<close> for each of the monitors at once:
  it closes what is open and appends one interval per monitor.
\<close>

definition bulk_new :: "time \<Rightarrow> uuid list \<Rightarrow> State \<Rightarrow> string \<Rightarrow> db \<Rightarrow> state_interval list" where
  "bulk_new now ids s reason d =
     map (\<lambda>m. new_interval now (m_tenant_id m) (m_id m) s reason (monitor_timeline (m_id m) d))
         (filter (\<lambda>m. m_id m \<in> set ids) (monitors d))"

lemma bulk_starts:
  assumes tl: "timeline_ok (monitor_timeline (m_id m) d)" and m: "m_id m \<in> set ids"
  shows "(case filter (\<lambda>i. si_monitor_id i = m_id m)
             (filter (\<lambda>i. si_monitor_id i \<in> set ids \<and> si_ended_at i = None) (state_intervals d)) of
            [] \<Rightarrow> [now] | xs \<Rightarrow> map (\<lambda>i. max now (si_started_at i)) xs) =
         [si_started_at (new_interval now t (m_id m) s reason (monitor_timeline (m_id m) d))]"
proof -
  have "filter (\<lambda>i. si_monitor_id i = m_id m)
          (filter (\<lambda>i. si_monitor_id i \<in> set ids \<and> si_ended_at i = None) (state_intervals d)) =
        filter (open_of (m_id m)) (state_intervals d)"
    using m unfolding filter_filter by (intro filter_cong) auto
  also have "\<dots> = (if monitor_timeline (m_id m) d = [] then [] else [last (monitor_timeline (m_id m) d)])"
    using timeline_open [OF tl] by (simp only: open_of_timeline)
  finally show ?thesis by (simp add: new_interval_def)
qed

lemma new_interval_record:
  "\<lparr>si_tenant_id = t, si_monitor_id = mid, si_state = s, si_reason = r,
    si_started_at = si_started_at (new_interval now t mid s r ivs), si_ended_at = None\<rparr> =
   new_interval now t mid s r ivs"
  by (simp add: new_interval_def)

lemma RecordIntervalsTx_eq:
  assumes tl: "\<And>mid. timeline_ok (monitor_timeline mid d)" and k: "distinct (map m_id (monitors d))"
    and t: "\<And>m. m \<in> set (monitors d) \<Longrightarrow> m_tenant_id m \<in> set (tenants d)"
    and r: "reason \<in> set IntervalReasons"
  shows "RecordIntervalsTx now ids s reason d = Inr (d\<lparr>state_intervals :=
      sql_update (\<lambda>i. si_monitor_id i \<in> set ids \<and> si_ended_at i = None) (close_interval now)
        (state_intervals d) @ bulk_new now ids s reason d\<rparr>)"
proof (cases "ids = []")
  case True
  have "sql_update (\<lambda>_. False) f xs = xs" for f :: "state_interval \<Rightarrow> state_interval" and xs
    by (induction xs) simp_all
  with True show ?thesis by (simp add: RecordIntervalsTx_def bulk_new_def)
next
  case False
  let ?open = "\<lambda>i. si_monitor_id i \<in> set ids \<and> si_ended_at i = None"
  let ?ms = "filter (\<lambda>m. m_id m \<in> set ids) (monitors d)"
  let ?d1 = "d\<lparr>state_intervals := sql_update ?open (close_interval now) (state_intervals d)\<rparr>"
  have rows: "concat (map (\<lambda>m. map (\<lambda>st. \<lparr>si_tenant_id = m_tenant_id m, si_monitor_id = m_id m,
        si_state = s, si_reason = reason, si_started_at = st, si_ended_at = None\<rparr>)
      (case filter (\<lambda>i. si_monitor_id i = m_id m) (filter ?open (state_intervals d)) of
         [] \<Rightarrow> [now] | xs \<Rightarrow> map (\<lambda>i. max now (si_started_at i)) xs)) ?ms) = bulk_new now ids s reason d"
  proof -
    have "map (\<lambda>st. \<lparr>si_tenant_id = m_tenant_id m, si_monitor_id = m_id m,
        si_state = s, si_reason = reason, si_started_at = st, si_ended_at = None\<rparr>)
      (case filter (\<lambda>i. si_monitor_id i = m_id m) (filter ?open (state_intervals d)) of
         [] \<Rightarrow> [now] | xs \<Rightarrow> map (\<lambda>i. max now (si_started_at i)) xs) =
      [new_interval now (m_tenant_id m) (m_id m) s reason (monitor_timeline (m_id m) d)]"
      if "m \<in> set ?ms" for m
      using that bulk_starts [OF tl, of m ids now "m_tenant_id m" s reason]
      by (simp add: new_interval_record del: filter_filter)
    then show ?thesis unfolding bulk_new_def by (rule concat_map_single)
  qed
  have "insert_intervals (bulk_new now ids s reason d) ?d1 =
      Inr (?d1\<lparr>state_intervals := state_intervals ?d1 @ bulk_new now ids s reason d\<rparr>)"
  proof (rule insert_intervals_all)
    show "distinct (map si_monitor_id (bulk_new now ids s reason d))"
      using k by (simp add: bulk_new_def comp_def distinct_map_filter)
    fix i assume "i \<in> set (bulk_new now ids s reason d)"
    then obtain m where m: "m \<in> set (monitors d)" "m_id m \<in> set ids"
      and i: "i = new_interval now (m_tenant_id m) (m_id m) s reason (monitor_timeline (m_id m) d)"
      by (auto simp: bulk_new_def)
    have "\<not> list_ex (open_of (m_id m)) (state_intervals ?d1)"
      using m(2) by (auto simp: list_ex_iff set_sql_update)
    moreover have "find_monitor (m_id m) ?d1 \<noteq> None" using m by (auto simp: find_monitor_None)
    ultimately show "si_reason i \<in> set IntervalReasons \<and>
        \<not> list_ex (open_of (si_monitor_id i)) (state_intervals ?d1) \<and>
        find_monitor (si_monitor_id i) ?d1 \<noteq> None \<and> si_tenant_id i \<in> set (tenants ?d1)"
      using m(1) t r by (simp add: i)
  qed
  with False show ?thesis unfolding RecordIntervalsTx_def Let_def rows by simp
qed

lemma bulk_timeline:
  assumes k: "distinct (map m_id (monitors d))"
  shows "monitor_timeline mid (d\<lparr>state_intervals :=
      sql_update (\<lambda>i. si_monitor_id i \<in> set ids \<and> si_ended_at i = None) (close_interval now)
        (state_intervals d) @ bulk_new now ids s reason d\<rparr>) =
    (case find_monitor mid d of
       Some m \<Rightarrow> if mid \<in> set ids
                then extended now (m_tenant_id m) mid s reason (monitor_timeline mid d)
                else monitor_timeline mid d
     | None \<Rightarrow> sql_update (\<lambda>i. mid \<in> set ids \<and> si_ended_at i = None) (close_interval now)
                 (monitor_timeline mid d))"
proof -
  have upd: "filter (\<lambda>i. si_monitor_id i = mid)
      (sql_update (\<lambda>i. si_monitor_id i \<in> set ids \<and> si_ended_at i = None) (close_interval now) xs) =
    sql_update (\<lambda>i. mid \<in> set ids \<and> si_ended_at i = None) (close_interval now)
      (filter (\<lambda>i. si_monitor_id i = mid) xs)" for xs
    by (induction xs) auto
  have new: "filter (\<lambda>i. si_monitor_id i = mid) (bulk_new now ids s reason d) =
    (case find_monitor mid d of
       Some m \<Rightarrow> if mid \<in> set ids
                then [new_interval now (m_tenant_id m) mid s reason (monitor_timeline mid d)] else []
     | None \<Rightarrow> [])"
  proof -
    have "filter (\<lambda>i. si_monitor_id i = mid) (map (\<lambda>m. new_interval now (m_tenant_id m) (m_id m) s reason
        (monitor_timeline (m_id m) d)) (filter (\<lambda>m. m_id m \<in> set ids) ms)) =
      (case find (\<lambda>m. m_id m = mid) ms of
         Some m \<Rightarrow> if mid \<in> set ids
                  then [new_interval now (m_tenant_id m) mid s reason (monitor_timeline mid d)] else []
       | None \<Rightarrow> [])" if "distinct (map m_id ms)" for ms
      using that
    proof (induction ms)
      case (Cons m ms)
      have none: "find (\<lambda>x. m_id x = mid) ms = None" if "m_id m = mid"
      proof -
        have "mid \<notin> m_id ` set ms" using Cons.prems that by auto
        then show ?thesis unfolding find_None_iff by blast
      qed
      with Cons show ?case by auto
    qed simp
    with k show ?thesis by (simp add: bulk_new_def find_monitor_def)
  qed
  have id: "sql_update (\<lambda>_. False) f xs = xs" for f :: "state_interval \<Rightarrow> state_interval" and xs
    by (induction xs) simp_all
  show ?thesis
    by (simp add: monitor_timeline_def upd new extended_def id split: option.split)
qed

section \<open>Bulk writes of state\<close>

text \<open>
  An update of several monitor rows, followed by the bulk statement for a list that holds exactly
  the monitors whose state it changed, keeps the store.
\<close>

lemma bulk_state_ok:
  assumes ok: "store_ok d" and f: "keeps_identity f" and r: "reason \<in> set IntervalReasons"
    and ids: "\<And>m. m \<in> set (monitors d) \<Longrightarrow>
      if m_id m \<in> set ids then p m \<and> m_current_state (f m) = s
      else p m \<longrightarrow> m_current_state (f m) = m_current_state m"
  obtains d' where "RecordIntervalsTx now ids s reason
      (d\<lparr>monitors := sql_update p f (monitors d)\<rparr>) = Inr d'" and "store_ok d'"
    and "d' = d\<lparr>monitors := sql_update p f (monitors d), state_intervals := state_intervals d'\<rparr>"
    and "\<And>mid m. find_monitor mid d = Some m \<Longrightarrow> monitor_timeline mid d' =
          (if mid \<in> set ids then extended now (m_tenant_id m) mid s reason (monitor_timeline mid d)
           else monitor_timeline mid d)"
proof -
  let ?ms = "sql_update p f (monitors d)"
  let ?u = "d\<lparr>monitors := ?ms\<rparr>"
  have k: "map m_id ?ms = map m_id (monitors d)" by (rule map_sql_update) (simp add: f)
  have tenants: "m_tenant_id m \<in> set (tenants d)" if "m \<in> set ?ms" for m
    using that ok f by (auto simp: set_sql_update store_okD)
  let ?d' = "?u\<lparr>state_intervals := sql_update (\<lambda>i. si_monitor_id i \<in> set ids \<and> si_ended_at i = None)
      (close_interval now) (state_intervals ?u) @ bulk_new now ids s reason ?u\<rparr>"
  have rec: "RecordIntervalsTx now ids s reason ?u = Inr ?d'"
    by (rule RecordIntervalsTx_eq) (use ok k tenants r in \<open>simp_all add: store_okD\<close>)
  have find: "find_monitor mid ?u = map_option (\<lambda>m. if p m then f m else m) (find_monitor mid d)" for mid
    unfolding find_monitor_def by (simp add: find_sql_update f)
  have tl: "monitor_timeline mid ?d' =
      (if mid \<in> set ids then extended now (m_tenant_id m) mid s reason (monitor_timeline mid d)
       else monitor_timeline mid d)" if "find_monitor mid d = Some m" for mid m
    using that f bulk_timeline [of ?u mid ids now s reason] k ok
    by (simp add: find store_okD split: if_splits)
  have none: "monitor_timeline mid d = []" if "find_monitor mid d = None" for mid
    using ok that by (auto simp: store_defs find_monitor_None monitor_timeline_def filter_empty_conv)
  have "timelines_ok ?d'"
  proof -
    have "timeline_ok (monitor_timeline mid ?d')" for mid
    proof (cases "find_monitor mid d")
      case None
      with bulk_timeline [of ?u mid ids now s reason] k ok none show ?thesis
        by (simp add: find store_okD)
    next
      case (Some m)
      with tl [OF Some] ok show ?thesis by (simp add: extended_ok store_okD)
    qed
    moreover have "tracked ?d' m'" if in': "m' \<in> set ?ms" and g: "m_type m' \<noteq> ''group''" for m'
    proof -
      obtain m where m: "m \<in> set (monitors d)" and m': "m' = (if p m then f m else m)"
        using in' by (auto simp: set_sql_update)
      have fm: "find_monitor (m_id m) d = Some m" using ok m by (simp add: find_monitor_unique)
      have id: "m_id m' = m_id m" "m_type m' = m_type m" using f by (simp_all add: m')
      show ?thesis
        using tl [OF fm] ids [OF m] store_okD(2) [OF ok m] g id m'
        by (auto simp: tracked_def split: if_splits)
    qed
    ultimately show ?thesis by (simp add: timelines_ok_def)
  qed
  moreover have "keys_ok ?d'" using ok k by (simp add: store_defs)
  moreover have "refs_ok ?d'"
  proof -
    have ids': "m_id ` set ?ms = m_id ` set (monitors d)" using arg_cong [OF k, of set] by simp
    have "si_monitor_id i \<in> m_id ` set (monitors d)" if "i \<in> set (state_intervals ?d')" for i
      using that ok ids' by (auto simp: store_defs set_sql_update bulk_new_def split: if_splits)
    with ok ids' tenants show ?thesis by (simp add: store_defs)
  qed
  ultimately have "store_ok ?d'" by (simp add: store_ok_def)
  then show thesis using rec tl by (intro that [of ?d']) simp_all
qed

section \<open>Every administrative operation keeps the store\<close>

lemma admin_reasons [simp]:
  "''created'' \<in> set IntervalReasons" "''pause'' \<in> set IntervalReasons"
  "''resume'' \<in> set IntervalReasons" "''location_change'' \<in> set IntervalReasons"
  by (simp_all add: IntervalReasons_def)

lemma new_monitor_row_simps [simp]:
  "m_id (new_monitor_row m) = m_id m" "m_tenant_id (new_monitor_row m) = m_tenant_id m"
  "m_type (new_monitor_row m) = m_type m" "m_current_state (new_monitor_row m) = StateUnknown"
  by (simp_all add: new_monitor_row_def)

text \<open>A monitor that is not in the table has no timeline.\<close>

lemma no_timeline: "store_ok d \<Longrightarrow> find_monitor mid d = None \<Longrightarrow> monitor_timeline mid d = []"
  by (auto simp: store_defs find_monitor_None monitor_timeline_def filter_empty_conv)

lemma Create_ok:
  assumes ok: "store_ok d" and run: "Create checks now m d = Inr d'"
  shows "store_ok d'"
proof -
  let ?m = "new_monitor_row m" and ?d1 = "d\<lparr>monitors := monitors d @ [new_monitor_row m]\<rparr>"
  from run have new: "find_monitor (m_id m) d = None" and t: "m_tenant_id m \<in> set (tenants d)"
    by (auto simp: Create_def Let_def split: if_splits)
  have keys: "keys_ok ?d1" using ok new by (auto simp: store_defs find_monitor_None)
  have refs: "refs_ok ?d1" using ok t by (auto simp: store_defs)
  have old: "tracked ?d1 x" if "x \<in> set (monitors d)" "m_type x \<noteq> ''group''" for x
    using store_okD(2) [OF ok that] by (simp add: tracked_def)
  show ?thesis
  proof (cases "m_type m = ''group''")
    case True
    with run new t have "d' = ?d1" by (auto simp: Create_def Let_def split: if_splits)
    moreover have "timelines_ok ?d1" using ok old True by (auto simp: timelines_ok_def store_okD)
    ultimately show ?thesis using keys refs by (simp add: store_ok_def)
  next
    case False
    have nt: "monitor_timeline (m_id m) ?d1 = []" using no_timeline [OF ok new] by simp
    have f: "find_monitor (m_id m) ?d1 = Some ?m"
      using new by (simp add: find_monitor_def find_append)
    obtain d2 where rec: "RecordIntervalTx now (m_tenant_id m) (m_id m) StateUnknown ''created'' ?d1 = Inr d2"
      and tl: "monitor_timeline (m_id m) d2 =
          extended now (m_tenant_id m) (m_id m) StateUnknown ''created'' (monitor_timeline (m_id m) ?d1)"
      and oth: "\<And>x. x \<noteq> m_id m \<Longrightarrow> monitor_timeline x d2 = monitor_timeline x ?d1"
      and fr: "d2 = ?d1\<lparr>state_intervals := state_intervals d2\<rparr>"
      and si: "si_monitor_id ` set (state_intervals d2) = insert (m_id m) (si_monitor_id ` set (state_intervals ?d1))"
      by (rule RecordIntervalTx_spec [of "m_id m" ?d1 ?m "m_tenant_id m" "''created''" now StateUnknown])
         (use nt f t in \<open>auto\<close>)
    have "d' = d2" using run rec False new t by (auto simp: Create_def Let_def split: if_splits)
    moreover have "timelines_ok d2"
    proof -
      have "timeline_ok (monitor_timeline x d2)" for x
        using tl oth ok nt by (cases "x = m_id m") (simp_all add: extended_ok store_okD)
      moreover have "tracked d2 x" if "x \<in> set (monitors ?d1)" "m_type x \<noteq> ''group''" for x
      proof (cases "x \<in> set (monitors d)")
        case True
        then have "m_id x \<noteq> m_id m" using new by (auto simp: find_monitor_def find_None_iff)
        with old [OF True that(2)] oth show ?thesis by (simp add: tracked_def)
      next
        case False
        then have "x = ?m" using that by simp
        with tl show ?thesis by (simp add: tracked_def)
      qed
      moreover have "monitors d2 = monitors ?d1" by (subst fr) simp
      ultimately show ?thesis by (simp add: timelines_ok_def)
    qed
    moreover have "keys_ok d2" by (subst fr) (use keys in \<open>simp add: keys_ok_def\<close>)
    moreover have "refs_ok d2"
    proof -
      have "si_monitor_id i \<in> m_id ` set (monitors ?d1)" if "i \<in> set (state_intervals d2)" for i
      proof -
        have "si_monitor_id i \<in> insert (m_id m) (si_monitor_id ` set (state_intervals d))"
          using that si by auto
        with ok show ?thesis by (auto simp: store_defs)
      qed
      with refs show ?thesis by (subst fr) (simp add: refs_ok_def)
    qed
    ultimately show ?thesis by (simp add: store_ok_def)
  qed
qed

text \<open>Updates of columns the invariant does not read.\<close>

lemma store_ok_monitors_same:
  assumes ok: "store_ok d" and f: "keeps_identity f"
    and same: "\<And>m. m_current_state (f m) = m_current_state m"
  shows "store_ok (d\<lparr>monitors := sql_update p f (monitors d)\<rparr>)"
proof -
  have "RecordIntervalsTx 0 [] StateUnknown ''result'' (d\<lparr>monitors := sql_update p f (monitors d)\<rparr>) =
      Inr (d\<lparr>monitors := sql_update p f (monitors d)\<rparr>)" by (simp add: RecordIntervalsTx_def)
  moreover obtain d' where "RecordIntervalsTx 0 [] StateUnknown ''result''
      (d\<lparr>monitors := sql_update p f (monitors d)\<rparr>) = Inr d'" "store_ok d'"
    by (rule bulk_state_ok [OF ok f result_reason, of "[]" p StateUnknown 0]) (use same in auto)
  ultimately show ?thesis by simp
qed

lemma soft_delete_identity: "keeps_identity (\<lambda>m. m\<lparr>m_deleted_at := Some now, m_updated_at := now\<rparr>)"
  by (rule keeps_identityI) simp_all

lemma Delete_ok: "store_ok d \<Longrightarrow> Delete now tid mid d = Inr d' \<Longrightarrow> store_ok d'"
  by (auto simp: Delete_def update_monitor_def split: option.splits if_splits
      intro!: store_ok_monitors_same soft_delete_identity)

lemma BulkSoftDelete_ok: "store_ok d \<Longrightarrow> store_ok (snd (BulkSoftDelete now tid ids d))"
  by (auto simp: BulkSoftDelete_def Let_def intro!: store_ok_monitors_same soft_delete_identity)

lemma HardDelete_ok:
  assumes ok: "store_ok d"
  shows "store_ok (HardDelete mid d)"
proof -
  let ?d = "HardDelete mid d"
  have tl: "monitor_timeline x ?d = (if x = mid then [] else monitor_timeline x d)" for x
    by (auto simp: HardDelete_def monitor_timeline_def sql_delete_def intro: filter_cong)
  have "keys_ok ?d"
    using ok by (auto simp: store_defs HardDelete_def sql_delete_def intro: distinct_map_filter)
  moreover have "refs_ok ?d"
    using ok by (auto simp: store_defs HardDelete_def)
  moreover have "timelines_ok ?d"
  proof -
    have "tracked ?d m" if "m \<in> set (monitors d)" "m_id m \<noteq> mid" "m_type m \<noteq> ''group''" for m
      using store_okD(2) [OF ok that(1,3)] that(2) by (simp add: tracked_def tl)
    moreover have "m \<in> set (monitors ?d) \<longleftrightarrow> m \<in> set (monitors d) \<and> m_id m \<noteq> mid" for m
      by (simp add: HardDelete_def)
    ultimately show ?thesis using ok by (simp add: timelines_ok_def tl store_okD)
  qed
  ultimately show ?thesis by (simp add: store_ok_def)
qed

lemma tenant_monitor_SomeD:
  "tenant_monitor tid mid d = Some m \<Longrightarrow> find_monitor mid d = Some m \<and> m_tenant_id m = tid"
  by (auto simp: tenant_monitor_def split: option.splits if_splits)

text \<open>Dropping memberships together with their state rows.\<close>

lemma store_ok_memberships:
  assumes "store_ok d" and "distinct mls" and "\<forall>ml\<in>set mls. fst ml \<in> m_id ` set (monitors d)"
    and "set ss \<subseteq> set (location_states d)" and "distinct (map mls_key ss)"
    and "\<forall>s\<in>set ss. mls_key s \<in> set mls"
  shows "store_ok (d\<lparr>monitor_locations := mls, location_states := ss\<rparr>)"
proof -
  have "\<forall>s\<in>set ss. mls_current_state s \<noteq> StateDegraded"
    using assms(1,4) by (auto simp: store_defs)
  moreover have "tracked (d\<lparr>monitor_locations := mls, location_states := ss\<rparr>) = tracked d" by simp
  moreover have "monitor_timeline mid (d\<lparr>monitor_locations := mls, location_states := ss\<rparr>) =
      monitor_timeline mid d" for mid by simp
  ultimately show ?thesis using assms by (simp add: store_defs)
qed

lemma update_location_states_commute:
  "(update_monitor mid f d)\<lparr>location_states := ss\<rparr> = update_monitor mid f (d\<lparr>location_states := ss\<rparr>)"
  by (simp add: update_monitor_def)

lemma drop_states_ok:
  assumes "store_ok d"
  shows "store_ok (d\<lparr>location_states := sql_delete p (location_states d)\<rparr>)"
  using assms by (intro store_ok_location_states)
    (auto simp: store_defs sql_delete_def intro: distinct_map_filter)

lemma keeps_identity_admin [simp]:
  "keeps_identity (toggle_monitor now e)" "keeps_identity (reset_monitor now)"
  "keeps_identity (clamp_monitor now d)"
  unfolding toggle_monitor_def reset_monitor_def clamp_monitor_def Let_def
  by (rule keeps_identityI; simp)+

lemma admin_states [simp]:
  "m_current_state (toggle_monitor now e m) = StateUnknown"
  "m_current_state (reset_monitor now m) = StateUnknown"
  by (simp_all add: toggle_monitor_def reset_monitor_def)

text \<open>A toggle, with the database it leaves.\<close>

lemma SetEnabled_cases:
  assumes ok: "store_ok d" and run: "SetEnabled now tid mid e d = Inr d'"
  obtains (same) m where "tenant_monitor tid mid d = Some m" "m_enabled m = e" "d' = d"
  | (toggled) m where "tenant_monitor tid mid d = Some m" "m_enabled m \<noteq> e" "store_ok d'"
      "find_monitor mid d' = Some (toggle_monitor now e m)"
      "location_states d' = sql_delete (\<lambda>s. mls_monitor_id s = mid) (location_states d)"
      "monitor_locations d' = monitor_locations d"
      "m_type m \<noteq> ''group'' \<Longrightarrow> monitor_timeline mid d' = extended now tid mid StateUnknown
         (if e then ''resume'' else ''pause'') (monitor_timeline mid d)"
      "\<And>x. x \<noteq> mid \<Longrightarrow> find_monitor x d' = find_monitor x d \<and>
         monitor_timeline x d' = monitor_timeline x d"
proof -
  obtain m where tm: "tenant_monitor tid mid d = Some m"
    using run by (auto simp: SetEnabled_def split: option.splits)
  note m = tenant_monitor_SomeD [OF tm]
  let ?d0 = "d\<lparr>location_states := sql_delete (\<lambda>s. mls_monitor_id s = mid) (location_states d)\<rparr>"
  let ?f = "toggle_monitor now e"
  have ok0: "store_ok ?d0" using ok by (rule drop_states_ok)
  have m0: "find_monitor mid ?d0 = Some m" using m by (simp add: find_monitor_def)
  have d2: "(update_monitor mid ?f d)\<lparr>location_states :=
      sql_delete (\<lambda>s. mls_monitor_id s = mid) (location_states (update_monitor mid ?f d))\<rparr> =
      update_monitor mid ?f ?d0"
    by (simp add: update_location_states_commute)
  show thesis
  proof (cases "m_enabled m = e")
    case True
    with run tm show thesis by (intro same [OF tm]) (simp_all add: SetEnabled_def)
  next
    case False
    show thesis
    proof (cases "m_type m = ''group''")
      case True
      have "d' = update_monitor mid ?f ?d0"
        using run tm False True by (simp add: SetEnabled_def Let_def d2 [simplified])
      moreover have "store_ok (update_monitor mid ?f ?d0)"
      proof (rule update_monitor_ok [OF ok0 keeps_identity_admin(1)])
        fix x assume "x \<in> set (monitors ?d0)" "m_id x = mid" "m_type x \<noteq> ''group''"
        then have "x = m" using m0 ok0 by (metis find_monitor_unique option.inject)
        with \<open>m_type x \<noteq> ''group''\<close> True show "m_current_state (?f x) = m_current_state x" by simp
      qed
      ultimately show thesis
        using False True m0
        by (intro toggled [OF tm]) (simp_all add: find_monitor_update option.map_ident, simp add: find_monitor_def)
    next
      case ng: False
      have r: "(if e then ''resume'' else ''pause'') \<in> set IntervalReasons" by simp
      obtain d3 where rec: "RecordIntervalTx now (m_tenant_id m) mid StateUnknown
          (if e then ''resume'' else ''pause'') (update_monitor mid ?f ?d0) = Inr d3"
        and st: "store_ok d3" "same_rest mid ?d0 d3" "find_monitor mid d3 = Some (?f m)"
        and tl: "monitor_timeline mid d3 = extended now (m_tenant_id m) mid StateUnknown
          (if e then ''resume'' else ''pause'') (monitor_timeline mid ?d0)"
        by (rule write_state [OF ok0 m0 keeps_identity_admin(1) admin_states(1) r, of now])
      have "d' = d3"
        using run tm False ng rec m by (simp add: SetEnabled_def Let_def d2 [simplified])
      moreover have "find_monitor x d3 = find_monitor x d \<and> monitor_timeline x d3 = monitor_timeline x d"
        if "x \<noteq> mid" for x using st(2) that by (simp add: same_rest_def find_monitor_def)
      ultimately show thesis
        using st tl m same_restD(3,5) [OF st(2)] by (intro toggled [OF tm False]) simp_all
    qed
  qed
qed

lemma SetEnabled_succeeds:
  assumes ok: "store_ok d" and tm: "tenant_monitor tid mid d = Some m"
  shows "\<exists>d'. SetEnabled now tid mid e d = Inr d'"
proof -
  note m = tenant_monitor_SomeD [OF tm]
  let ?d0 = "d\<lparr>location_states := sql_delete (\<lambda>s. mls_monitor_id s = mid) (location_states d)\<rparr>"
  have m0: "find_monitor mid ?d0 = Some m" using m by (simp add: find_monitor_def)
  have r: "(if e then ''resume'' else ''pause'') \<in> set IntervalReasons" by simp
  obtain d3 where "RecordIntervalTx now (m_tenant_id m) mid StateUnknown
      (if e then ''resume'' else ''pause'') (update_monitor mid (toggle_monitor now e) ?d0) = Inr d3"
    by (rule write_state [OF drop_states_ok [OF ok] m0 keeps_identity_admin(1) admin_states(1) r, of now])
  then show ?thesis
    using tm m by (auto simp: SetEnabled_def Let_def update_location_states_commute)
qed

lemma SetEnabled_ok:
  assumes "store_ok d" and "SetEnabled now tid mid e d = Inr d'"
  shows "store_ok d'"
  using assms by (cases rule: SetEnabled_cases) (use assms(1) in simp_all)

lemma set_with_locations:
  "set (monitor_locations (with_locations mid ls d)) =
     {ml \<in> set (monitor_locations d). fst ml \<noteq> mid} \<union> Pair mid ` set ls"
proof -
  have "set (monitor_locations (with_locations mid ls d)) =
      id ` set (insert_missing id (sql_delete (\<lambda>(a, l). a = mid \<and> l \<notin> set ls) (monitor_locations d))
        (map (Pair mid) ls))" by (simp add: with_locations_def)
  also have "\<dots> = {ml \<in> set (monitor_locations d). fst ml \<noteq> mid} \<union> Pair mid ` set ls"
    unfolding insert_missing_keys by auto
  finally show ?thesis .
qed

lemma with_locations_ok:
  assumes ok: "store_ok d" and m: "find_monitor mid d = Some m"
  shows "store_ok (with_locations mid ls d)"
proof -
  let ?mls = "monitor_locations (with_locations mid ls d)"
  let ?ss = "sql_delete (\<lambda>s. mls_monitor_id s = mid \<and> mls_location_id s \<notin> set ls) (location_states d)"
  have "store_ok (d\<lparr>monitor_locations := ?mls, location_states := ?ss\<rparr>)"
  proof (rule store_ok_memberships [OF ok])
    have "distinct (map id (sql_delete (\<lambda>(a, l). a = mid \<and> l \<notin> set ls) (monitor_locations d)))"
      using ok by (simp add: store_defs sql_delete_def)
    from insert_missing_distinct [OF this, of "map (Pair mid) ls"] show "distinct ?mls"
      by (simp add: with_locations_def)
    show "\<forall>ml\<in>set ?mls. fst ml \<in> m_id ` set (monitors d)"
      using ok m by (auto simp: set_with_locations store_defs dest: find_monitor_SomeD)
    show "distinct (map mls_key ?ss)"
      using ok by (simp add: store_defs sql_delete_def distinct_map_filter)
    show "\<forall>s\<in>set ?ss. mls_key s \<in> set ?mls"
      using ok by (auto simp: set_with_locations store_defs)
  qed auto
  then show ?thesis by (simp add: with_locations_def)
qed

lemma with_locations_frame [simp]:
  "monitors (with_locations mid ls d) = monitors d" "tenants (with_locations mid ls d) = tenants d"
  "locations (with_locations mid ls d) = locations d"
  "find_monitor x (with_locations mid ls d) = find_monitor x d"
  "monitor_timeline x (with_locations mid ls d) = monitor_timeline x d"
  by (simp_all add: with_locations_def find_monitor_def)

lemma SetLocations_cases:
  assumes ok: "store_ok d" and run: "SetLocations now tid mid ls d = Inr d'"
  obtains (set_some) m where "tenant_monitor tid mid d = Some m" "ls \<noteq> []" "d' = with_locations mid ls d"
  | (cleared) m where "tenant_monitor tid mid d = Some m" "ls = []" "store_ok d'"
      "same_rest mid (with_locations mid [] d) d'"
      "find_monitor mid d' = Some (reset_monitor now m)"
proof -
  obtain m where tm: "tenant_monitor tid mid d = Some m"
    using run by (auto simp: SetLocations_def split: option.splits)
  note m = tenant_monitor_SomeD [OF tm]
  let ?w = "with_locations mid ls d"
  have body: "SetLocations now tid mid ls d =
      (if ls \<noteq> [] \<and> length (filter (\<lambda>l. l_id l \<in> set ls \<and> l_tenant_id l = tid \<and> l_deleted_at l = None)
            (locations d)) \<noteq> length ls then Inl LocationsNotFound
       else if ls \<noteq> [] then Inr ?w
       else if m_current_state m \<noteq> StateUnknown then
         liftDb (RecordIntervalTx now tid mid StateUnknown ''location_change''
                   (update_monitor mid (reset_monitor now) ?w))
       else Inr (update_monitor mid (reset_monitor now) ?w))"
    using tm by (simp add: SetLocations_def Let_def)
  show thesis
  proof (cases "ls = []")
    case False
    with run body show thesis by (intro set_some [OF tm]) (auto split: if_splits)
  next
    case True
    have okw: "store_ok ?w" using ok m by (intro with_locations_ok) auto
    have mw: "find_monitor mid ?w = Some m" using m by simp
    show thesis
    proof (cases "m_current_state m = StateUnknown")
      case unk: True
      let ?u = "update_monitor mid (reset_monitor now) ?w"
      have "d' = ?u" using run body True unk by simp
      moreover have "store_ok ?u"
      proof (rule update_monitor_ok [OF okw keeps_identity_admin(2)])
        fix x assume "x \<in> set (monitors ?w)" "m_id x = mid"
        then have "x = m" using mw okw by (metis find_monitor_unique option.inject)
        with unk show "m_current_state (reset_monitor now x) = m_current_state x" by simp
      qed
      moreover have "same_rest mid ?w ?u"
        by (auto simp: same_rest_def update_monitor_ids find_monitor_update option.map_ident)
      ultimately show thesis
        using True mw by (intro cleared [OF tm True]) (simp_all add: find_monitor_update)
    next
      case ne: False
      obtain d3 where "RecordIntervalTx now (m_tenant_id m) mid StateUnknown ''location_change''
          (update_monitor mid (reset_monitor now) ?w) = Inr d3" "store_ok d3" "same_rest mid ?w d3"
        "find_monitor mid d3 = Some (reset_monitor now m)"
        by (rule write_state [OF okw mw keeps_identity_admin(2) admin_states(2) admin_reasons(4), of now])
      with run body True ne m show thesis by (intro cleared [OF tm True]) simp_all
    qed
  qed
qed

lemma SetLocations_ok:
  assumes "store_ok d" and "SetLocations now tid mid ls d = Inr d'"
  shows "store_ok d'"
  using assms
  by (cases rule: SetLocations_cases)
     (use assms(1) in \<open>auto dest: tenant_monitor_SomeD intro: with_locations_ok\<close>)

section \<open>Deleting a location\<close>

lemma store_ok_locations:
  "store_ok d \<Longrightarrow> map l_id ls = map l_id (locations d) \<Longrightarrow> store_ok (d\<lparr>locations := ls\<rparr>)"
  by (simp add: store_defs)

lemma without_location_ok:
  assumes ok: "store_ok d"
  shows "store_ok (without_location now tid lid d)"
proof -
  let ?ls = "sql_update (\<lambda>l. l_id l = lid \<and> l_tenant_id l = tid \<and> l_deleted_at l = None)
       (\<lambda>l. l\<lparr>l_deleted_at := Some now\<rparr>) (locations d)"
  have "map l_id ?ls = map l_id (locations d)" by (rule map_sql_update) simp
  then have "store_ok (d\<lparr>locations := ?ls\<rparr>)" using ok by (intro store_ok_locations)
  then have "store_ok ((d\<lparr>locations := ?ls\<rparr>)\<lparr>
      monitor_locations := sql_delete (\<lambda>ml. snd ml = lid) (monitor_locations d),
      location_states := sql_delete (\<lambda>s. mls_location_id s = lid) (location_states d)\<rparr>)"
    by (rule store_ok_memberships)
       (use ok in \<open>auto simp: store_defs sql_delete_def intro: distinct_map_filter\<close>)
  then show ?thesis by (simp add: without_location_def)
qed

lemma remaining_bound: "remaining_locations mid d = 0 \<longleftrightarrow> \<not> location_bound mid d"
  by (auto simp: remaining_locations_def location_bound_def list_ex_iff filter_empty_conv)

lemma clamp_state:
  "m_current_state (clamp_monitor now d m) =
   (if location_bound (m_id m) d then m_current_state m else StateUnknown)"
  by (simp add: clamp_monitor_def Let_def remaining_bound)

lemma sql_update_cong:
  "(\<And>r. r \<in> set rows \<Longrightarrow> p r = q r) \<Longrightarrow> sql_update p f rows = sql_update q f rows"
  by (induction rows) auto

lemma DeleteLocation_cases:
  assumes ok: "store_ok d" and run: "DeleteLocation now tid lid d = Inr (n, d')"
  obtains "store_ok d'"
    "n = int (length (filter (affected_by lid d) (monitors d)))"
    "d' = (without_location now tid lid d)\<lparr>
       monitors := sql_update (affected_by lid d) (clamp_monitor now (without_location now tid lid d)) (monitors d),
       state_intervals := state_intervals d'\<rparr>"
    "\<And>mid m. find_monitor mid d = Some m \<Longrightarrow> monitor_timeline mid d' =
       (if affected_by lid d m \<and> m_current_state m \<noteq> StateUnknown \<and>
           \<not> location_bound mid (without_location now tid lid d)
        then extended now (m_tenant_id m) mid StateUnknown ''location_change'' (monitor_timeline mid d)
        else monitor_timeline mid d)"
proof -
  let ?w = "without_location now tid lid d"
  let ?aff = "map m_id (filter (affected_by lid d) (monitors d))"
  let ?reset = "map m_id (filter (\<lambda>m. m_id m \<in> set ?aff \<and> m_current_state m \<noteq> StateUnknown \<and>
      \<not> location_bound (m_id m) ?w) (monitors ?w))"
  have fr [simp]: "monitors ?w = monitors d" "find_monitor mid ?w = find_monitor mid d"
    "monitor_timeline mid ?w = monitor_timeline mid d" for mid
    by (simp_all add: without_location_def find_monitor_def)
  have aff: "m_id m \<in> set ?aff \<longleftrightarrow> affected_by lid d m" if "m \<in> set (monitors d)" for m
    using that ok by (auto simp: affected_by_def)
  have upd: "sql_update (\<lambda>m. m_id m \<in> set ?aff) g (monitors d) = sql_update (affected_by lid d) g (monitors d)"
    for g using aff by (rule sql_update_cong)
  have in_reset: "mid \<in> set ?reset \<longleftrightarrow> affected_by lid d m \<and> m_current_state m \<noteq> StateUnknown \<and>
      \<not> location_bound mid ?w" if "find_monitor mid d = Some m" for mid m
  proof -
    have m: "m \<in> set (monitors d)" "m_id m = mid" using that by (auto dest: find_monitor_SomeD)
    have "mid \<in> set ?reset \<longleftrightarrow> (\<exists>x\<in>set (monitors d). m_id x = mid \<and> affected_by lid d x \<and>
        m_current_state x \<noteq> StateUnknown \<and> \<not> location_bound mid ?w)"
      by (auto simp: affected_by_def image_iff)
    also have "\<dots> \<longleftrightarrow> affected_by lid d m \<and> m_current_state m \<noteq> StateUnknown \<and> \<not> location_bound mid ?w"
      using m that ok by (metis find_monitor_unique option.inject)
    finally show ?thesis .
  qed
  obtain d4 where rec: "RecordIntervalsTx now ?reset StateUnknown ''location_change''
      (?w\<lparr>monitors := sql_update (affected_by lid d) (clamp_monitor now ?w) (monitors ?w)\<rparr>) = Inr d4"
    and ok4: "store_ok d4"
    and d4: "d4 = ?w\<lparr>monitors := sql_update (affected_by lid d) (clamp_monitor now ?w) (monitors ?w),
                   state_intervals := state_intervals d4\<rparr>"
    and tl: "\<And>mid m. find_monitor mid ?w = Some m \<Longrightarrow> monitor_timeline mid d4 =
          (if mid \<in> set ?reset then extended now (m_tenant_id m) mid StateUnknown ''location_change''
             (monitor_timeline mid ?w) else monitor_timeline mid ?w)"
  proof (rule bulk_state_ok [OF without_location_ok [OF ok] keeps_identity_admin(3) admin_reasons(4)])
    fix m assume "m \<in> set (monitors ?w)"
    then have m: "m \<in> set (monitors d)" and f: "find_monitor (m_id m) d = Some m"
      using ok by (simp_all add: find_monitor_unique)
    show "if m_id m \<in> set ?reset then affected_by lid d m \<and> m_current_state (clamp_monitor now ?w m) = StateUnknown
        else affected_by lid d m \<longrightarrow> m_current_state (clamp_monitor now ?w m) = m_current_state m"
      using in_reset [OF f] by (auto simp: clamp_state)
  qed blast
  have body: "DeleteLocation now tid lid d = bindE (liftDb (RecordIntervalsTx now ?reset StateUnknown
      ''location_change'' (?w\<lparr>monitors := sql_update (\<lambda>m. m_id m \<in> set ?aff) (clamp_monitor now ?w) (monitors ?w)\<rparr>)))
      (\<lambda>d4. Inr (int (length ?aff), d4))"
    if "list_ex (\<lambda>l. l_id l = lid \<and> l_tenant_id l = tid \<and> l_deleted_at l = None) (locations d)"
    using that by (simp add: DeleteLocation_def Let_def)
  have ex: "list_ex (\<lambda>l. l_id l = lid \<and> l_tenant_id l = tid \<and> l_deleted_at l = None) (locations d)"
    using run by (simp add: DeleteLocation_def split: if_splits)
  have "DeleteLocation now tid lid d = Inr (int (length ?aff), d4)"
    unfolding body [OF ex] fr upd using rec by simp
  with run have "n = int (length ?aff)" "d' = d4" by simp_all
  then show thesis
    using ok4 d4 tl in_reset by (intro that) simp_all
qed

lemma DeleteLocation_ok:
  assumes "store_ok d" and "DeleteLocation now tid lid d = Inr (n, d')"
  shows "store_ok d'"
  by (rule DeleteLocation_cases [OF assms])

section \<open>Properties\<close>

text \<open>
  A pause or a resume forgets the observed state (S-P2). A real toggle of a monitor succeeds and
  leaves it unknown with no failures counted, removes every row its locations had, leaves the other
  monitors and their timelines alone, and, for a monitor that is not a group, records exactly one
  interval, unknown from now on, with reason pause or resume; so the first failing results after a
  resume count from zero again.
\<close>

theorem SetEnabled_forgets_the_state:
  assumes ok: "store_ok d" and m: "tenant_monitor tid mid d = Some m" and real: "m_enabled m \<noteq> e"
  shows "\<exists>d' m'. SetEnabled now tid mid e d = Inr d' \<and> store_ok d' \<and>
    find_monitor mid d' = Some m' \<and> m_enabled m' = e \<and>
    monitor_snapshot m' = \<lparr>snap_State = StateUnknown, snap_ConsecutiveFailures = 0\<rparr> \<and>
    (\<forall>l. find_location_state mid l d' = None) \<and>
    (\<forall>x. x \<noteq> mid \<longrightarrow> find_monitor x d' = find_monitor x d \<and>
      monitor_timeline x d' = monitor_timeline x d) \<and>
    (m_type m \<noteq> ''group'' \<longrightarrow>
      abs_timeline (monitor_timeline mid d') =
        extend_timeline now StateUnknown (abs_timeline (monitor_timeline mid d)) \<and>
      si_reason (last (monitor_timeline mid d')) = (if e then ''resume'' else ''pause''))"
proof -
  obtain d' where run: "SetEnabled now tid mid e d = Inr d'"
    using SetEnabled_succeeds [OF ok m] by blast
  show ?thesis
    using ok run
  proof (cases rule: SetEnabled_cases)
    case (same m0)
    with m real show ?thesis by simp
  next
    case (toggled m0)
    then have [simp]: "m0 = m" using m by simp
    have "find_location_state mid l d' = None" for l
      by (simp add: find_location_state_def toggled(5) find_None_iff)
    moreover have "monitor_snapshot (toggle_monitor now e m) =
        \<lparr>snap_State = StateUnknown, snap_ConsecutiveFailures = 0\<rparr>" "m_enabled (toggle_monitor now e m) = e"
      by (simp_all add: monitor_snapshot_def toggle_monitor_def)
    moreover have "timeline_ok (monitor_timeline mid d)" using ok by (rule store_okD)
    then have "m_type m \<noteq> ''group'' \<longrightarrow> abs_timeline (monitor_timeline mid d') =
        extend_timeline now StateUnknown (abs_timeline (monitor_timeline mid d)) \<and>
      si_reason (last (monitor_timeline mid d')) = (if e then ''resume'' else ''pause'')"
      using toggled(7) by (simp add: extended_abs)
    ultimately show ?thesis
      using run toggled(3,4,8) by (intro exI [of _ d'] exI [of _ "toggle_monitor now e m"]) simp
  qed
qed

theorem SetEnabled_forgets_the_state_witness:
  "\<exists>d' m'. SetEnabled 90 1 8 False sample_db = Inr d' \<and> find_monitor 8 d' = Some m' \<and>
     \<not> m_enabled m' \<and> m_current_state m' = StateUnknown \<and>
     abs_timeline (monitor_timeline 8 d') = [(StateUnknown, 0), (StateUnknown, 90)]"
proof -
  have "tenant_monitor 1 8 sample_db = Some (sample_monitor 8 1 2)"
    by (simp add: tenant_monitor_def sample_find) (simp add: sample_monitor_def)
  from SetEnabled_forgets_the_state [OF sample_db_ok this, of False 90]
  obtain d' m' where "SetEnabled 90 1 8 False sample_db = Inr d'" "find_monitor 8 d' = Some m'"
    "\<not> m_enabled m'" "monitor_snapshot m' = \<lparr>snap_State = StateUnknown, snap_ConsecutiveFailures = 0\<rparr>"
    "abs_timeline (monitor_timeline 8 d') =
       extend_timeline 90 StateUnknown (abs_timeline (monitor_timeline 8 sample_db))"
    by (auto simp: sample_monitor_def)
  then show ?thesis
    by (simp add: monitor_snapshot_def monitor_timeline_def sample_defs extend_timeline_def)
qed

text \<open>
  Replacing a monitor's locations (S-M1). When \<open>SetLocations\<close> succeeds the monitor's memberships
  are exactly the requested locations, a location that was removed has no state row left and so
  cannot take part in the quorum again, the rows of the locations that stay are untouched, and the
  other monitors keep everything; a monitor whose set became empty is unknown with no failures.
\<close>

theorem SetLocations_replaces_the_set:
  assumes ok: "store_ok d" and run: "SetLocations now tid mid ls d = Inr d'"
  shows "store_ok d' \<and>
    (\<forall>l. (mid, l) \<in> set (monitor_locations d') \<longleftrightarrow> l \<in> set ls) \<and>
    (\<forall>l. find_location_state mid l d' = (if l \<in> set ls then find_location_state mid l d else None)) \<and>
    (\<forall>x. x \<noteq> mid \<longrightarrow> find_monitor x d' = find_monitor x d \<and> monitor_timeline x d' = monitor_timeline x d \<and>
       (\<forall>l. find_location_state x l d' = find_location_state x l d \<and>
            ((x, l) \<in> set (monitor_locations d') \<longleftrightarrow> (x, l) \<in> set (monitor_locations d)))) \<and>
    (ls = [] \<longrightarrow> (\<exists>m'. find_monitor mid d' = Some m' \<and>
      monitor_snapshot m' = \<lparr>snap_State = StateUnknown, snap_ConsecutiveFailures = 0\<rparr>))"
proof -
  have states: "find_location_state x l (with_locations mid ls d) =
      (if x = mid \<and> l \<notin> set ls then None else find_location_state x l d)" for x l
    by (cases "x = mid \<and> l \<notin> set ls")
       (auto simp: find_location_state_def with_locations_def find_None_iff intro!: find_sql_delete_other)
  from ok run show ?thesis
  proof (cases rule: SetLocations_cases)
    case (set_some m)
    with ok SetLocations_ok [OF ok run] states show ?thesis by (auto simp: set_with_locations)
  next
    case (cleared m)
    then have "find_location_state x l d' = find_location_state x l (with_locations mid ls d)" for x l
      by (simp add: find_location_state_def same_restD(5))
    moreover have "monitor_snapshot (reset_monitor now m) =
        \<lparr>snap_State = StateUnknown, snap_ConsecutiveFailures = 0\<rparr>"
      by (simp add: monitor_snapshot_def reset_monitor_def)
    ultimately show ?thesis
      using cleared states same_restD(3) [OF cleared(4)] cleared(4) [unfolded same_rest_def]
      by (auto simp: set_with_locations)
  qed
qed

theorem SetLocations_replaces_the_set_witness:
  "\<exists>d'. SetLocations 90 1 8 [22] sample_db = Inr d' \<and>
     (\<forall>l. (8, l) \<in> set (monitor_locations d') \<longleftrightarrow> l = 22) \<and> find_location_state 8 21 d' = None"
proof -
  have run: "SetLocations 90 1 8 [22] sample_db = Inr (with_locations 8 [22] sample_db)"
    by (simp add: SetLocations_def tenant_monitor_def sample_find) (simp add: sample_defs)
  from SetLocations_replaces_the_set [OF sample_db_ok run] run show ?thesis by auto
qed

text \<open>
  Deleting a location untangles its monitors (S-M2). After a successful deletion no membership
  and no state row mentions the location; an affected monitor's quorum is between one and the
  number of its remaining locations (one when none is left); an affected monitor that lost its
  last location is unknown with no failures, and its timeline gained one unknown interval unless
  it was unknown already; every other monitor keeps its row and its timeline.
\<close>

theorem DeleteLocation_untangles:
  assumes ok: "store_ok d" and run: "DeleteLocation now tid lid d = Inr (n, d')"
    and m: "find_monitor mid d = Some m"
  shows "store_ok d' \<and> lid \<notin> snd ` set (monitor_locations d') \<and> (\<forall>x. find_location_state x lid d' = None) \<and>
    (\<exists>m'. find_monitor mid d' = Some m' \<and>
      (if affected_by lid d m then
         1 \<le> m_location_quorum m' \<and> m_location_quorum m' \<le> max 1 (remaining_locations mid d') \<and>
         (if location_bound mid d' then monitor_snapshot m' = monitor_snapshot m
          else monitor_snapshot m' = \<lparr>snap_State = StateUnknown, snap_ConsecutiveFailures = 0\<rparr>)
       else m' = m)) \<and>
    abs_timeline (monitor_timeline mid d') =
      (if affected_by lid d m \<and> \<not> location_bound mid d' \<and> m_current_state m \<noteq> StateUnknown
       then extend_timeline now StateUnknown (abs_timeline (monitor_timeline mid d))
       else abs_timeline (monitor_timeline mid d))"
proof -
  let ?w = "without_location now tid lid d"
  obtain st: "store_ok d'"
    and d': "d' = ?w\<lparr>monitors := sql_update (affected_by lid d) (clamp_monitor now ?w) (monitors d),
       state_intervals := state_intervals d'\<rparr>"
    and tl: "\<And>mid m. find_monitor mid d = Some m \<Longrightarrow> monitor_timeline mid d' =
       (if affected_by lid d m \<and> m_current_state m \<noteq> StateUnknown \<and> \<not> location_bound mid ?w
        then extended now (m_tenant_id m) mid StateUnknown ''location_change'' (monitor_timeline mid d)
        else monitor_timeline mid d)"
    by (rule DeleteLocation_cases [OF ok run]) blast
  have fr: "monitor_locations d' = monitor_locations ?w" "location_states d' = location_states ?w"
    "monitors d' = sql_update (affected_by lid d) (clamp_monitor now ?w) (monitors d)"
    by (subst d', simp)+
  have lb: "location_bound x d' = location_bound x ?w" "remaining_locations x d' = remaining_locations x ?w" for x
    by (simp_all add: location_bound_def remaining_locations_def fr)
  have mid: "m_id m = mid" using m by (auto dest: find_monitor_SomeD)
  let ?m' = "if affected_by lid d m then clamp_monitor now ?w m else m"
  have ids: "m_id (clamp_monitor now ?w x) = m_id x" for x by (simp add: clamp_monitor_def Let_def)
  have find': "find_monitor mid d' = Some ?m'"
    using m by (simp add: find_monitor_def fr find_sql_update ids)
  have "monitor_snapshot (clamp_monitor now ?w m) = (if location_bound mid d' then monitor_snapshot m
      else \<lparr>snap_State = StateUnknown, snap_ConsecutiveFailures = 0\<rparr>)"
    by (simp add: monitor_snapshot_def clamp_monitor_def Let_def lb mid remaining_bound)
  moreover have "1 \<le> m_location_quorum (clamp_monitor now ?w m)"
    "m_location_quorum (clamp_monitor now ?w m) \<le> max 1 (remaining_locations mid d')"
    by (simp_all add: clamp_monitor_def Let_def lb mid)
  moreover have "lid \<notin> snd ` set (monitor_locations d')" by (auto simp: fr without_location_def)
  moreover have "find_location_state x lid d' = None" for x
    by (simp add: find_location_state_def fr without_location_def find_None_iff)
  moreover have "timeline_ok (monitor_timeline mid d)" using ok by (rule store_okD)
  ultimately show ?thesis using st find' tl [OF m] by (auto simp: lb extended_abs)
qed

theorem DeleteLocation_untangles_witness:
  "\<exists>n d' m'. DeleteLocation 90 1 21 sample_db = Inr (n, d') \<and> find_monitor 8 d' = Some m' \<and>
     m_location_quorum m' = 1 \<and> find_location_state 8 21 d' = None"
proof -
  let ?d3 = "(without_location 90 1 21 sample_db)\<lparr>monitors := sql_update (\<lambda>m. m_id m \<in> {8})
     (clamp_monitor 90 (without_location 90 1 21 sample_db)) (monitors sample_db)\<rparr>"
  have run: "DeleteLocation 90 1 21 sample_db = Inr (1, ?d3)"
    by (simp add: DeleteLocation_def sample_defs affected_by_def without_location_def Let_def
        RecordIntervalsTx_def)
  have bound: "remaining_locations 8 ?d3 = 1"
    by (simp add: remaining_locations_def without_location_def sample_defs)
  have aff: "affected_by 21 sample_db (sample_monitor 8 1 2)"
    by (simp add: affected_by_def sample_defs)
  from DeleteLocation_untangles [OF sample_db_ok run sample_find(2)] aff bound
  obtain m' where "find_monitor 8 ?d3 = Some m'" "1 \<le> m_location_quorum m'" "m_location_quorum m' \<le> 1"
    "find_location_state 8 21 ?d3 = None" by auto
  with run show ?thesis by (intro exI [of _ 1] exI [of _ ?d3] exI [of _ m']) simp
qed

end
