(* ===== verification/System.thy ===== *)
theory System
  imports Administration
begin

text \<open>
  The writers of the store together. Every writer is a transaction that locks the monitor row
  first (S-O1), so any concurrent run of the services is, on one monitor, a sequence of whole
  transactions; here a run is an arbitrary sequence of transactions, each with an arbitrary
  \<open>NOW()\<close>, since a transaction may have begun long before it obtained the lock. A transaction
  that fails is rolled back.
\<close>

section \<open>Transactions\<close>

datatype transaction =
    HandleMessage env time time string "CheckResultMessage option"
  | RecordResult time time Result
  | MarkUnknown time uuid
  | Reaggregate time uuid
  | MeshBatch int nat "mesh_edge_state \<Rightarrow> bool" "meshEdge \<Rightarrow> bool" time
  | CreateMonitor "monitor \<Rightarrow> bool" time monitor
  | DeleteMonitor time uuid uuid
  | DeleteMonitors time uuid "uuid list"
  | PurgeMonitor uuid
  | ToggleMonitor time uuid uuid bool
  | ReplaceLocations time uuid uuid "uuid list"
  | RemoveLocation time uuid uuid
  | AddLocation "string \<Rightarrow> string" uuid uuid string "string option" string
  | ChangeLocation "string \<Rightarrow> string" uuid uuid string bool "string option"

definition committed :: "db \<Rightarrow> 'e + 'a \<times> db \<Rightarrow> db" where
  "committed d res = (case res of Inl _ \<Rightarrow> d | Inr (_, d') \<Rightarrow> d')"

definition committed_db :: "db \<Rightarrow> 'e + db \<Rightarrow> db" where
  "committed_db d res = (case res of Inl _ \<Rightarrow> d | Inr d' \<Rightarrow> d')"

fun execute :: "db \<Rightarrow> transaction \<Rightarrow> db" where
  "execute d (HandleMessage env now clock subject data) = snd (handleMessage env now clock subject data d)"
| "execute d (RecordResult now clock r) = committed d (Record now clock r d)"
| "execute d (MarkUnknown now mid) = committed d (markMonitorUnknown now mid d)"
| "execute d (Reaggregate now mid) = committed d (reaggregateMonitor now mid d)"
| "execute d (MeshBatch interval limit locked publish now) = snd (runMeshBatch interval limit locked publish now d)"
| "execute d (CreateMonitor checks now m) = committed_db d (Create checks now m d)"
| "execute d (DeleteMonitor now tid mid) = committed_db d (Delete now tid mid d)"
| "execute d (DeleteMonitors now tid mids) = snd (BulkSoftDelete now tid mids d)"
| "execute d (PurgeMonitor mid) = HardDelete mid d"
| "execute d (ToggleMonitor now tid mid e) = committed_db d (SetEnabled now tid mid e d)"
| "execute d (ReplaceLocations now tid mid ls) = committed_db d (SetLocations now tid mid ls d)"
| "execute d (RemoveLocation now tid lid) = committed d (DeleteLocation now tid lid d)"
| "execute d (AddLocation lower lid tid name ep cred) = committed_db d (CreateLocation lower lid tid name ep cred d)"
| "execute d (ChangeLocation lower tid lid name e ep) = committed_db d (UpdateLocation lower tid lid name e ep d)"

definition run :: "db \<Rightarrow> transaction list \<Rightarrow> db" where
  "run d txs = foldl execute d txs"

text \<open>The database of a new installation: no rows but the tenants.\<close>

definition empty_db :: "uuid list \<Rightarrow> db" where
  "empty_db ts = \<lparr>tenants = ts, monitors = [], locations = [], monitor_locations = [],
     location_states = [], check_results = [], rollup_dirty = [], state_intervals = [],
     mesh_states = [], mesh_results = []\<rparr>"

section \<open>What the writers leave alone\<close>

text \<open>
  Every writer but the purge and the writers of locations: the tenants, the locations and the mesh
  stay, no monitor disappears, and the history only grows.
\<close>

definition quiet :: "db \<Rightarrow> db \<Rightarrow> bool" where
  "quiet d d' \<longleftrightarrow> tenants d' = tenants d \<and> locations d' = locations d \<and>
     mesh_states d' = mesh_states d \<and> mesh_results d' = mesh_results d \<and>
     set (check_results d) \<subseteq> set (check_results d') \<and>
     m_id ` set (monitors d) \<subseteq> m_id ` set (monitors d')"

lemma quiet_refl [simp]: "quiet d d"
  by (simp add: quiet_def)

lemma quiet_trans: "quiet d d' \<Longrightarrow> quiet d' d'' \<Longrightarrow> quiet d d''"
  unfolding quiet_def by (metis subset_trans)

lemma quiet_update [simp]:
  assumes "keeps_identity f"
  shows "quiet d (update_monitor mid f d)"
proof -
  have "set (map m_id (monitors (update_monitor mid f d))) = set (map m_id (monitors d))"
    using assms by (simp only: update_monitor_ids)
  then show ?thesis by (simp add: quiet_def update_monitor_def)
qed

lemma quiet_tables [simp]:
  "quiet d (d\<lparr>location_states := ss\<rparr>)" "quiet d (d\<lparr>state_intervals := ivs\<rparr>)"
  "quiet d (d\<lparr>rollup_dirty := ks\<rparr>)" "quiet d (d\<lparr>monitor_locations := mls\<rparr>)"
  by (simp_all add: quiet_def)

lemma quiet_interval: "RecordIntervalTx now tid mid s r d = Inr d' \<Longrightarrow> quiet d d'"
  by (auto simp: RecordIntervalTx_def insert_interval_def quiet_def Let_def split: if_splits)

lemma quiet_insert: "insertResult now clock r d = Inr (b, d') \<Longrightarrow> quiet d d'"
  by (auto simp: insertResult_def mark_bucket_def quiet_def Let_def split: if_splits)

lemma quiet_write:
  assumes "RecordIntervalTx now tid mid s r (update_monitor x f b) = Inr d'" and "keeps_identity f" and "quiet d b"
  shows "quiet d d'"
  using assms quiet_trans quiet_update quiet_interval by blast

lemma quiet_Record: "Record now clock r d = Inr (t, d') \<Longrightarrow> quiet d d'"
  by (auto simp: Record_def Let_def bindE_eq_Inr split: option.splits if_splits
      dest!: quiet_insert elim!: quiet_write intro: quiet_trans [OF _ quiet_update])

lemma quiet_upsert [simp]: "quiet d (upsert_location_state now r l t d)"
  by (simp add: upsert_location_state_def quiet_def split: option.split)

lemma quiet_persistAtLocation: "persistAtLocation now clock r l d = Inr (oc, d') \<Longrightarrow> quiet d d'"
  by (auto simp: persistAtLocation_def Let_def bindE_eq_Inr split: option.splits if_splits prod.splits
      dest!: quiet_insert elim!: quiet_write
      intro: quiet_trans [OF quiet_trans [OF _ quiet_upsert] quiet_update] quiet_trans [OF _ quiet_upsert])

lemma quiet_persist: "persist now clock m ids d = Inr (oc, d') \<Longrightarrow> quiet d d'"
  by (auto simp: persist_def Let_def InsertOnly_def bindE_eq_Inr split: if_splits option.splits
      dest: quiet_insert quiet_Record quiet_persistAtLocation)

lemma quiet_watchdog:
  "markMonitorUnknown now mid d = Inr (t, d') \<Longrightarrow> quiet d d'"
  "reaggregateMonitor now mid d = Inr (t, d') \<Longrightarrow> quiet d d'"
  by (auto simp: markMonitorUnknown_def reaggregateMonitor_def Let_def bindE_eq_Inr
      split: option.splits if_splits prod.splits elim!: quiet_write)

lemma quiet_Create: "Create checks now m d = Inr d' \<Longrightarrow> quiet d d'"
proof -
  have "quiet d (d\<lparr>monitors := monitors d @ [x]\<rparr>)" for x by (auto simp: quiet_def)
  moreover assume "Create checks now m d = Inr d'"
  ultimately show ?thesis
    by (auto simp: Create_def Let_def split: if_splits dest!: quiet_interval intro: quiet_trans)
qed

lemma quiet_monitors:
  assumes "\<And>m. m_id (f m) = m_id m"
  shows "quiet d (d\<lparr>monitors := sql_update p f (monitors d)\<rparr>)"
proof -
  have "set (map m_id (sql_update p f (monitors d))) = set (map m_id (monitors d))"
    using assms by (simp only: map_sql_update)
  then show ?thesis by (simp add: quiet_def)
qed

lemma quiet_soft_delete:
  "Delete now tid mid d = Inr d' \<Longrightarrow> quiet d d'" "quiet d (snd (BulkSoftDelete now tid mids d))"
proof -
  show "Delete now tid mid d = Inr d' \<Longrightarrow> quiet d d'"
    by (auto simp: Delete_def soft_delete_identity split: option.splits if_splits)
  show "quiet d (snd (BulkSoftDelete now tid mids d))"
    by (simp add: BulkSoftDelete_def Let_def quiet_monitors)
qed

lemma liftDb_Inr: "liftDb m = Inr x \<longleftrightarrow> m = Inr x"
  by (cases m) auto

lemma quiet_SetEnabled: "SetEnabled now tid mid e d = Inr d' \<Longrightarrow> quiet d d'"
  by (auto simp: SetEnabled_def Let_def liftDb_Inr update_location_states_commute
      split: option.splits if_splits
      elim!: quiet_write intro: quiet_trans [OF _ quiet_update] quiet_tables keeps_identity_admin)

lemma quiet_with_locations [simp]: "quiet d (with_locations mid ls d)"
  by (simp add: with_locations_def quiet_def)

lemma quiet_SetLocations: "SetLocations now tid mid ls d = Inr d' \<Longrightarrow> quiet d d'"
  by (auto simp: SetLocations_def Let_def liftDb_Inr split: option.splits if_splits
      elim!: quiet_write intro: quiet_trans [OF quiet_with_locations quiet_update] keeps_identity_admin)

section \<open>The invariant of every run\<close>

lemma store_ok_mesh_states [simp]: "store_ok (d\<lparr>mesh_states := es\<rparr>) = store_ok d"
  "store_ok (d\<lparr>mesh_results := rs\<rparr>) = store_ok d"
  by (simp_all add: store_defs tracked_def monitor_timeline_def)

definition system_ok :: "db \<Rightarrow> bool" where
  "system_ok d \<longleftrightarrow> store_ok d \<and> mesh_ok d"

lemma quiet_mesh_ok: "quiet d d' \<Longrightarrow> mesh_ok d \<Longrightarrow> mesh_ok d'"
  using mesh_ok_cong [of d' d] by (simp add: quiet_def)

text \<open>Mesh edges refer to locations by key and tenant, which no writer of locations changes.\<close>

lemma mesh_ok_locations:
  assumes "mesh_ok d" and "distinct (map l_id ls)"
    and found: "\<And>a. a \<in> set (locations d) \<Longrightarrow> \<exists>b\<in>set ls. l_id b = l_id a \<and> l_tenant_id b = l_tenant_id a"
  shows "mesh_ok (d\<lparr>locations := ls\<rparr>)"
proof -
  have "edge_ok (d\<lparr>locations := ls\<rparr>) e" if e: "edge_ok d e" for e
  proof -
    obtain a b where "a \<in> set (locations d)" "b \<in> set (locations d)" "l_id a = ms_source_location_id e"
      "l_id b = ms_target_location_id e" "l_tenant_id a = l_tenant_id b"
      using e unfolding edge_ok_def by blast
    moreover from this obtain a' b' where "a' \<in> set ls" "b' \<in> set ls" "l_id a' = l_id a" "l_id b' = l_id b"
      "l_tenant_id a' = l_tenant_id a" "l_tenant_id b' = l_tenant_id b"
      using found [of a] found [of b] by blast
    ultimately have "\<exists>a\<in>set ls. \<exists>b\<in>set ls. l_id a = ms_source_location_id e \<and>
        l_id b = ms_target_location_id e \<and> l_tenant_id a = l_tenant_id b"
      by (intro bexI [of _ a'] bexI [of _ b']) simp_all
    with e show ?thesis by (simp add: edge_ok_def)
  qed
  with assms show ?thesis by (simp add: mesh_ok_def)
qed

lemma mesh_ok_update_locations:
  assumes "mesh_ok d" and "\<And>l. l_id (f l) = l_id l" and "\<And>l. l_tenant_id (f l) = l_tenant_id l"
  shows "mesh_ok (d\<lparr>locations := sql_update p f (locations d)\<rparr>)"
proof (rule mesh_ok_locations [OF assms(1)])
  show "distinct (map l_id (sql_update p f (locations d)))"
    using assms by (simp add: map_sql_update mesh_ok_def)
  fix a assume "a \<in> set (locations d)"
  then have "(if p a then f a else a) \<in> set (sql_update p f (locations d))" by (auto simp: set_sql_update)
  with assms show "\<exists>b\<in>set (sql_update p f (locations d)). l_id b = l_id a \<and> l_tenant_id b = l_tenant_id a"
    by (metis (full_types))
qed

lemma CreateLocation_ok:
  assumes "system_ok d" and "CreateLocation lower lid tid name ep cred d = Inr d'"
  shows "system_ok d'"
proof -
  obtain l where l: "d' = d\<lparr>locations := locations d @ [l]\<rparr>" "l_id l \<notin> l_id ` set (locations d)"
    using assms(2) by (auto simp: CreateLocation_def split: if_splits)
  have "mesh_ok (d\<lparr>locations := locations d @ [l]\<rparr>)"
  proof (rule mesh_ok_locations)
    show "mesh_ok d" using assms(1) by (simp add: system_ok_def)
    with l show "distinct (map l_id (locations d @ [l]))" by (simp add: mesh_ok_def)
  qed auto
  then have "mesh_ok d'" using l by simp
  moreover have "store_ok d'" using assms(1) l by (simp add: system_ok_def store_defs)
  ultimately show ?thesis by (simp add: system_ok_def)
qed

lemma UpdateLocation_ok:
  assumes "system_ok d" and "UpdateLocation lower tid lid name e ep d = Inr d'"
  shows "system_ok d'"
proof -
  obtain p f where d': "d' = d\<lparr>locations := sql_update p f (locations d)\<rparr>"
    and f: "\<And>l. l_id (f l) = l_id l" "\<And>l. l_tenant_id (f l) = l_tenant_id l"
    using assms(2) by (fastforce simp: UpdateLocation_def Let_def split: if_splits)
  have "store_ok d'"
    unfolding d' using assms(1) f by (intro store_ok_locations) (simp_all add: system_ok_def map_sql_update)
  with mesh_ok_update_locations [of d f p] assms(1) f show ?thesis by (simp add: system_ok_def d')
qed

lemma DeleteLocation_mesh:
  assumes ok: "store_ok d" "mesh_ok d" and run: "DeleteLocation now tid lid d = Inr (n, d')"
  shows "mesh_ok d'"
proof -
  obtain ms ivs where d': "d' = (without_location now tid lid d)\<lparr>monitors := ms, state_intervals := ivs\<rparr>"
    by (rule DeleteLocation_cases [OF ok(1) run]) blast
  let ?u = "d\<lparr>locations := sql_update (\<lambda>l. l_id l = lid \<and> l_tenant_id l = tid \<and> l_deleted_at l = None)
      (\<lambda>l. l\<lparr>l_deleted_at := Some now\<rparr>) (locations d)\<rparr>"
  have "mesh_ok ?u" using ok(2) by (rule mesh_ok_update_locations) simp_all
  then show ?thesis using mesh_ok_cong [of d' ?u] by (simp add: d' without_location_def)
qed

lemma edge_ok_reschedule: "edge_ok d (e\<lparr>ms_next_run_at := t, ms_updated_at := u\<rparr>) = edge_ok d e"
  by (simp add: edge_ok_def)

lemma fold_reschedule_ok:
  "\<forall>e\<in>set rows. edge_ok d e \<Longrightarrow> e \<in> set (fold (reschedule_edge i now) es rows) \<Longrightarrow> edge_ok d e"
proof (induction es arbitrary: rows)
  case (Cons x es)
  have "\<forall>e\<in>set (reschedule_edge i now x rows). edge_ok d e"
    using Cons.prems(1) unfolding reschedule_edge_def set_sql_update by (auto simp: edge_ok_reschedule)
  from Cons.IH [OF this] Cons.prems(2) show ?case by simp
qed simp

lemma runMeshBatch_ok:
  assumes "system_ok d"
  shows "system_ok (snd (runMeshBatch i n locked publish now d))"
proof (cases "fetchDueMeshEdges n locked now (syncMeshEdges now d)")
  case None
  then show ?thesis using assms by (simp add: runMeshBatch_def Let_def)
next
  case (Some due)
  let ?d1 = "syncMeshEdges now d"
  let ?es = "fold (reschedule_edge i now) (filter publish due) (mesh_states ?d1)"
  have "mesh_ok ?d1" using assms sync_ok by (simp add: system_ok_def)
  moreover have "edge_ok ?d1 e" if "e \<in> set ?es" for e
    using fold_reschedule_ok [of "mesh_states ?d1" ?d1 e] that calculation by (simp add: mesh_ok_def)
  ultimately have "mesh_ok (?d1\<lparr>mesh_states := ?es\<rparr>)"
    using reschedule_keys by (auto simp: mesh_ok_def edge_ok_def)
  moreover have "store_ok (?d1\<lparr>mesh_states := ?es\<rparr>)"
    using assms store_ok_mesh_states by (simp add: system_ok_def syncMeshEdges_def Let_def)
  ultimately show ?thesis using Some by (simp add: runMeshBatch_def Let_def system_ok_def)
qed

lemma handleMessage_ok:
  assumes "system_ok d" and "handleMessage env now clock subject data d = (h, d')"
  shows "system_ok d'"
proof -
  have ok: "store_ok d" "mesh_ok d" using assms(1) by (simp_all add: system_ok_def)
  from ok(1) assms(2) show ?thesis
  proof (cases rule: handleMessage_cases)
    case mesh
    then have "mesh_ok d'" using ok persistMeshResult_ok by blast
    moreover obtain rs es where "d' = d\<lparr>mesh_results := rs, mesh_states := es\<rparr>"
      using persistMeshResult_frame [OF mesh(6)] by blast
    then have "store_ok d'" using ok by simp
    ultimately show ?thesis by (simp add: system_ok_def)
  next
    case persisted
    then have "store_ok d'" "mesh_ok d'"
      using persist_ok [OF ok(1) persisted(5)] quiet_mesh_ok [OF quiet_persist [OF persisted(5)] ok(2)] by blast+
    then show ?thesis by (simp add: system_ok_def)
  qed (use assms(1) in simp_all)
qed

lemma committed_simps [simp]:
  "committed d (Inl e) = d" "committed d (Inr (x, d')) = d'"
  "committed_db d (Inl e) = d" "committed_db d (Inr d') = d'"
  by (simp_all add: committed_def committed_db_def)

lemma committed_quiet:
  assumes "system_ok d" and "\<And>x d'. res = Inr (x, d') \<Longrightarrow> store_ok d' \<and> quiet d d'"
  shows "system_ok (committed d res)"
  using assms quiet_mesh_ok by (cases res) (auto simp: system_ok_def)

lemma committed_db_quiet:
  assumes "system_ok d" and "\<And>d'. res = Inr d' \<Longrightarrow> store_ok d' \<and> quiet d d'"
  shows "system_ok (committed_db d res)"
  using assms quiet_mesh_ok by (cases res) (auto simp: system_ok_def)

lemma watchdog_store_ok:
  assumes "store_ok d"
  shows "markMonitorUnknown now mid d = Inr (t, d') \<Longrightarrow> store_ok d'"
    and "reaggregateMonitor now mid d = Inr (t, d') \<Longrightarrow> store_ok d'"
proof -
  show "store_ok d'" if "markMonitorUnknown now mid d = Inr (t, d')"
    by (rule markMonitorUnknown_cases [OF assms, of now mid]) (use that assms in auto)
  show "store_ok d'" if "reaggregateMonitor now mid d = Inr (t, d')"
    by (rule reaggregateMonitor_cases [OF assms, of now mid]) (use that assms in auto)
qed

lemma execute_ok:
  assumes "system_ok d"
  shows "system_ok (execute d tx)"
proof -
  have ok: "store_ok d" "mesh_ok d" using assms by (simp_all add: system_ok_def)
  show ?thesis
  proof (cases tx)
    case (HandleMessage env now clock subject data)
    with handleMessage_ok [OF assms] show ?thesis by (cases "handleMessage env now clock subject data d") simp
  next
    case (PurgeMonitor mid)
    have "mesh_ok (HardDelete mid d)" using ok(2) mesh_ok_cong [of "HardDelete mid d" d] by (simp add: HardDelete_def)
    with PurgeMonitor ok HardDelete_ok show ?thesis by (simp add: system_ok_def)
  next
    case (RemoveLocation now tid lid)
    with ok DeleteLocation_ok DeleteLocation_mesh assms show ?thesis
      by (cases "DeleteLocation now tid lid d") (auto simp: system_ok_def)
  next
    case (AddLocation lower lid tid name ep cred)
    with CreateLocation_ok [OF assms] assms show ?thesis
      by (cases "CreateLocation lower lid tid name ep cred d") auto
  next
    case (ChangeLocation lower tid lid name e ep)
    with UpdateLocation_ok [OF assms] assms show ?thesis
      by (cases "UpdateLocation lower tid lid name e ep d") auto
  next
    case DeleteMonitors
    with ok BulkSoftDelete_ok quiet_mesh_ok [OF quiet_soft_delete(2)] show ?thesis by (simp add: system_ok_def)
  qed (use assms ok in \<open>auto intro!: committed_quiet committed_db_quiet runMeshBatch_ok
        intro: Record_ok quiet_Record watchdog_store_ok quiet_watchdog Create_ok quiet_Create Delete_ok
        quiet_soft_delete SetEnabled_ok quiet_SetEnabled SetLocations_ok quiet_SetLocations\<close>)
qed

interpretation system: machine_run execute system_ok
  by unfold_locales (rule execute_ok)

lemma empty_ok: "system_ok (empty_db ts)"
  by (simp add: empty_db_def system_ok_def store_defs mesh_ok_def monitor_timeline_def)

lemma run_ok: "system_ok (run (empty_db ts) txs)"
  unfolding run_def by (rule system.run_inv) (rule empty_ok)

section \<open>Recorded evidence\<close>

text \<open>A result whose evidence is already recorded changes nothing, whatever became of its monitor.\<close>

lemma insertResult_known:
  "list_ex (same_evidence r) (check_results d) \<Longrightarrow> insertResult now clock r d = Inr (b, d') \<Longrightarrow> \<not> b \<and> d' = d"
  by (auto simp: insertResult_def split: if_splits)

lemma persist_known:
  assumes "list_ex (same_evidence (to_result m ids)) (check_results d)"
    and "persist now clock m ids d = Inr (oc, d')"
  shows "d' = d \<and> \<not> (\<not> oc_duplicate oc \<and> oc_stateChanged oc)"
  using assms(2) insertResult_known [OF assms(1)]
  by (auto simp: persist_def Let_def InsertOnly_def Record_def persistAtLocation_def bindE_eq_Inr unapplied_def
      split: if_splits option.splits)

lemma quiet_history: "quiet d d' \<Longrightarrow> set (check_results d) \<subseteq> set (check_results d')"
  by (simp add: quiet_def)

lemma committed_history:
  "(\<And>x d'. res = Inr (x, d') \<Longrightarrow> quiet d d') \<Longrightarrow> set (check_results d) \<subseteq> set (check_results (committed d res))"
  "(\<And>d'. res' = Inr d' \<Longrightarrow> quiet d d') \<Longrightarrow> set (check_results d) \<subseteq> set (check_results (committed_db d res'))"
proof -
  show "set (check_results d) \<subseteq> set (check_results (committed d res))"
    if q: "\<And>x d'. res = Inr (x, d') \<Longrightarrow> quiet d d'"
  proof (cases res)
    case (Inr b)
    then obtain x d' where "res = Inr (x, d')" by (cases b) simp
    with q show ?thesis by (simp add: quiet_def)
  qed simp
  show "set (check_results d) \<subseteq> set (check_results (committed_db d res'))"
    if "\<And>d'. res' = Inr d' \<Longrightarrow> quiet d d'" using that by (cases res') (simp_all add: quiet_def)
qed

lemma handleMessage_history:
  assumes "store_ok d" and "handleMessage env now clock subject data d = (h, d')"
  shows "set (check_results d) \<subseteq> set (check_results d')"
  using assms
proof (cases rule: handleMessage_cases)
  case mesh
  then show ?thesis using persistMeshResult_frame by fastforce
qed (auto dest: quiet_persist quiet_history)

lemma DeleteLocation_history:
  assumes "store_ok d" and "DeleteLocation now tid lid d = Inr (n, d')"
  shows "check_results d' = check_results d"
proof -
  obtain ms ivs where "d' = (without_location now tid lid d)\<lparr>monitors := ms, state_intervals := ivs\<rparr>"
    by (rule DeleteLocation_cases [OF assms]) blast
  then show ?thesis by (simp add: without_location_def)
qed

lemma execute_history:
  assumes ok: "system_ok d" and c: "c \<in> set (check_results d)" and keep: "tx \<noteq> PurgeMonitor (cr_monitor_id c)"
  shows "c \<in> set (check_results (execute d tx))"
proof -
  have st: "store_ok d" using ok by (simp add: system_ok_def)
  have "set (check_results d) \<subseteq> set (check_results (execute d tx))" if "\<forall>mid. tx \<noteq> PurgeMonitor mid"
  proof (cases tx)
    case (HandleMessage env now clock subject data)
    with handleMessage_history [OF st] show ?thesis
      by (cases "handleMessage env now clock subject data d") simp
  next
    case (MeshBatch i n locked publish now)
    then show ?thesis by (simp add: runMeshBatch_def syncMeshEdges_def Let_def split: option.split)
  next
    case (RemoveLocation now tid lid)
    with DeleteLocation_history [OF st] show ?thesis by (cases "DeleteLocation now tid lid d") auto
  next
    case AddLocation
    then show ?thesis by (simp add: CreateLocation_def)
  next
    case ChangeLocation
    then show ?thesis by (simp add: UpdateLocation_def Let_def)
  next
    case DeleteMonitors
    with quiet_history [OF quiet_soft_delete(2)] show ?thesis by simp
  qed (use that in \<open>simp_all add: committed_history quiet_Record quiet_watchdog quiet_Create
          quiet_soft_delete quiet_SetEnabled quiet_SetLocations\<close>)
  with c keep show ?thesis by (cases tx) (auto simp: HardDelete_def)
qed

lemma run_history:
  assumes "system_ok d" and "c \<in> set (check_results d)" and "PurgeMonitor (cr_monitor_id c) \<notin> set txs"
  shows "c \<in> set (check_results (run d txs))"
  unfolding run_def using assms
proof (induction txs arbitrary: d)
  case (Cons tx txs)
  have "tx \<noteq> PurgeMonitor (cr_monitor_id c)" using Cons.prems(3) by auto
  from Cons.IH [OF execute_ok [OF Cons.prems(1)] execute_history [OF Cons.prems(1,2) this]] Cons.prems(3)
  show ?case by simp
qed simp

section \<open>Properties\<close>


lemma sample_run:
  "\<exists>m\<in>set (monitors (run (empty_db [1])
      [CreateMonitor (\<lambda>_. True) 0 (sample_monitor 7 2 1), MarkUnknown 900 7])). m_type m \<noteq> ''group''"
  by (simp add: run_def empty_db_def Create_def new_monitor_row_def sample_monitor_def RecordIntervalTx_def
      insert_interval_def find_monitor_def IntervalReasons_def Let_def markMonitorUnknown_def eligible_def)






end
