(* ===== verification/Bytes.thy ===== *)
theory Bytes
  imports Prelude "HOL-Library.Word" "HOL-Library.Monad_Syntax"
begin

text \<open>
  Byte slices as the media code (\<open>worker/internal/rtp\<close>) uses them. A slice is a list of octets; an
  index or a slice expression that is out of range panics, which is the value \<open>None\<close> of
  \<open>index_byte\<close> and of the readers below, so that a parser over them is total only if it never
  panics. The big-endian writers and readers of \<open>encoding/binary\<close> form a codec; the locale
  \<open>fixed_codec\<close> states what a client needs of one, and each width interprets it.
\<close>

unbundle bit_operations_syntax

type_synonym byte = "8 word"
type_synonym bytes = "byte list"
type_synonym uint16 = "16 word"
type_synonym uint32 = "32 word"
type_synonym uint64 = "64 word"

text \<open>Go's integer division truncates towards zero.\<close>

definition go_div :: "int \<Rightarrow> int \<Rightarrow> int" where
  "go_div a b = sgn a * sgn b * (\<bar>a\<bar> div \<bar>b\<bar>)"

lemma go_div_nonneg: "0 \<le> a \<Longrightarrow> 0 < b \<Longrightarrow> go_div a b = a div b"
  by (cases "a = 0") (simp_all add: go_div_def)

section \<open>Indexing\<close>

definition index_byte :: "bytes \<Rightarrow> nat \<Rightarrow> byte option" where
  "index_byte b i = (if i < length b then Some (b ! i) else None)"

text \<open>The slice expressions \<open>b[i:]\<close> and \<open>b[i:j]\<close>.\<close>

definition slice_from :: "bytes \<Rightarrow> nat \<Rightarrow> bytes option" where
  "slice_from b i = (if i \<le> length b then Some (drop i b) else None)"

definition slice :: "bytes \<Rightarrow> nat \<Rightarrow> nat \<Rightarrow> bytes option" where
  "slice b i j = (if i \<le> j \<and> j \<le> length b then Some (take (j - i) (drop i b)) else None)"

lemma index_byte_simps [simp]:
  "index_byte (x # xs) 0 = Some x" "index_byte (x # xs) (Suc i) = index_byte xs i"
  "index_byte (x # xs) (numeral k) = index_byte xs (pred_numeral k)"
  "index_byte (x # xs) 1 = index_byte xs 0"
  by (simp_all add: index_byte_def numeral_eq_Suc)

lemma index_byte_Some: "i < length b \<Longrightarrow> index_byte b i = Some (b ! i)"
  by (simp add: index_byte_def)

section \<open>Big-endian numbers\<close>

definition AppendUint16 :: "bytes \<Rightarrow> uint16 \<Rightarrow> bytes" where
  "AppendUint16 dst v = dst @ [ucast (drop_bit 8 v), ucast v]"

definition AppendUint32 :: "bytes \<Rightarrow> uint32 \<Rightarrow> bytes" where
  "AppendUint32 dst v = dst @ [ucast (drop_bit 24 v), ucast (drop_bit 16 v), ucast (drop_bit 8 v), ucast v]"

definition AppendUint64 :: "bytes \<Rightarrow> uint64 \<Rightarrow> bytes" where
  "AppendUint64 dst v = dst @ map (\<lambda>n. ucast (drop_bit n v)) [56, 48, 40, 32, 24, 16, 8, 0]"

fun Uint16 :: "bytes \<Rightarrow> uint16 option" where
  "Uint16 (a # b # rest) = Some (push_bit 8 (ucast a) OR ucast b)"
| "Uint16 b = None"

fun Uint32 :: "bytes \<Rightarrow> uint32 option" where
  "Uint32 (a # b # c # d # rest) =
     Some (push_bit 24 (ucast a) OR push_bit 16 (ucast b) OR push_bit 8 (ucast c) OR ucast d)"
| "Uint32 b = None"

lemma Uint_None:
  "Uint16 b = None \<longleftrightarrow> length b < 2" "Uint32 b = None \<longleftrightarrow> length b < 4"
  by (cases b rule: Uint16.cases; simp) (cases b rule: Uint32.cases; simp)

text \<open>
  A codec of a fixed width: what is appended has that width and reads back, and what was read is
  what stood there.
\<close>

locale fixed_codec =
  fixes append :: "bytes \<Rightarrow> 'v \<Rightarrow> bytes" and read :: "bytes \<Rightarrow> 'v option" and width :: nat
  assumes append_is_append: "append dst v = dst @ append [] v"
    and append_width: "length (append [] v) = width"
    and read_append: "read (append [] v @ rest) = Some v"
    and read_Some: "read b = Some v \<Longrightarrow> append [] v = take width b"
    and read_total: "width \<le> length b \<Longrightarrow> read b \<noteq> None"
begin

lemma length_append: "length (append dst v) = length dst + width"
  by (subst append_is_append) (simp add: append_width)

lemma append_inject: "append dst v = append dst w \<longleftrightarrow> v = w"
proof
  assume "append dst v = append dst w"
  then have "append [] v = append [] w" by (metis append_is_append same_append_eq)
  then show "v = w" using read_append [of v "[]"] read_append [of w "[]"] by simp
qed simp

lemma read_at: "read (drop (length dst) (append dst v @ rest)) = Some v"
  by (subst append_is_append) (simp add: read_append)

lemma read_agrees: "read b = Some v \<Longrightarrow> width \<le> length b \<Longrightarrow> b = append [] v @ drop width b"
  by (simp add: read_Some)

end

lemma ucast_bytes16: "push_bit 8 (ucast (ucast (drop_bit 8 v) :: byte)) OR ucast (ucast v :: byte) = (v :: uint16)"
  by (rule bit_word_eqI) (auto simp: bit_simps)

lemma ucast_bytes32:
  "push_bit 24 (ucast (ucast (drop_bit 24 v) :: byte)) OR push_bit 16 (ucast (ucast (drop_bit 16 v) :: byte)) OR
   push_bit 8 (ucast (ucast (drop_bit 8 v) :: byte)) OR ucast (ucast v :: byte) = (v :: uint32)"
proof (rule bit_word_eqI)
  fix n assume "n < LENGTH(32)"
  then consider "n < 8" | "8 \<le> n" "n < 16" | "16 \<le> n" "n < 24" | "24 \<le> n" "n < 32" by fastforce
  then show "bit (push_bit 24 (ucast (ucast (drop_bit 24 v) :: byte)) OR
      push_bit 16 (ucast (ucast (drop_bit 16 v) :: byte)) OR
      push_bit 8 (ucast (ucast (drop_bit 8 v) :: byte)) OR ucast (ucast v :: byte) :: uint32) n = bit v n"
    by cases (auto simp: bit_simps)
qed

lemma bytes_ucast16:
  "ucast (drop_bit 8 (push_bit 8 (ucast a) OR ucast b :: uint16)) = (a :: byte)"
  "ucast (push_bit 8 (ucast (a :: byte)) OR ucast b :: uint16) = (b :: byte)"
  by (rule bit_word_eqI; auto simp: bit_simps dest: bit_imp_le_length)+

lemma bytes_ucast32:
  fixes a b c d :: byte
  defines "v \<equiv> push_bit 24 (ucast a) OR push_bit 16 (ucast b) OR push_bit 8 (ucast c) OR ucast d :: uint32"
  shows "ucast (drop_bit 24 v) = a" "ucast (drop_bit 16 v) = b" "ucast (drop_bit 8 v) = c" "ucast v = d"
  unfolding v_def by (rule bit_word_eqI; auto simp: bit_simps dest: bit_imp_le_length)+

interpretation u16: fixed_codec AppendUint16 Uint16 2
proof
  fix b v assume "Uint16 b = Some v"
  then show "AppendUint16 [] v = take 2 b"
    by (cases b rule: Uint16.cases) (auto simp: AppendUint16_def bytes_ucast16 simp del: drop_bit_or)
qed (auto simp: AppendUint16_def ucast_bytes16 Uint_None)

interpretation u32: fixed_codec AppendUint32 Uint32 4
proof
  fix b v assume "Uint32 b = Some v"
  then show "AppendUint32 [] v = take 4 b"
    by (cases b rule: Uint32.cases) (auto simp: AppendUint32_def bytes_ucast32 simp del: drop_bit_or)
qed (auto simp: AppendUint32_def ucast_bytes32 Uint_None)

end
