(* ===== verification/RtpSequence.thy ===== *)
theory RtpSequence
  imports Bytes
begin

text \<open>
  The sequence-number machine of a media stream (\<open>worker/internal/rtp/seq.go\<close>, RFC 3550 A.1): 16-bit
  numbers that wrap are extended to integers that do not. The machine's word arithmetic is that of
  Go's \<open>uint16\<close> and \<open>uint32\<close>; \<open>cycles\<close> (an \<open>int64\<close>) and the epoch count are integers, which no call
  is long enough to overflow.
\<close>

section \<open>Definitions\<close>

definition MinSequential :: int where "MinSequential = 2"
definition MaxDropout :: int where "MaxDropout = 3000"
definition MaxMisorder :: int where "MaxMisorder = 100"
definition seqMod :: int where "seqMod = 2 ^ 16"

lemmas seq_consts = MinSequential_def MaxDropout_def MaxMisorder_def seqMod_def

record Sequence =
  sq_started :: bool
  sq_probation :: int
  sq_maxSeq :: uint16
  sq_badSeq :: uint32
  sq_cycles :: int
  sq_epoch :: int

text \<open>The zero value, ready for a source's first packet.\<close>

definition zero_sequence :: Sequence where
  "zero_sequence = \<lparr>sq_started = False, sq_probation = 0, sq_maxSeq = 0, sq_badSeq = 0, sq_cycles = 0, sq_epoch = 0\<rparr>"

definition init_seq :: "uint16 \<Rightarrow> Sequence \<Rightarrow> Sequence" where
  "init_seq seq s = s\<lparr>sq_maxSeq := seq, sq_badSeq := word_of_int (seqMod + 1), sq_cycles := 0\<rparr>"

record update_result =
  ur_ext :: int
  ur_epoch :: int
  ur_ok :: bool

definition result_of :: "int \<Rightarrow> Sequence \<Rightarrow> bool \<Rightarrow> update_result" where
  "result_of ext s ok = \<lparr>ur_ext = ext, ur_epoch = sq_epoch s, ur_ok = ok\<rparr>"

definition start_seq :: "uint16 \<Rightarrow> Sequence \<Rightarrow> Sequence" where
  "start_seq seq s =
     (if sq_started s then s
      else (init_seq seq (s\<lparr>sq_started := True\<rparr>))\<lparr>sq_maxSeq := seq - 1, sq_probation := MinSequential\<rparr>)"

definition Update :: "uint16 \<Rightarrow> Sequence \<Rightarrow> update_result \<times> Sequence" where
  "Update seq s0 =
     (let s = start_seq seq s0 in
      if sq_probation s > 0 then
        if seq = sq_maxSeq s + 1 then
          let s1 = s\<lparr>sq_probation := sq_probation s - 1, sq_maxSeq := seq\<rparr> in
          if sq_probation s1 = 0 then
            let s2 = init_seq seq s1 in (result_of (uint seq) s2 True, s2)
          else (result_of 0 s1 False, s1)
        else
          let s1 = s\<lparr>sq_probation := MinSequential - 1, sq_maxSeq := seq\<rparr> in (result_of 0 s1 False, s1)
      else
        let udelta = seq - sq_maxSeq s in
        if uint udelta < MaxDropout then
          let s1 = (if seq < sq_maxSeq s then s\<lparr>sq_cycles := sq_cycles s + seqMod\<rparr> else s)\<lparr>sq_maxSeq := seq\<rparr> in
          (result_of (sq_cycles s1 + uint seq) s1 True, s1)
        else if uint udelta \<le> seqMod - MaxMisorder then
          if ucast seq \<noteq> sq_badSeq s then
            let s1 = s\<lparr>sq_badSeq := ucast (seq + 1) AND word_of_int (seqMod - 1)\<rparr> in (result_of 0 s1 False, s1)
          else
            let s1 = init_seq seq (s\<lparr>sq_epoch := sq_epoch s + 1\<rparr>) in (result_of (uint seq) s1 True, s1)
        else
          (result_of (if seq > sq_maxSeq s then sq_cycles s + uint seq - seqMod else sq_cycles s + uint seq) s True, s))"

text \<open>A stream's packets one after another, and what is reported of each.\<close>

fun update_all :: "uint16 list \<Rightarrow> Sequence \<Rightarrow> update_result list \<times> Sequence" where
  "update_all [] s = ([], s)"
| "update_all (q # qs) s =
     (let (r, s1) = Update q s; (rs, s2) = update_all qs s1 in (r # rs, s2))"

section \<open>Unwrapping\<close>

text \<open>
  The sender's own count of its packets is an integer \<open>n\<close>, of which the header carries the low 16
  bits. The machine tracks a stream when its state describes the highest count \<open>M\<close> so far, relative
  to a base that is a whole number of wraps.
\<close>

definition tracks :: "int \<Rightarrow> int \<Rightarrow> Sequence \<Rightarrow> bool" where
  "tracks base M s \<longleftrightarrow> sq_started s \<and> sq_probation s = 0 \<and> sq_maxSeq s = word_of_int M \<and>
     sq_cycles s + M mod seqMod = M - base"

lemma uint_word_16: "uint (word_of_int n :: uint16) = n mod 65536"
  by (simp add: uint_word_of_int)

lemma uint_delta: "uint (word_of_int n - word_of_int M :: uint16) = (n - M) mod 65536"
proof -
  have "word_of_int n - word_of_int M = (word_of_int (n - M) :: uint16)" by simp
  then show ?thesis by (simp only: uint_word_16)
qed

lemma less_word_16: "(word_of_int n < (word_of_int M :: uint16)) \<longleftrightarrow> n mod 65536 < M mod 65536"
  by (simp add: word_less_def uint_word_16)

text \<open>Two counts whose distance is less than a wrap are in the same cycle or in adjacent ones.\<close>

lemma cycle_of:
  fixes n M :: int
  assumes "M \<le> n" and "n < M + 65536"
  shows "n - n mod 65536 = M - M mod 65536 + (if n mod 65536 < M mod 65536 then 65536 else 0)"
proof -
  define a where "a = n div 65536"
  define b where "b = M div 65536"
  define r where "r = n mod 65536"
  define t where "t = M mod 65536"
  have n: "n = 65536 * a + r" "0 \<le> r" "r < 65536" and M: "M = 65536 * b + t" "0 \<le> t" "t < 65536"
    by (simp_all add: a_def r_def b_def t_def)
  have "a = b + (if r < t then 1 else 0)"
  proof (cases "r < t")
    case True
    have "b < a" "a < b + 2" using assms n M True by linarith+
    with True show ?thesis by simp
  next
    case False
    have "b \<le> a" "a < b + 1" using assms n M False by linarith+
    with False show ?thesis by simp
  qed
  then have "n - r = M - t + (if r < t then 65536 else 0)" using n(1) M(1) by simp
  then show ?thesis unfolding r_def t_def .
qed

lemma Update_tracks:
  assumes tr: "tracks base M s" and near: "M - MaxMisorder < n" "n < M + MaxDropout"
  obtains s' where "Update (word_of_int n) s = (\<lparr>ur_ext = n - base, ur_epoch = sq_epoch s, ur_ok = True\<rparr>, s')"
    "tracks base (max M n) s'" "sq_epoch s' = sq_epoch s"
proof -
  have s: "start_seq (word_of_int n) s = s" "\<not> sq_probation s > 0" "sq_maxSeq s = word_of_int M"
    "sq_cycles s = M - base - M mod 65536"
    using tr by (auto simp: tracks_def start_seq_def seqMod_def)
  show thesis
  proof (cases "M \<le> n")
    case True
    let ?s1 = "(if (word_of_int n :: uint16) < sq_maxSeq s then s\<lparr>sq_cycles := sq_cycles s + seqMod\<rparr> else s)
        \<lparr>sq_maxSeq := word_of_int n\<rparr>"
    have a: "(n - M) mod 65536 < 3000"
      "n - n mod 65536 = M - M mod 65536 + (if n mod 65536 < M mod 65536 then 65536 else 0)"
      using True near cycle_of [of M n] by (simp_all add: seq_consts)
    have c: "sq_cycles ?s1 + n mod 65536 = n - base"
      using a(2) by (simp add: s less_word_16 seqMod_def split: if_splits)
    have "Update (word_of_int n) s = (result_of (sq_cycles ?s1 + n mod 65536) ?s1 True, ?s1)"
      using a(1) s by (simp add: Update_def Let_def uint_delta uint_word_16 seq_consts)
    moreover have "tracks base (max M n) ?s1"
      using c True tr by (simp add: tracks_def max_def seqMod_def)
    ultimately show thesis
      using c by (intro that [of ?s1]) (simp_all add: result_of_def)
  next
    case False
    have a: "65436 < (n - M) mod 65536"
      "n - n mod 65536 = M - M mod 65536 - (if M mod 65536 < n mod 65536 then 65536 else 0)"
    proof -
      have "(n - M) mod 65536 = n - M + 65536"
        using False near mod_pos_pos_trivial [of "n - M + 65536" 65536] by (simp add: seq_consts)
      then show "65436 < (n - M) mod 65536" using near by (simp add: seq_consts)
      show "n - n mod 65536 = M - M mod 65536 - (if M mod 65536 < n mod 65536 then 65536 else 0)"
        using False near cycle_of [of n M] by (simp add: seq_consts)
    qed
    have e: "(if M mod 65536 < n mod 65536 then sq_cycles s + n mod 65536 - 65536
        else sq_cycles s + n mod 65536) = n - base"
      using a(2) by (simp add: s split: if_splits)
    have "Update (word_of_int n) s = (result_of (n - base) s True, s)"
      unfolding e [symmetric]
      using a(1) s(1-3) by (simp add: Update_def Let_def uint_delta uint_word_16 less_word_16 seq_consts)
    then show thesis
      using False tr by (intro that [of s]) (simp_all add: result_of_def max_def)
  qed
qed

text \<open>The sender's counts, each close enough to the highest before it.\<close>

fun near_highest :: "int \<Rightarrow> int list \<Rightarrow> bool" where
  "near_highest M [] = True"
| "near_highest M (n # ns) = (M - MaxMisorder < n \<and> n < M + MaxDropout \<and> near_highest (max M n) ns)"

lemma update_all_tracks:
  assumes "tracks base M s" and "near_highest M ns"
  shows "fst (update_all (map word_of_int ns) s) =
    map (\<lambda>n. \<lparr>ur_ext = n - base, ur_epoch = sq_epoch s, ur_ok = True\<rparr>) ns"
  using assms
proof (induction ns arbitrary: s M)
  case (Cons n ns)
  from Cons.prems have near: "M - MaxMisorder < n" "n < M + MaxDropout" "near_highest (max M n) ns" by auto
  obtain s' where u: "Update (word_of_int n) s = (\<lparr>ur_ext = n - base, ur_epoch = sq_epoch s, ur_ok = True\<rparr>, s')"
    and s': "tracks base (max M n) s'" "sq_epoch s' = sq_epoch s"
    by (rule Update_tracks [OF Cons.prems(1) near(1,2)])
  from Cons.IH [OF s'(1) near(3)] u s'(2) show ?case by (simp add: case_prod_unfold Let_def)
qed simp

text \<open>Two packets in sequence end the probation of a new source.\<close>

lemma probation:
  fixes a :: int
  defines "base \<equiv> (a + 1) - (a + 1) mod seqMod"
  obtains s1 s2 where "Update (word_of_int a) zero_sequence = (\<lparr>ur_ext = 0, ur_epoch = 0, ur_ok = False\<rparr>, s1)"
    "Update (word_of_int (a + 1)) s1 = (\<lparr>ur_ext = (a + 1) - base, ur_epoch = 0, ur_ok = True\<rparr>, s2)"
    "tracks base (a + 1) s2" "sq_epoch s2 = 0"
proof -
  let ?s1 = "\<lparr>sq_started = True, sq_probation = 1, sq_maxSeq = word_of_int a,
      sq_badSeq = word_of_int (seqMod + 1), sq_cycles = 0, sq_epoch = 0\<rparr>"
  let ?s2 = "\<lparr>sq_started = True, sq_probation = 0, sq_maxSeq = word_of_int (a + 1),
      sq_badSeq = word_of_int (seqMod + 1), sq_cycles = 0, sq_epoch = 0\<rparr>"
  have "Update (word_of_int a) zero_sequence = (\<lparr>ur_ext = 0, ur_epoch = 0, ur_ok = False\<rparr>, ?s1)"
    by (simp add: Update_def start_seq_def zero_sequence_def init_seq_def result_of_def seq_consts)
  moreover have "word_of_int (a + 1) = (word_of_int a + 1 :: uint16)" by simp
  then have "Update (word_of_int (a + 1)) ?s1 = (\<lparr>ur_ext = (a + 1) - base, ur_epoch = 0, ur_ok = True\<rparr>, ?s2)"
    using uint_word_16 [of "a + 1"]
    by (simp add: Update_def start_seq_def init_seq_def result_of_def base_def seq_consts)
  moreover have "tracks base (a + 1) ?s2" by (simp add: tracks_def base_def)
  ultimately show thesis by (intro that [of ?s1 ?s2]) simp_all
qed

section \<open>Properties\<close>

text \<open>
  C39. Sequence numbers are unwrapped exactly. Let a sender number its packets by integers of which
  each header carries the low 16 bits, and let the packets \<open>a\<close> and \<open>a + 1\<close> arrive first and then any
  packets in any order, with any losses and duplicates, as long as each is less than \<open>MaxMisorder\<close>
  behind and less than \<open>MaxDropout\<close> ahead of the highest so far. Then every packet after the first
  counts, none starts a new epoch, and the extended numbers handed back are the sender's own
  numbers minus one fixed base, however often the 16 bits wrap.
\<close>

theorem Sequence_unwraps:
  assumes "near_highest (a + 1) ns"
  shows "fst (update_all (map word_of_int (a # (a + 1) # ns)) zero_sequence) =
    \<lparr>ur_ext = 0, ur_epoch = 0, ur_ok = False\<rparr> #
    map (\<lambda>n. \<lparr>ur_ext = n - ((a + 1) - (a + 1) mod seqMod), ur_epoch = 0, ur_ok = True\<rparr>) ((a + 1) # ns)"
proof -
  obtain s1 s2 where u: "Update (word_of_int a) zero_sequence = (\<lparr>ur_ext = 0, ur_epoch = 0, ur_ok = False\<rparr>, s1)"
    "Update (word_of_int (a + 1)) s1 =
       (\<lparr>ur_ext = (a + 1) - ((a + 1) - (a + 1) mod seqMod), ur_epoch = 0, ur_ok = True\<rparr>, s2)"
    and t: "tracks ((a + 1) - (a + 1) mod seqMod) (a + 1) s2" "sq_epoch s2 = 0"
    by (rule probation)
  show ?thesis
    using update_all_tracks [OF t(1) assms] u t(2)
    by (simp add: case_prod_unfold Let_def del: of_int_add)
qed

theorem Sequence_unwraps_witness:
  "fst (update_all [65533, 65534, 65535, 1, 0, 3] zero_sequence) =
    \<lparr>ur_ext = 0, ur_epoch = 0, ur_ok = False\<rparr> #
    map (\<lambda>n. \<lparr>ur_ext = n, ur_epoch = 0, ur_ok = True\<rparr>) [65534, 65535, 65537, 65536, 65539]"
proof -
  have w: "map word_of_int (65533 # (65533 + 1) # [65535, 65537, 65536, 65539]) =
      ([65533, 65534, 65535, 1, 0, 3] :: uint16 list)" by simp
  have "near_highest (65533 + 1) [65535, 65537, 65536, 65539]" by (simp add: seq_consts)
  from Sequence_unwraps [OF this, unfolded w] show ?thesis by (simp add: seqMod_def del: update_all.simps)
qed

text \<open>
  A stray packet does not disturb a stream, and a restart needs confirmation. A packet at least
  \<open>MaxDropout\<close> ahead of a tracked stream (and not so far that it wraps round to within \<open>MaxMisorder\<close>
  behind) that no jump announced does not count and leaves the position of the stream alone; only
  if the very next number follows it does a new epoch begin, whose numbers start afresh.
\<close>

theorem jump_needs_confirmation:
  assumes tr: "tracks base M s" and far: "M + MaxDropout \<le> n" "n + 1 \<le> M + seqMod - MaxMisorder"
    and bad: "ucast (word_of_int n :: uint16) \<noteq> sq_badSeq s"
  shows "\<exists>s1. Update (word_of_int n) s = (\<lparr>ur_ext = 0, ur_epoch = sq_epoch s, ur_ok = False\<rparr>, s1) \<and>
    tracks base M s1 \<and>
    (\<exists>s2. Update (word_of_int (n + 1)) s1 =
        (\<lparr>ur_ext = (n + 1) mod seqMod, ur_epoch = sq_epoch s + 1, ur_ok = True\<rparr>, s2) \<and>
       tracks (n + 1 - (n + 1) mod seqMod) (n + 1) s2)"
proof -
  let ?s1 = "s\<lparr>sq_badSeq := ucast (word_of_int n + 1 :: uint16) AND word_of_int (seqMod - 1)\<rparr>"
  let ?s2 = "init_seq (word_of_int (n + 1)) (?s1\<lparr>sq_epoch := sq_epoch s + 1\<rparr>)"
  have s: "start_seq q s = s" "\<not> sq_probation s > 0" "sq_maxSeq s = word_of_int M" for q
    using tr by (auto simp: tracks_def start_seq_def)
  have d: "(n - M) mod 65536 = n - M" "(n + 1 - M) mod 65536 = n + 1 - M"
    using far by (auto simp: seq_consts intro!: mod_pos_pos_trivial)
  have u1: "Update (word_of_int n) s = (\<lparr>ur_ext = 0, ur_epoch = sq_epoch s, ur_ok = False\<rparr>, ?s1)"
    using bad far s by (simp add: Update_def Let_def uint_delta d result_of_def seq_consts)
  have m16: "word_of_int (seqMod - 1) = (mask 16 :: uint32)" by (simp add: seqMod_def mask_eq_exp_minus_1)
  have mask: "ucast (q :: uint16) AND (word_of_int (seqMod - 1)) = (ucast q :: uint32)" for q
    unfolding m16 by (rule bit_word_eqI) (auto simp: bit_simps dest: bit_imp_le_length)
  have s1: "start_seq q ?s1 = ?s1" for q using tr by (simp add: tracks_def start_seq_def)
  have next_word: "word_of_int (n + 1) = (word_of_int n + 1 :: uint16)" by simp
  have u2: "Update (word_of_int (n + 1)) ?s1 =
      (\<lparr>ur_ext = (n + 1) mod seqMod, ur_epoch = sq_epoch s + 1, ur_ok = True\<rparr>, ?s2)"
    using far s s1 uint_delta [of "n + 1" M] uint_word_16 [of "n + 1"]
    by (simp add: Update_def Let_def mask [simplified seqMod_def, simplified] d result_of_def init_seq_def seq_consts)
  have t1: "tracks base M ?s1" using tr by (simp add: tracks_def)
  have t2: "tracks (n + 1 - (n + 1) mod seqMod) (n + 1) ?s2"
    using tr by (simp add: tracks_def init_seq_def)
  show ?thesis using u1 u2 t1 t2 by (intro exI [of _ ?s1] exI [of _ ?s2] conjI)
qed

theorem jump_needs_confirmation_witness:
  "\<exists>s1. Update 5100 (snd (Update 101 (snd (Update 100 zero_sequence)))) =
     (\<lparr>ur_ext = 0, ur_epoch = 0, ur_ok = False\<rparr>, s1) \<and>
     (\<exists>s2. Update 5101 s1 = (\<lparr>ur_ext = 5101, ur_epoch = 1, ur_ok = True\<rparr>, s2))"
proof -
  let ?s = "snd (Update 101 (snd (Update 100 zero_sequence)))"
  have s: "?s = \<lparr>sq_started = True, sq_probation = 0, sq_maxSeq = 101, sq_badSeq = 65537, sq_cycles = 0, sq_epoch = 0\<rparr>"
    by (simp add: Update_def start_seq_def zero_sequence_def init_seq_def seq_consts Let_def)
  have t: "tracks 0 101 ?s" unfolding s by (simp add: tracks_def seq_consts)
  have "ucast (word_of_int 5100 :: uint16) \<noteq> sq_badSeq ?s" unfolding s by simp
  from jump_needs_confirmation [OF t _ _ this] show ?thesis
    unfolding s by (auto simp: seq_consts)
qed

text \<open>
  The comments speak of packets at most \<open>MaxMisorder\<close> behind; the comparison leaves out the boundary:
  a packet exactly \<open>MaxMisorder\<close> behind is read as a jump and does not count.
\<close>

lemma exactly_MaxMisorder_behind_is_a_jump:
  assumes tr: "tracks base M s" and bad: "ucast (word_of_int (M - MaxMisorder) :: uint16) \<noteq> sq_badSeq s"
  shows "\<not> ur_ok (fst (Update (word_of_int (M - MaxMisorder)) s))"
proof -
  have s: "start_seq q s = s" "\<not> sq_probation s > 0" "sq_maxSeq s = word_of_int M" for q
    using tr by (auto simp: tracks_def start_seq_def)
  have "uint (word_of_int (M - MaxMisorder) - word_of_int M :: uint16) = 65436"
    unfolding uint_delta by (simp add: seq_consts)
  with s bad show ?thesis by (simp add: Update_def Let_def result_of_def seq_consts)
qed

end
