(* ===== verification/RtpPacket.thy ===== *)
theory RtpPacket
  imports Bytes
begin

text \<open>
  RTP packets on the wire (\<open>worker/internal/rtp/packet.go\<close>) and the echo marker in their payload
  (\<open>echo.go\<close>). \<open>Parse\<close> is the result of the Go function, or \<open>None\<close> if an index expression of its
  body were out of range: that it never is, for any datagram, is a lemma.
\<close>

section \<open>Definitions\<close>

definition HeaderSize :: nat where
  "HeaderSize = 12"

record Header =
  h_Marker :: bool
  h_PayloadType :: byte
  h_Seq :: uint16
  h_Timestamp :: uint32
  h_SSRC :: uint32

record Packet =
  p_Header :: Header
  p_Payload :: bytes

datatype rtp_error = ErrShort | ErrVersion | ErrRTCPType | ErrCSRC | ErrExtension | ErrPadding | ErrNoPayload

text \<open>Where the payload begins: after the CSRC list and the header extension, if they fit.\<close>

definition payload_offset :: "bytes \<Rightarrow> byte \<Rightarrow> (rtp_error + nat) option" where
  "payload_offset b b0 =
     (let off = HeaderSize + 4 * unat (b0 AND 0x0f) in
      if off > length b then Some (Inl ErrCSRC)
      else if b0 AND 0x10 \<noteq> 0 then
        (if off + 4 > length b then Some (Inl ErrExtension)
         else do {
           tail \<leftarrow> slice_from b (off + 2);
           words \<leftarrow> Uint16 tail;
           let off' = off + (4 + 4 * unat words);
           if off' > length b then Some (Inl ErrExtension) else Some (Inr off')
         })
      else Some (Inr off))"

text \<open>Where it ends: before the padding, whose count is the last octet.\<close>

definition payload_end :: "bytes \<Rightarrow> byte \<Rightarrow> nat \<Rightarrow> (rtp_error + nat) option" where
  "payload_end b b0 off =
     (if b0 AND 0x20 \<noteq> 0 then do {
        last_byte \<leftarrow> index_byte b (length b - 1);
        let pad = unat last_byte;
        if pad = 0 \<or> off + pad > length b then Some (Inl ErrPadding)
        else Some (Inr (length b - pad))
      }
      else Some (Inr (length b)))"

definition Parse :: "bytes \<Rightarrow> (rtp_error + Packet) option" where
  "Parse b =
     (if length b < HeaderSize then Some (Inl ErrShort)
      else do {
        b0 \<leftarrow> index_byte b 0;
        if drop_bit 6 b0 \<noteq> 2 then Some (Inl ErrVersion)
        else do {
          b1 \<leftarrow> index_byte b 1;
          let pt = b1 AND 0x7f;
          if pt \<ge> 72 \<and> pt \<le> 76 then Some (Inl ErrRTCPType)
          else do {
            r \<leftarrow> payload_offset b b0;
            (case r of Inl e \<Rightarrow> Some (Inl e) | Inr off \<Rightarrow> do {
               r' \<leftarrow> payload_end b b0 off;
               (case r' of Inl e \<Rightarrow> Some (Inl e) | Inr end_ \<Rightarrow>
                  if end_ = off then Some (Inl ErrNoPayload)
                  else do {
                    s \<leftarrow> slice_from b 2; seq \<leftarrow> Uint16 s;
                    t \<leftarrow> slice_from b 4; ts \<leftarrow> Uint32 t;
                    u \<leftarrow> slice_from b 8; ssrc \<leftarrow> Uint32 u;
                    payload \<leftarrow> slice b off end_;
                    Some (Inr \<lparr>p_Header = \<lparr>h_Marker = (b1 AND 0x80 \<noteq> 0), h_PayloadType = pt, h_Seq = seq,
                                            h_Timestamp = ts, h_SSRC = ssrc\<rparr>,
                               p_Payload = payload\<rparr>)
                  })
             })
          }
        }
      })"

definition AppendPacket :: "bytes \<Rightarrow> Header \<Rightarrow> bytes \<Rightarrow> bytes" where
  "AppendPacket dst h payload =
     (let b1 = h_PayloadType h AND 0x7f;
          b1' = (if h_Marker h then b1 OR 0x80 else b1);
          dst1 = dst @ [0x80, b1'];
          dst2 = AppendUint16 dst1 (h_Seq h);
          dst3 = AppendUint32 dst2 (h_Timestamp h);
          dst4 = AppendUint32 dst3 (h_SSRC h) in
      dst4 @ payload)"

text \<open>Version 2 and one of the packet types 200 to 204; the length test comes first.\<close>

definition IsRTCP :: "bytes \<Rightarrow> bool" where
  "IsRTCP b = (case b of b0 # b1 # _ \<Rightarrow> drop_bit 6 b0 = 2 \<and> b1 \<ge> 200 \<and> b1 \<le> 204 | _ \<Rightarrow> False)"

section \<open>The echo marker\<close>

definition EchoMarkerSize :: nat where
  "EchoMarkerSize = 8"

definition echoMagic :: bytes where
  "echoMagic = [0x50, 0x52, 0x42, 0x31]"

text \<open>The payload must be at least as long as the marker, which is written over its beginning.\<close>

definition PutEchoMarker :: "bytes \<Rightarrow> uint16 \<Rightarrow> uint32 \<Rightarrow> bytes option" where
  "PutEchoMarker payload seq ssrc =
     (if length payload < EchoMarkerSize then None
      else Some (AppendUint16 (AppendUint16 echoMagic seq) (ucast ssrc) @ drop EchoMarkerSize payload))"

datatype EchoMatch = NotEcho | EchoBySSRC | EchoByMarker

definition MatchEcho :: "Packet \<Rightarrow> uint32 \<Rightarrow> bool \<Rightarrow> (uint16 \<times> EchoMatch) option" where
  "MatchEcho p ssrc markers =
     (if h_SSRC (p_Header p) = ssrc then Some (h_Seq (p_Header p), EchoBySSRC)
      else if markers \<and> length (p_Payload p) \<ge> EchoMarkerSize \<and> take 4 (p_Payload p) = echoMagic then do {
        t \<leftarrow> slice_from (p_Payload p) 6; low \<leftarrow> Uint16 t;
        if low = ucast ssrc then do {
          s \<leftarrow> slice_from (p_Payload p) 4; seq \<leftarrow> Uint16 s;
          Some (seq, EchoByMarker)
        }
        else Some (0, NotEcho)
      }
      else Some (0, NotEcho))"

section \<open>No datagram makes the parser panic\<close>

lemma slice_from_Some [simp]: "i \<le> length b \<Longrightarrow> slice_from b i = Some (drop i b)"
  by (simp add: slice_from_def)

lemma payload_offset_total:
  assumes "payload_offset b b0 = r"
  shows "\<exists>x. r = Some x \<and> (\<forall>off. x = Inr off \<longrightarrow> HeaderSize \<le> off \<and> off \<le> length b)"
proof -
  let ?off = "HeaderSize + 4 * unat (b0 AND 0x0f)"
  show ?thesis
  proof (cases "?off + 4 \<le> length b")
    case True
    then obtain w where "Uint16 (drop (?off + 2) b) = Some w"
      using Uint_None(1) [of "drop (?off + 2) b"] by auto
    with True assms show ?thesis by (auto simp: payload_offset_def Let_def)
  next
    case False
    with assms show ?thesis by (auto simp: payload_offset_def Let_def)
  qed
qed

lemma payload_end_total:
  assumes "payload_end b b0 off = r" and "off \<le> length b" and "b \<noteq> []"
  shows "\<exists>x. r = Some x \<and> (\<forall>e. x = Inr e \<longrightarrow> off \<le> e \<and> e \<le> length b)"
  using assms by (auto simp: payload_end_def Let_def index_byte_def)

text \<open>
  \<open>Parse\<close> on a datagram of at least twelve octets, in terms of its fields: the rest of the proofs
  use this form.
\<close>

lemma Parse_cases:
  obtains (err) e where "Parse b = Some (Inl e)"
  | (packet) off e b0 b1 seq ts ssrc where "HeaderSize \<le> length b" "b ! 0 = b0" "b ! 1 = b1"
      "drop_bit 6 b0 = 2" "\<not> (b1 AND 0x7f \<ge> 72 \<and> b1 AND 0x7f \<le> 76)"
      "HeaderSize \<le> off" "off < e" "e \<le> length b"
      "Uint16 (drop 2 b) = Some seq" "Uint32 (drop 4 b) = Some ts" "Uint32 (drop 8 b) = Some ssrc"
      "Parse b = Some (Inr \<lparr>p_Header = \<lparr>h_Marker = (b1 AND 0x80 \<noteq> 0), h_PayloadType = b1 AND 0x7f,
         h_Seq = seq, h_Timestamp = ts, h_SSRC = ssrc\<rparr>, p_Payload = take (e - off) (drop off b)\<rparr>)"
proof (cases "length b < HeaderSize \<or> drop_bit 6 (b ! 0) \<noteq> 2 \<or> (b ! 1 AND 0x7f \<ge> 72 \<and> b ! 1 AND 0x7f \<le> 76)")
  case True
  then show thesis
    by (intro err [of "if length b < HeaderSize then ErrShort
          else if drop_bit 6 (b ! 0) \<noteq> 2 then ErrVersion else ErrRTCPType"])
       (auto simp: Parse_def index_byte_def HeaderSize_def Let_def)
next
  case False
  then have len: "HeaderSize \<le> length b" "12 \<le> length b" by (simp_all add: HeaderSize_def)
  then have ix: "index_byte b 0 = Some (b ! 0)" "index_byte b 1 = Some (b ! 1)" "b \<noteq> []"
    by (auto simp: index_byte_def)
  obtain seq ts ssrc where rd: "Uint16 (drop 2 b) = Some seq" "Uint32 (drop 4 b) = Some ts"
      "Uint32 (drop 8 b) = Some ssrc"
    using Uint_None(1) [of "drop 2 b"] Uint_None(2) [of "drop 4 b"] Uint_None(2) [of "drop 8 b"] len by fastforce
  obtain r where r: "payload_offset b (b ! 0) = Some r"
    "\<And>off. r = Inr off \<Longrightarrow> HeaderSize \<le> off \<and> off \<le> length b"
    using payload_offset_total [OF refl] by blast
  show thesis
  proof (cases r)
    case (Inl e)
    with False ix r show thesis by (intro err [of e]) (auto simp: Parse_def Let_def)
  next
    case (Inr off)
    with r have off: "HeaderSize \<le> off" "off \<le> length b" by auto
    obtain r' where r': "payload_end b (b ! 0) off = Some r'"
      "\<And>e. r' = Inr e \<Longrightarrow> off \<le> e \<and> e \<le> length b"
      using payload_end_total [OF refl off(2) ix(3)] by blast
    show thesis
    proof (cases r')
      case (Inl e)
      with False ix r Inr r' show thesis by (intro err [of e]) (auto simp: Parse_def Let_def)
    next
      case E: (Inr e)
      with r' have e: "off \<le> e" "e \<le> length b" by auto
      show thesis
      proof (cases "e = off")
        case True
        with False ix r Inr r' E show thesis by (intro err [of ErrNoPayload]) (auto simp: Parse_def Let_def)
      next
        case ne: False
        have "slice b off e = Some (take (e - off) (drop off b))" using e by (simp add: slice_def)
        with False ix r Inr r' E ne rd len e off show thesis
          by (intro packet [of "b ! 0" "b ! 1" off e seq ts ssrc]) (auto simp: Parse_def Let_def)
      qed
    qed
  qed
qed

section \<open>Reading back what was written\<close>

lemma AppendPacket_Nil:
  "AppendPacket [] h payload =
     0x80 # (if h_Marker h then (h_PayloadType h AND 0x7f) OR 0x80 else h_PayloadType h AND 0x7f) #
     AppendUint16 [] (h_Seq h) @ AppendUint32 [] (h_Timestamp h) @ AppendUint32 [] (h_SSRC h) @ payload"
  by (simp add: AppendPacket_def Let_def AppendUint16_def AppendUint32_def)

lemma AppendPacket_fields:
  fixes h payload
  defines "b \<equiv> AppendPacket [] h payload"
  shows "length b = HeaderSize + length payload" "drop HeaderSize b = payload" "b ! 0 = 0x80"
    "b ! 1 = (if h_Marker h then (h_PayloadType h AND 0x7f) OR 0x80 else h_PayloadType h AND 0x7f)"
    "Uint16 (drop 2 b) = Some (h_Seq h)" "Uint32 (drop 4 b) = Some (h_Timestamp h)"
    "Uint32 (drop 8 b) = Some (h_SSRC h)"
proof -
  let ?s = "AppendUint16 [] (h_Seq h)" and ?t = "AppendUint32 [] (h_Timestamp h)" and ?u = "AppendUint32 [] (h_SSRC h)"
  have b: "b = [0x80, if h_Marker h then (h_PayloadType h AND 0x7f) OR 0x80 else h_PayloadType h AND 0x7f] @
      ?s @ ?t @ ?u @ payload" by (simp add: b_def AppendPacket_Nil)
  have len: "length ?s = 2" "length ?t = 4" "length ?u = 4"
    by (simp_all add: u16.append_width u32.append_width)
  show "length b = HeaderSize + length payload" by (simp add: b len HeaderSize_def)
  show "drop HeaderSize b = payload" by (simp add: b len HeaderSize_def)
  show "Uint16 (drop 2 b) = Some (h_Seq h)" using u16.read_append by (simp add: b)
  show "Uint32 (drop 4 b) = Some (h_Timestamp h)" using u32.read_append by (simp add: b len)
  show "Uint32 (drop 8 b) = Some (h_SSRC h)" using u32.read_append by (simp add: b len)
qed (simp_all add: b_def AppendPacket_Nil)

lemma marker_byte:
  "((x AND 0x7f) OR 0x80) AND 0x7f = (x AND 0x7f :: byte)" "(x AND 0x7f) AND 0x7f = (x AND 0x7f :: byte)"
  "((x AND 0x7f) OR 0x80) AND 0x80 \<noteq> (0 :: byte)" "(x AND 0x7f) AND 0x80 = (0 :: byte)"
proof -
  show "((x AND 0x7f) OR 0x80) AND 0x7f = x AND 0x7f"
    by (simp add: bit.conj_disj_distrib2 and.assoc)
  show "(x AND 0x7f) AND 0x7f = x AND 0x7f" "(x AND 0x7f) AND 0x80 = 0" by (simp_all add: and.assoc)
  have "((x AND 0x7f) OR 0x80) AND 0x80 = (0x80 :: byte)"
    by (simp add: bit.conj_disj_distrib2 and.assoc)
  then show "((x AND 0x7f) OR 0x80) AND 0x80 \<noteq> 0" by simp
qed

lemma low7: "x < 128 \<Longrightarrow> x AND 0x7f = (x :: byte)"
proof -
  assume "x < 128"
  then have "unat x < 128" by (simp add: word_less_nat_alt)
  have "x AND 0x7f = take_bit 7 x" by (simp add: take_bit_eq_mask mask_eq_exp_minus_1)
  moreover have "unat (take_bit 7 x) = unat x"
    using \<open>unat x < 128\<close> by (simp add: unsigned_take_bit_eq take_bit_nat_eq_self)
  ultimately show ?thesis by (simp add: word_unat_eq_iff)
qed

lemma byte_range:
  assumes "200 \<le> b" and "b \<le> 204"
  shows "b \<in> set [200, 201, 202, 203, 204 :: byte]"
proof -
  have "unat b \<in> {200..204}" using assms by (simp add: word_le_nat_alt)
  then have "unat b = 200 \<or> unat b = 201 \<or> unat b = 202 \<or> unat b = 203 \<or> unat b = 204" by auto
  then show ?thesis by (simp add: word_unat_eq_iff)
qed

section \<open>Properties\<close>

text \<open>
  C38. Packets survive the wire. A packet written with \<open>AppendPacket\<close> parses back to exactly its
  header and payload, for every sequence number, timestamp, SSRC and marker bit, provided the
  payload type is a 7-bit one that does not read as RTCP and the payload is not empty.
\<close>

theorem Parse_AppendPacket:
  assumes pt: "h_PayloadType h < 128" "\<not> (72 \<le> h_PayloadType h \<and> h_PayloadType h \<le> 76)"
    and payload: "payload \<noteq> []"
  shows "Parse (AppendPacket [] h payload) = Some (Inr \<lparr>p_Header = h, p_Payload = payload\<rparr>)"
proof -
  let ?b = "AppendPacket [] h payload"
  note f = AppendPacket_fields [of h payload]
  have len: "12 \<le> length ?b" using f(1) by (simp add: HeaderSize_def)
  then have ix: "index_byte ?b 0 = Some 0x80" "index_byte ?b 1 = Some (?b ! 1)"
    using f(3) by (auto simp: index_byte_def)
  have b1: "?b ! 1 AND 0x7f = h_PayloadType h" "(?b ! 1 AND 0x80 \<noteq> 0) = h_Marker h"
    using f(4) marker_byte [of "h_PayloadType h"] low7 [OF pt(1)] by simp_all
  have "payload_offset ?b 0x80 = Some (Inr HeaderSize)" "payload_end ?b 0x80 HeaderSize = Some (Inr (length ?b))"
    using f(1) by (simp_all add: payload_offset_def payload_end_def)
  moreover have "slice ?b HeaderSize (length ?b) = Some payload"
    using f(1,2) by (simp add: slice_def)
  moreover have "length ?b \<noteq> HeaderSize" using f(1) payload by simp
  ultimately show ?thesis
    using len ix b1 f(5-7) pt(2) by (auto simp: Parse_def Let_def HeaderSize_def)
qed

theorem Parse_AppendPacket_witness:
  "Parse (AppendPacket [] \<lparr>h_Marker = True, h_PayloadType = 8, h_Seq = 65535, h_Timestamp = 160,
      h_SSRC = 0xCAFE0001\<rparr> [0xD5]) =
   Some (Inr \<lparr>p_Header = \<lparr>h_Marker = True, h_PayloadType = 8, h_Seq = 65535, h_Timestamp = 160,
      h_SSRC = 0xCAFE0001\<rparr>, p_Payload = [0xD5]\<rparr>)"
  by (rule Parse_AppendPacket) simp_all

text \<open>
  C37. Parsing any datagram is safe. For every sequence of octets \<open>Parse\<close> returns, never panicking
  on an index; an accepted packet has at least one octet of payload, which lies behind the fixed
  header inside the datagram; and no datagram is accepted both as RTP and, on the same port, as
  RTCP.
\<close>

theorem Parse_safe:
  "\<exists>r. Parse b = Some r \<and>
     (case r of Inl _ \<Rightarrow> True
      | Inr p \<Rightarrow> (\<exists>off e. HeaderSize \<le> off \<and> off < e \<and> e \<le> length b \<and>
                    p_Payload p = take (e - off) (drop off b)) \<and> p_Payload p \<noteq> [] \<and>
                h_PayloadType (p_Header p) < 128 \<and> \<not> IsRTCP b)"
proof (cases b rule: Parse_cases)
  case (packet off e b0 b1 seq ts ssrc)
  have "\<not> IsRTCP b"
  proof
    assume "IsRTCP b"
    with packet(2,3) have b1: "200 \<le> b1" "b1 \<le> 204" by (auto simp: IsRTCP_def split: list.splits)
    then have "b1 \<in> set [200, 201, 202, 203, 204]" by (rule byte_range)
    with packet(5) show False by auto
  qed
  moreover have "b1 AND 0x7f < 128"
    using word_and_le1 [of b1 "0x7f"] by (rule le_less_trans) simp
  moreover have "\<exists>o1 e1. HeaderSize \<le> o1 \<and> o1 < e1 \<and> e1 \<le> length b \<and>
      take (e - off) (drop off b) = take (e1 - o1) (drop o1 b)"
    using packet(6-8) by blast
  ultimately show ?thesis using packet(7,8,12) by simp
qed simp

theorem Parse_safe_witness:
  "\<exists>r. Parse [0xA0, 0x08, 0, 1, 0, 0, 0, 0, 0, 0, 0, 7, 0xD5, 9] = Some r"
  using Parse_safe [of "[0xA0, 0x08, 0, 1, 0, 0, 0, 0, 0, 0, 0, 7, 0xD5, 9]"] by blast

text \<open>
  Echoes are recognised. A payload that \<open>PutEchoMarker\<close> has marked identifies its packet in
  whatever re-originated packet carries it back: \<open>MatchEcho\<close> returns the marked sequence number;
  without markers only the probe's own SSRC is taken as an echo; and \<open>MatchEcho\<close> never panics.
\<close>

theorem MatchEcho_marker:
  assumes put: "PutEchoMarker payload seq ssrc = Some marked"
  shows "length marked = length payload \<and>
    (h_SSRC h \<noteq> ssrc \<longrightarrow> MatchEcho \<lparr>p_Header = h, p_Payload = marked\<rparr> ssrc True = Some (seq, EchoByMarker)) \<and>
    (h_SSRC h = ssrc \<longrightarrow> MatchEcho \<lparr>p_Header = h, p_Payload = any\<rparr> ssrc markers = Some (h_Seq h, EchoBySSRC)) \<and>
    (h_SSRC h \<noteq> ssrc \<longrightarrow> MatchEcho \<lparr>p_Header = h, p_Payload = any\<rparr> ssrc False = Some (0, NotEcho)) \<and>
    MatchEcho p ssrc markers \<noteq> None"
proof -
  let ?q = "AppendUint16 [] seq" and ?s = "AppendUint16 [] (ucast ssrc)"
  have m: "marked = echoMagic @ ?q @ ?s @ drop EchoMarkerSize payload" "EchoMarkerSize \<le> length payload"
    using put by (auto simp: PutEchoMarker_def AppendUint16_def split: if_splits)
  have len: "length ?q = 2" "length ?s = 2" "length echoMagic = 4"
    by (simp_all add: u16.append_width echoMagic_def)
  have "length marked = length payload" using m len by (simp add: EchoMarkerSize_def)
  moreover have "MatchEcho \<lparr>p_Header = h, p_Payload = marked\<rparr> ssrc True = Some (seq, EchoByMarker)"
    if "h_SSRC h \<noteq> ssrc"
    using that m len u16.read_append by (simp add: MatchEcho_def EchoMarkerSize_def)
  moreover have "MatchEcho p ssrc markers \<noteq> None"
  proof (cases "length (p_Payload p) \<ge> EchoMarkerSize")
    case True
    then obtain a b where "Uint16 (drop 6 (p_Payload p)) = Some a" "Uint16 (drop 4 (p_Payload p)) = Some b"
      using Uint_None(1) [of "drop 6 (p_Payload p)"] Uint_None(1) [of "drop 4 (p_Payload p)"]
      by (fastforce simp: EchoMarkerSize_def)
    with True show ?thesis by (auto simp: MatchEcho_def EchoMarkerSize_def)
  qed (simp add: MatchEcho_def)
  ultimately show ?thesis by (simp add: MatchEcho_def)
qed

theorem MatchEcho_marker_witness:
  "\<exists>marked. PutEchoMarker [1, 2, 3, 4, 5, 6, 7, 8, 9] 77 0xCAFE0001 = Some marked \<and>
     MatchEcho \<lparr>p_Header = \<lparr>h_Marker = False, h_PayloadType = 0, h_Seq = 5, h_Timestamp = 0, h_SSRC = 3\<rparr>,
                p_Payload = marked\<rparr> 0xCAFE0001 True = Some (77, EchoByMarker)"
proof -
  obtain marked where put: "PutEchoMarker [1, 2, 3, 4, 5, 6, 7, 8, 9] 77 0xCAFE0001 = Some marked"
    by (simp add: PutEchoMarker_def EchoMarkerSize_def)
  from MatchEcho_marker [OF put, of "\<lparr>h_Marker = False, h_PayloadType = 0, h_Seq = 5, h_Timestamp = 0, h_SSRC = 3\<rparr>"] put
  show ?thesis by simp
qed

end
