(* ===== verification/Rtcp.thy ===== *)
theory Rtcp
  imports RtpPacket
begin

text \<open>
  The slice of RTCP a test call speaks (\<open>worker/internal/rtp/rtcp.go\<close>): sender reports and goodbyes
  written, compound packets parsed, and the far end's reports read against what the probe sent.
  Durations are nanoseconds. The figures the code converts to floating point (percentages,
  milliseconds) are kept as the integers they are computed from.
\<close>

section \<open>Constants and time\<close>

definition RTCPSenderReport :: byte where "RTCPSenderReport = 200"
definition RTCPReceiverReport :: byte where "RTCPReceiverReport = 201"
definition RTCPSourceDescription :: byte where "RTCPSourceDescription = 202"
definition RTCPGoodbye :: byte where "RTCPGoodbye = 203"

definition second :: int where "second = 1000000000"
definition ReportEvidence :: int where "ReportEvidence = 10"
definition NegativeReports :: int where "NegativeReports = 2"
definition NegativeAfter :: int where "NegativeAfter = second"
definition MaxRoundTrip :: int where "MaxRoundTrip = 5 * second"
definition ReportLag :: int where "ReportLag = second"
definition rtcpHeaderSize :: nat where "rtcpHeaderSize = 4"
definition senderInfoSize :: nat where "senderInfoSize = 20"
definition reportBlockSize :: nat where "reportBlockSize = 24"
definition maxCNAME :: nat where "maxCNAME = 255"
definition ntpEpochOffset :: int where "ntpEpochOffset = 2208988800"

lemmas rtcp_consts = RTCPSenderReport_def RTCPReceiverReport_def RTCPSourceDescription_def RTCPGoodbye_def
  rtcpHeaderSize_def senderInfoSize_def reportBlockSize_def

text \<open>\<open>unix\<close> and \<open>nano\<close> are \<open>t.Unix()\<close> and \<open>t.Nanosecond()\<close>.\<close>

definition NTPTime :: "int \<Rightarrow> int \<Rightarrow> uint64" where
  "NTPTime unix nano =
     (let secs = (word_of_int (unix + ntpEpochOffset) :: uint64);
          frac = push_bit 32 (word_of_int nano) div word_of_int second in
      push_bit 32 secs OR frac)"

definition NTPMiddle :: "uint64 \<Rightarrow> uint32" where
  "NTPMiddle ntp = ucast (drop_bit 16 ntp)"

section \<open>Writing\<close>

record SenderInfo =
  si_SSRC :: uint32
  si_NTP :: uint64
  si_RTPTime :: uint32
  si_Packets :: uint32
  si_Octets :: uint32

definition AppendSenderReport :: "bytes \<Rightarrow> SenderInfo \<Rightarrow> bytes \<Rightarrow> bytes" where
  "AppendSenderReport dst si cname =
     (let dst1 = dst @ [0x80, RTCPSenderReport, 0, 6];
          dst2 = AppendUint32 dst1 (si_SSRC si);
          dst3 = AppendUint64 dst2 (si_NTP si);
          dst4 = AppendUint32 dst3 (si_RTPTime si);
          dst5 = AppendUint32 dst4 (si_Packets si);
          dst6 = AppendUint32 dst5 (si_Octets si);
          cname' = (if length cname > maxCNAME then take maxCNAME cname else cname);
          items = 2 + length cname';
          pad = 4 - items mod 4;
          words = (4 + items + pad) div 4;
          dst7 = dst6 @ [0x81, RTCPSourceDescription];
          dst8 = AppendUint16 dst7 (of_nat words);
          dst9 = AppendUint32 dst8 (si_SSRC si);
          dst10 = dst9 @ [1, of_nat (length cname')] @ cname' in
      dst10 @ replicate pad 0)"

definition AppendBye :: "bytes \<Rightarrow> uint32 \<Rightarrow> bytes" where
  "AppendBye dst ssrc = AppendUint32 (dst @ [0x81, RTCPGoodbye, 0, 1]) ssrc"

section \<open>Parsing\<close>

record ReportBlock =
  rb_SSRC :: uint32
  rb_FractionLost :: byte
  rb_CumulativeLost :: int
  rb_HighestSeq :: uint32
  rb_Jitter :: uint32
  rb_LSR :: uint32
  rb_DLSR :: uint32

record Compound =
  c_Reports :: int
  c_Blocks :: "ReportBlock list"

datatype rtcp_error = ErrRTCPShort | ErrRTCPVersion | ErrRTCPFirst | ErrRTCPLength | ErrRTCPPadding | ErrRTCPOverflow

definition parseReportBlock :: "bytes \<Rightarrow> ReportBlock option" where
  "parseReportBlock b = do {
     b4 \<leftarrow> slice_from b 4; lost \<leftarrow> Uint32 b4;
     ssrc \<leftarrow> Uint32 b;
     b8 \<leftarrow> slice_from b 8; highest \<leftarrow> Uint32 b8;
     b12 \<leftarrow> slice_from b 12; jitter \<leftarrow> Uint32 b12;
     b16 \<leftarrow> slice_from b 16; lsr \<leftarrow> Uint32 b16;
     b20 \<leftarrow> slice_from b 20; dlsr \<leftarrow> Uint32 b20;
     Some \<lparr>rb_SSRC = ssrc, rb_FractionLost = ucast (drop_bit 24 lost),
           rb_CumulativeLost = sint (signed_drop_bit 8 (push_bit 8 lost)),
           rb_HighestSeq = highest, rb_Jitter = jitter, rb_LSR = lsr, rb_DLSR = dlsr\<rparr>
   }"

text \<open>The padding of the last packet, whose count is its last octet.\<close>

definition strip_padding :: "bytes \<Rightarrow> (rtcp_error + bytes) option" where
  "strip_padding pkt = do {
     b0 \<leftarrow> index_byte pkt 0;
     if b0 AND 0x20 \<noteq> 0 then do {
       last_byte \<leftarrow> index_byte pkt (length pkt - 1);
       let pad = unat last_byte;
       if pad = 0 \<or> rtcpHeaderSize + pad > length pkt then Some (Inl ErrRTCPPadding)
       else Some (Inr (take (length pkt - pad) pkt))
     }
     else Some (Inr pkt)
   }"

text \<open>What one packet adds: the report blocks of an SR or RR, nothing for any other type.\<close>

definition read_reports :: "bytes \<Rightarrow> Compound \<Rightarrow> (rtcp_error + Compound) option" where
  "read_reports pkt c = do {
     b1 \<leftarrow> index_byte pkt 1;
     if b1 = RTCPSenderReport \<or> b1 = RTCPReceiverReport then do {
       b0 \<leftarrow> index_byte pkt 0;
       let start = rtcpHeaderSize + 4 + (if b1 = RTCPSenderReport then senderInfoSize else 0);
       let count = unat (b0 AND 0x1f);
       if length pkt < start + count * reportBlockSize then Some (Inl ErrRTCPOverflow)
       else do {
         blocks \<leftarrow> those (map (\<lambda>i. Option.bind (slice_from pkt (start + i * reportBlockSize)) parseReportBlock) [0..<count]);
         Some (Inr (c\<lparr>c_Reports := c_Reports c + 1, c_Blocks := c_Blocks c @ blocks\<rparr>))
       }
     }
     else Some (Inr c)
   }"

function parse_packets :: "bytes \<Rightarrow> nat \<Rightarrow> Compound \<Rightarrow> (rtcp_error + Compound) option" where
  "parse_packets b off c =
     (if off < length b then
        if length b - off < rtcpHeaderSize then Some (Inl ErrRTCPLength)
        else do {
          b0 \<leftarrow> index_byte b off;
          if drop_bit 6 b0 \<noteq> 2 then Some (Inl ErrRTCPVersion)
          else do {
            t \<leftarrow> slice_from b (off + 2); words \<leftarrow> Uint16 t;
            let size = 4 * (unat words + 1);
            if size > length b - off then Some (Inl ErrRTCPLength)
            else if b0 AND 0x20 \<noteq> 0 \<and> off + size \<noteq> length b then Some (Inl ErrRTCPPadding)
            else do {
              pkt \<leftarrow> slice b off (off + size);
              r \<leftarrow> strip_padding pkt;
              (case r of Inl e \<Rightarrow> Some (Inl e) | Inr pkt' \<Rightarrow> do {
                 r' \<leftarrow> read_reports pkt' c;
                 (case r' of Inl e \<Rightarrow> Some (Inl e) | Inr c' \<Rightarrow> parse_packets b (off + size) c')
               })
            }
          }
        }
      else Some (Inr c))"
  by pat_completeness auto

termination
  by (relation "measure (\<lambda>(b, off, c). length b - off)") auto

declare parse_packets.simps [simp del]

definition ParseRTCP :: "bytes \<Rightarrow> (rtcp_error + Compound) option" where
  "ParseRTCP b =
     (if length b < rtcpHeaderSize then Some (Inl ErrRTCPShort)
      else do {
        b0 \<leftarrow> index_byte b 0;
        if drop_bit 6 b0 \<noteq> 2 then Some (Inl ErrRTCPVersion)
        else do {
          b1 \<leftarrow> index_byte b 1;
          if b0 AND 0x20 \<noteq> 0 \<or> (b1 \<noteq> RTCPSenderReport \<and> b1 \<noteq> RTCPReceiverReport) then Some (Inl ErrRTCPFirst)
          else parse_packets b 0 \<lparr>c_Reports = 0, c_Blocks = []\<rparr>
        }
      })"

section \<open>The far end's reports\<close>

text \<open>The round trip of a block that echoes a sender report, if it comes to a believable value.\<close>

definition RoundTrip :: "uint32 \<Rightarrow> ReportBlock \<Rightarrow> int option" where
  "RoundTrip arrival b =
     (if rb_LSR b = 0 then None
      else
        let v = sint (arrival - rb_LSR b - rb_DLSR b);
            rtt = go_div (v * second) 65536 in
        if v < 0 \<or> rtt > MaxRoundTrip then None else Some rtt)"

record RTCPArrival =
  ra_At :: int
  ra_NTPMiddle :: uint32
  ra_Compound :: Compound

record Sent =
  sent_At :: int
  sent_Seq :: uint16

record RTCPConfig =
  rc_SSRC :: uint32
  rc_FirstSeq :: uint16
  rc_Sent :: int
  rc_FirstSend :: int
  rc_SenderReports :: "uint32 list"
  rc_Sends :: "Sent list"

record OutboundStats =
  ob_Reports :: int
  ob_Expected :: int
  ob_Unreported :: int
  ob_Lost :: int
  ob_CumulativeLost :: int
  ob_Jitter :: uint32
  ob_RTT :: "int option"

record RTCPReport =
  rr_Outbound :: "OutboundStats option"
  rr_RoundTrip :: "int option"
  rr_Confirmed :: bool
  rr_Negative :: bool

record coveredBlock =
  cb_block :: ReportBlock
  cb_covered :: int
  cb_at :: int

record scan =
  sc_rtt :: "int option"
  sc_aboutUs :: bool
  sc_laterReports :: int
  sc_valid :: "coveredBlock list"
  sc_confirmed :: bool

definition scan_block :: "RTCPConfig \<Rightarrow> RTCPArrival \<Rightarrow> ReportBlock \<Rightarrow> scan \<Rightarrow> scan" where
  "scan_block cfg a b s =
     (if rb_SSRC b \<noteq> rc_SSRC cfg then s
      else
        let rtt = (if rb_LSR b \<in> set (rc_SenderReports cfg) then RoundTrip (ra_NTPMiddle a) b else None);
            s1 = s\<lparr>sc_aboutUs := True, sc_rtt := (if rtt = None then sc_rtt s else rtt)\<rparr>;
            past = uint (ucast (rb_HighestSeq b) - rc_FirstSeq cfg) in
        if past \<ge> rc_Sent cfg then s1
        else s1\<lparr>sc_valid := sc_valid s1 @ [\<lparr>cb_block = b, cb_covered = past + 1, cb_at = ra_At a\<rparr>],
                sc_confirmed := sc_confirmed s1 \<or> past \<ge> ReportEvidence\<rparr>)"

definition scan_arrival :: "RTCPConfig \<Rightarrow> RTCPArrival \<Rightarrow> scan \<Rightarrow> scan" where
  "scan_arrival cfg a s =
     (let s1 = (if rc_Sent cfg > 0 \<and> ra_At a \<ge> rc_FirstSend cfg + NegativeAfter
                then s\<lparr>sc_laterReports := sc_laterReports s + c_Reports (ra_Compound a)\<rparr> else s) in
      fold (scan_block cfg a) (c_Blocks (ra_Compound a)) s1)"

text \<open>The binary search of the library for the first element at which \<open>p\<close> no longer holds.\<close>

function bsearch :: "('a \<Rightarrow> bool) \<Rightarrow> 'a list \<Rightarrow> nat \<Rightarrow> nat \<Rightarrow> nat" where
  "bsearch p xs i j =
     (if i < j then
        let h = (i + j) div 2 in
        if p (xs ! h) then bsearch p xs (h + 1) j else bsearch p xs i h
      else i)"
  by pat_completeness auto

termination
  by (relation "measure (\<lambda>(p, xs, i, j). j - i)") auto

declare bsearch.simps [simp del]

definition outbound :: "RTCPConfig \<Rightarrow> int option \<Rightarrow> coveredBlock \<Rightarrow> coveredBlock \<Rightarrow> int \<Rightarrow> OutboundStats" where
  "outbound cfg rtt first_block last_block n =
     (let cutoff = cb_at last_block - (case rtt of None \<Rightarrow> 0 | Some t \<Rightarrow> t) - ReportLag;
          due = int (bsearch (\<lambda>s. sent_At s \<le> cutoff) (rc_Sends cfg) 0 (length (rc_Sends cfg)));
          unreported = max (min due (rc_Sent cfg) - cb_covered last_block) 0;
          cl = rb_CumulativeLost (cb_block last_block);
          delta = cb_covered last_block - cb_covered first_block;
          (expected, lost) =
            (if delta > 0 then (delta, min (max (cl - rb_CumulativeLost (cb_block first_block)) 0) delta)
             else (cb_covered last_block, min (max cl 0) (cb_covered last_block))) in
      \<lparr>ob_Reports = n, ob_Expected = expected + unreported, ob_Unreported = unreported,
       ob_Lost = lost + unreported, ob_CumulativeLost = cl, ob_Jitter = rb_Jitter (cb_block last_block), ob_RTT = rtt\<rparr>)"

definition AnalyzeRTCP :: "RTCPArrival list \<Rightarrow> RTCPConfig \<Rightarrow> RTCPReport" where
  "AnalyzeRTCP arrivals0 cfg =
     (let arrivals = sort_key ra_At arrivals0;
          s = fold (scan_arrival cfg) arrivals
                \<lparr>sc_rtt = None, sc_aboutUs = False, sc_laterReports = 0, sc_valid = [], sc_confirmed = False\<rparr>;
          valid = sc_valid s in
      \<lparr>rr_Outbound = (if valid = [] then None
         else Some (outbound cfg (sc_rtt s) (hd valid) (last valid) (int (length valid)))),
       rr_RoundTrip = sc_rtt s, rr_Confirmed = sc_confirmed s,
       rr_Negative = (\<not> sc_aboutUs s \<and> sc_laterReports s \<ge> NegativeReports)\<rparr>)"

section \<open>No datagram makes the parser panic\<close>

lemma parseReportBlock_total:
  assumes "reportBlockSize \<le> length b"
  obtains r where "parseReportBlock b = Some r"
proof -
  have "Uint32 (drop i b) \<noteq> None" if "i \<le> 20" for i
    using that assms by (simp add: Uint_None reportBlockSize_def)
  from this [of 0] this [of 4] this [of 8] this [of 12] this [of 16] this [of 20]
  have "parseReportBlock b \<noteq> None"
    using assms by (auto simp: parseReportBlock_def reportBlockSize_def)
  then show thesis using that by blast
qed

lemma those_total: "(\<forall>x\<in>set xs. x \<noteq> None) \<Longrightarrow> \<exists>ys. those xs = Some ys \<and> length ys = length xs"
  by (induction xs) (auto split: option.split)

lemma read_reports_total:
  assumes "rtcpHeaderSize \<le> length pkt"
  shows "\<exists>r. read_reports pkt c = Some r \<and> (\<forall>c'. r = Inr c' \<longrightarrow> 
     c_Reports c \<le> c_Reports c' \<and> (\<exists>bs. c_Blocks c' = c_Blocks c @ bs \<and> length bs * reportBlockSize \<le> length pkt))"
proof -
  have ix: "index_byte pkt 0 = Some (pkt ! 0)" "index_byte pkt (Suc 0) = Some (pkt ! 1)"
    using assms by (auto simp: index_byte_def rtcpHeaderSize_def)
  let ?start = "rtcpHeaderSize + 4 + (if pkt ! 1 = RTCPSenderReport then senderInfoSize else 0)"
  let ?count = "unat (pkt ! 0 AND 0x1f)"
  let ?reads = "map (\<lambda>i. Option.bind (slice_from pkt (?start + i * reportBlockSize)) parseReportBlock) [0..<?count]"
  show ?thesis
  proof (cases "length pkt < ?start + ?count * reportBlockSize")
    case True
    then show ?thesis by (auto simp: read_reports_def ix Let_def)
  next
    case False
    have "x \<noteq> None" if "x \<in> set ?reads" for x
    proof -
      obtain i where i: "i < ?count" "x = Option.bind (slice_from pkt (?start + i * reportBlockSize)) parseReportBlock"
        using \<open>x \<in> set ?reads\<close> by auto
      then have "Suc i * reportBlockSize \<le> ?count * reportBlockSize" by (intro mult_right_mono) simp_all
      then have le: "?start + i * reportBlockSize + reportBlockSize \<le> length pkt" using False by simp
      obtain rb where "parseReportBlock (drop (?start + i * reportBlockSize) pkt) = Some rb"
        by (rule parseReportBlock_total [of "drop (?start + i * reportBlockSize) pkt"]) (use le in auto)
      with i(2) le show ?thesis by simp
    qed
    then obtain bs where "those ?reads = Some bs" "length bs = ?count"
      using those_total [of ?reads] by auto
    with False show ?thesis by (auto simp: read_reports_def ix Let_def)
  qed
qed

lemma strip_padding_total:
  assumes "rtcpHeaderSize \<le> length pkt"
  shows "\<exists>r. strip_padding pkt = Some r \<and>
    (\<forall>p. r = Inr p \<longrightarrow> rtcpHeaderSize \<le> length p \<and> length p \<le> length pkt)"
  using assms by (auto simp: strip_padding_def index_byte_def Let_def rtcpHeaderSize_def)

text \<open>Every block that is read took up its 24 octets of the datagram.\<close>

lemma parse_packets_total:
  "off \<le> length b \<Longrightarrow> \<exists>r. parse_packets b off c = Some r \<and> (\<forall>c'. r = Inr c' \<longrightarrow>
     c_Reports c \<le> c_Reports c' \<and>
     (\<exists>bs. c_Blocks c' = c_Blocks c @ bs \<and> length bs * reportBlockSize \<le> length b - off))"
proof (induction b off c rule: parse_packets.induct)
  case (1 b off c)
  show ?case
  proof (cases "off < length b \<and> rtcpHeaderSize \<le> length b - off")
    case False
    then show ?thesis by (subst parse_packets.simps) auto
  next
    case True
    then have h: "off < length b" "\<not> length b - off < rtcpHeaderSize" "4 \<le> length b - off"
      by (simp_all add: rtcpHeaderSize_def)
    obtain words where w: "Uint16 (drop (off + 2) b) = Some words"
      using Uint_None(1) [of "drop (off + 2) b"] h(3) by fastforce
    have sl: "slice_from b (off + 2) = Some (drop (off + 2) b)" using h(3) by simp
    let ?size = "4 * (unat words + 1)"
    have ix: "index_byte b off = Some (b ! off)" using h(1) by (simp add: index_byte_def)
    show ?thesis
    proof (cases "drop_bit 6 (b ! off) = 2 \<and> ?size \<le> length b - off \<and>
        \<not> (b ! off AND 0x20 \<noteq> 0 \<and> off + ?size \<noteq> length b)")
      case False
      then show ?thesis using h ix sl w by (subst parse_packets.simps) (auto simp: Let_def)
    next
      case ok: True
      let ?pkt = "take ?size (drop off b)"
      have pkt: "slice b off (off + ?size) = Some ?pkt" "length ?pkt = ?size"
        using ok h by (auto simp: slice_def)
      have "rtcpHeaderSize \<le> length ?pkt" unfolding pkt(2) by (simp add: rtcpHeaderSize_def)
      then obtain r where r: "strip_padding ?pkt = Some r"
        "\<And>p. r = Inr p \<Longrightarrow> rtcpHeaderSize \<le> length p \<and> length p \<le> length ?pkt"
        using strip_padding_total [of ?pkt] by blast
      have step: "parse_packets b off c = (case r of Inl e \<Rightarrow> Some (Inl e) | Inr pkt' \<Rightarrow>
          Option.bind (read_reports pkt' c) (\<lambda>r'. case r' of Inl e \<Rightarrow> Some (Inl e)
            | Inr c' \<Rightarrow> parse_packets b (off + ?size) c'))"
        using h ix sl w ok pkt r(1) by (subst parse_packets.simps) (auto simp: Let_def split: sum.split)
      show ?thesis
      proof (cases r)
        case (Inl e)
        with step show ?thesis by simp
      next
        case (Inr p)
        with r(2) have p: "rtcpHeaderSize \<le> length p" "length p \<le> ?size" using pkt(2) by auto
        obtain r' where r': "read_reports p c = Some r'" "\<And>c'. r' = Inr c' \<Longrightarrow> c_Reports c \<le> c_Reports c' \<and>
            (\<exists>bs. c_Blocks c' = c_Blocks c @ bs \<and> length bs * reportBlockSize \<le> length p)"
          using read_reports_total [OF p(1), of c] by blast
        show ?thesis
        proof (cases r')
          case (Inl e)
          with step r'(1) Inr show ?thesis by simp
        next
          case c': (Inr c1)
          with r'(2) obtain bs where bs: "c_Reports c \<le> c_Reports c1" "c_Blocks c1 = c_Blocks c @ bs"
            "length bs * reportBlockSize \<le> length p" by blast
          have "\<exists>r. parse_packets b (off + ?size) c1 = Some r \<and> (\<forall>c'. r = Inr c' \<longrightarrow> c_Reports c1 \<le> c_Reports c' \<and>
              (\<exists>bs. c_Blocks c' = c_Blocks c1 @ bs \<and> length bs * reportBlockSize \<le> length b - (off + ?size)))"
            using "1.IH" [OF h(1,2) ix _ sl w refl _ _ pkt(1) r(1) Inr r'(1) c'] ok h(3) by auto
          with step r'(1) Inr c' bs p(2) ok show ?thesis
            by (fastforce simp: add_mult_distrib)
        qed
      qed
    qed
  qed
qed

section \<open>Reading back what was written\<close>

text \<open>One packet of a compound without padding.\<close>

lemma parse_one:
  assumes pkt: "pkt = b0 # b1 # AppendUint16 [] words @ body" "length pkt = 4 * (unat words + 1)"
    and b0: "drop_bit 6 b0 = 2" "b0 AND 0x20 = 0" and rd: "read_reports pkt c = Some (Inr c')"
  shows "parse_packets (pre @ pkt @ rest) (length pre) c = parse_packets (pre @ pkt @ rest) (length pre + length pkt) c'"
proof -
  let ?b = "pre @ pkt @ rest"
  have len: "4 \<le> length pkt" using pkt(2) by simp
  have h: "length pre < length ?b" "\<not> length ?b - length pre < rtcpHeaderSize"
    using len by (auto simp: rtcpHeaderSize_def)
  have ix: "index_byte ?b (length pre) = Some b0" using pkt(1) by (simp add: index_byte_def nth_append)
  have sl: "slice_from ?b (length pre + 2) = Some (AppendUint16 [] words @ body @ rest)"
    using len pkt(1) by simp
  have w: "Uint16 (AppendUint16 [] words @ body @ rest) = Some words" by (rule u16.read_append)
  have sc: "slice ?b (length pre) (length pre + 4 * (unat words + 1)) = Some pkt"
    using pkt(2) by (simp add: slice_def)
  have st: "strip_padding pkt = Some (Inr pkt)"
    using b0(2) pkt(1) by (simp add: strip_padding_def index_byte_def)
  have "\<not> 4 * (unat words + 1) > length ?b - length pre" using pkt(2) by simp
  with h ix sl w sc st b0 rd pkt(2) show ?thesis
    by (subst parse_packets.simps) (simp add: Let_def)
qed

lemma parse_end: "parse_packets b (length b) c = Some (Inr c)"
  by (subst parse_packets.simps) simp

lemma read_other:
  "b1 \<noteq> RTCPSenderReport \<Longrightarrow> b1 \<noteq> RTCPReceiverReport \<Longrightarrow> read_reports (b0 # b1 # rest) c = Some (Inr c)"
  by (simp add: read_reports_def)

lemma read_sender_report:
  assumes "24 \<le> length rest"
  shows "read_reports (0x80 # RTCPSenderReport # x # y # rest) c = Some (Inr (c\<lparr>c_Reports := c_Reports c + 1\<rparr>))"
  using assms by (simp add: read_reports_def Let_def rtcp_consts)

text \<open>The three packets of a compound that ends a call.\<close>

definition sr_packet :: "SenderInfo \<Rightarrow> bytes" where
  "sr_packet si = 0x80 # RTCPSenderReport # AppendUint16 [] 6 @ AppendUint32 [] (si_SSRC si) @
     AppendUint64 [] (si_NTP si) @ AppendUint32 [] (si_RTPTime si) @ AppendUint32 [] (si_Packets si) @
     AppendUint32 [] (si_Octets si)"

definition sdes_packet :: "uint32 \<Rightarrow> bytes \<Rightarrow> bytes" where
  "sdes_packet ssrc cname =
     (let items = 2 + length cname; pad = 4 - items mod 4 in
      0x81 # RTCPSourceDescription # AppendUint16 [] (of_nat ((4 + items + pad) div 4)) @ AppendUint32 [] ssrc @
      [1, of_nat (length cname)] @ cname @ replicate pad 0)"

definition bye_packet :: "uint32 \<Rightarrow> bytes" where
  "bye_packet ssrc = 0x81 # RTCPGoodbye # AppendUint16 [] 1 @ AppendUint32 [] ssrc"

lemma append_codecs:
  "AppendUint64 dst v = dst @ AppendUint64 [] v" "length (AppendUint64 [] v) = 8"
  "AppendUint16 [] 6 = [0, 6]" "AppendUint16 [] 1 = [0, 1]"
  by (simp_all add: AppendUint64_def AppendUint16_def)

lemma AppendSenderReport_packets:
  "AppendSenderReport dst si cname = dst @ sr_packet si @ sdes_packet (si_SSRC si) (take maxCNAME cname)"
proof -
  have "(if maxCNAME < length cname then take maxCNAME cname else cname) = take maxCNAME cname" by simp
  then show ?thesis
    unfolding AppendSenderReport_def sr_packet_def sdes_packet_def Let_def
    by (simp only: append_codecs(1) [of "_ @ _"] u32.append_is_append [of "_ @ _"] u16.append_is_append [of "_ @ _"]
        append_codecs(3) append.assoc append_Cons append_Nil)
qed

lemma AppendBye_packet: "AppendBye dst ssrc = dst @ bye_packet ssrc"
  unfolding AppendBye_def bye_packet_def
  by (subst u32.append_is_append) (simp add: append_codecs(4))

lemma packet_sizes:
  "length (sr_packet si) = 4 * (unat (6 :: uint16) + 1)"
  "length (bye_packet ssrc) = 4 * (unat (1 :: uint16) + 1)"
  "length cname \<le> 255 \<Longrightarrow> length (sdes_packet ssrc cname) =
     4 * (unat (of_nat ((4 + (2 + length cname) + (4 - (2 + length cname) mod 4)) div 4) :: uint16) + 1)"
proof -
  show "length (sr_packet si) = 4 * (unat (6 :: uint16) + 1)"
    by (simp add: sr_packet_def u16.append_width u32.append_width append_codecs(2))
  show "length (bye_packet ssrc) = 4 * (unat (1 :: uint16) + 1)"
    by (simp add: bye_packet_def u16.append_width u32.append_width)
  show "length (sdes_packet ssrc cname) =
     4 * (unat (of_nat ((4 + (2 + length cname) + (4 - (2 + length cname) mod 4)) div 4) :: uint16) + 1)"
    if "length cname \<le> 255"
  proof -
    define items where "items = 2 + length cname"
    define total where "total = 4 + items + (4 - items mod 4)"
    have "4 dvd total" unfolding total_def by presburger
    then have t: "4 * (total div 4) = total" by simp
    have "total div 4 < 65536" using that by (simp add: total_def items_def)
    then have "unat (of_nat (total div 4) :: uint16) = total div 4" by (simp add: unat_of_nat take_bit_nat_eq_self)
    moreover have "length (sdes_packet ssrc cname) = 4 + total"
      unfolding sdes_packet_def Let_def total_def items_def by (simp add: u16.append_width u32.append_width)
    ultimately show ?thesis using t unfolding total_def items_def by simp
  qed
qed

section \<open>Round trips and losses are bounded\<close>

lemma RoundTrip_bounds: "RoundTrip a b = Some t \<Longrightarrow> 0 \<le> t \<and> t \<le> MaxRoundTrip"
  by (auto simp: RoundTrip_def Let_def go_div_nonneg second_def split: if_splits)

lemma bsearch_le: "i \<le> j \<Longrightarrow> i \<le> bsearch p xs i j \<and> bsearch p xs i j \<le> j"
proof (induction p xs i j rule: bsearch.induct)
  case (1 p xs i j)
  show ?case
  proof (cases "i < j")
    case True
    let ?h = "(i + j) div 2"
    have h: "i \<le> ?h" "?h < j" using True by auto
    show ?thesis
      using True "1.IH"(1) [OF True refl] "1.IH"(2) [OF True refl] h
      by (subst (1 2) bsearch.simps) (auto simp: Let_def)
  qed (use "1.prems" in \<open>simp add: bsearch.simps\<close>)
qed

text \<open>On a sorted slice it counts the elements with the property.\<close>

lemma bsearch_sorted:
  assumes "i \<le> j" and "\<And>k. k < i \<Longrightarrow> p (xs ! k)" and "\<And>k. j \<le> k \<Longrightarrow> k < length xs \<Longrightarrow> \<not> p (xs ! k)"
    and "j \<le> length xs" and "\<And>k l. k \<le> l \<Longrightarrow> l < length xs \<Longrightarrow> p (xs ! l) \<Longrightarrow> p (xs ! k)"
  shows "\<forall>k<length xs. p (xs ! k) \<longleftrightarrow> k < bsearch p xs i j"
  using assms
proof (induction p xs i j rule: bsearch.induct)
  case (1 p xs i j)
  show ?case
  proof (cases "i < j")
    case True
    let ?h = "(i + j) div 2"
    have h: "?h < j" "?h < length xs" using True "1.prems"(4) by auto
    show ?thesis
    proof (cases "p (xs ! ?h)")
      case p: True
      have "\<forall>k<length xs. p (xs ! k) \<longleftrightarrow> k < bsearch p xs (?h + 1) j"
      proof (rule "1.IH"(1) [OF True refl p])
        show "p (xs ! k)" if "k < ?h + 1" for k using "1.prems"(5) [of k ?h] h(2) p that by simp
      qed (use "1.prems" h in auto)
      with True p show ?thesis by (subst bsearch.simps) (simp add: Let_def)
    next
      case p: False
      have "\<forall>k<length xs. p (xs ! k) \<longleftrightarrow> k < bsearch p xs i ?h"
        by (rule "1.IH"(2) [OF True refl p]) (use "1.prems" h p True in auto)
      with True p show ?thesis by (subst bsearch.simps) (simp add: Let_def)
    qed
  next
    case False
    with "1.prems" have "i = j" by simp
    then have "p (xs ! k) \<longleftrightarrow> k < i" if "k < length xs" for k
      using "1.prems"(2) [of k] "1.prems"(3) [of k] that by (cases "k < i") auto
    with False show ?thesis by (subst bsearch.simps) simp
  qed
qed

definition scan_ok :: "RTCPConfig \<Rightarrow> scan \<Rightarrow> bool" where
  "scan_ok cfg s \<longleftrightarrow> (\<forall>v\<in>set (sc_valid s). 1 \<le> cb_covered v \<and> cb_covered v \<le> rc_Sent cfg) \<and>
     (\<forall>t. sc_rtt s = Some t \<longrightarrow> 0 \<le> t \<and> t \<le> MaxRoundTrip) \<and> (sc_valid s \<noteq> [] \<longrightarrow> sc_aboutUs s)"

lemma scan_block_ok: "scan_ok cfg s \<Longrightarrow> scan_ok cfg (scan_block cfg a b s)"
  by (auto simp: scan_ok_def scan_block_def Let_def dest: RoundTrip_bounds split: if_splits)

lemma scan_arrival_ok: "scan_ok cfg s \<Longrightarrow> scan_ok cfg (scan_arrival cfg a s)"
proof -
  have "scan_ok cfg (fold (scan_block cfg a) bs s)" if "scan_ok cfg s" for bs s
    using that by (induction bs arbitrary: s) (auto intro: scan_block_ok)
  moreover assume "scan_ok cfg s"
  then have "scan_ok cfg (s\<lparr>sc_laterReports := n\<rparr>)" for n by (simp add: scan_ok_def)
  ultimately show ?thesis using \<open>scan_ok cfg s\<close> by (simp add: scan_arrival_def Let_def)
qed

lemma scan_all_ok: "scan_ok cfg s \<Longrightarrow> scan_ok cfg (fold (scan_arrival cfg) as s)"
  by (induction as arbitrary: s) (auto intro: scan_arrival_ok)

section \<open>Properties\<close>

text \<open>
  Parsing any RTCP datagram is safe. For every sequence of octets \<open>ParseRTCP\<close> ends and returns a
  value or an error, never panicking on an index; and the report blocks of an accepted compound, of
  24 octets each, all fit into the datagram.
\<close>

theorem ParseRTCP_safe:
  "\<exists>r. ParseRTCP b = Some r \<and>
     (\<forall>c. r = Inr c \<longrightarrow> int (length (c_Blocks c)) * int reportBlockSize \<le> int (length b))"
proof (cases "length b < rtcpHeaderSize")
  case True
  then show ?thesis by (simp add: ParseRTCP_def)
next
  case False
  then have "2 \<le> length b" by (simp add: rtcpHeaderSize_def)
  then have ix: "index_byte b 0 = Some (b ! 0)" "index_byte b (Suc 0) = Some (b ! Suc 0)" by (auto simp: index_byte_def)
  obtain r where r: "parse_packets b 0 \<lparr>c_Reports = 0, c_Blocks = []\<rparr> = Some r"
    "\<And>c. r = Inr c \<Longrightarrow> 0 \<le> c_Reports c \<and> length (c_Blocks c) * reportBlockSize \<le> length b"
    using parse_packets_total [of 0 b "\<lparr>c_Reports = 0, c_Blocks = []\<rparr>"] by fastforce
  have "int (length (c_Blocks c)) * int reportBlockSize \<le> int (length b)" if "r = Inr c" for c
    using r(2) [OF that] by (metis of_nat_le_iff of_nat_mult)
  with False ix r show ?thesis by (auto simp: ParseRTCP_def)
qed

theorem ParseRTCP_safe_witness: "\<exists>r. ParseRTCP [0x81, 201, 0, 1, 0, 0, 0, 7] = Some r"
  using ParseRTCP_safe [of "[0x81, 201, 0, 1, 0, 0, 0, 7]"] by blast

text \<open>
  What the probe writes is valid RTCP. The compound of a sender report, a source description with
  any CNAME (cut at 255 octets and padded to a word) and a goodbye passes every check of the
  parser and reads as one report with no blocks; without the goodbye likewise.
\<close>

theorem ParseRTCP_AppendSenderReport:
  "ParseRTCP (AppendSenderReport [] si cname) = Some (Inr \<lparr>c_Reports = 1, c_Blocks = []\<rparr>) \<and>
   ParseRTCP (AppendBye (AppendSenderReport [] si cname) ssrc) = Some (Inr \<lparr>c_Reports = 1, c_Blocks = []\<rparr>)"
proof -
  let ?sr = "sr_packet si" and ?sd = "sdes_packet (si_SSRC si) (take maxCNAME cname)" and ?bye = "bye_packet ssrc"
  let ?c0 = "\<lparr>c_Reports = 0, c_Blocks = []\<rparr>" and ?c1 = "\<lparr>c_Reports = 1, c_Blocks = []\<rparr>"
  let ?cn = "take maxCNAME cname"
  let ?ws = "of_nat ((4 + (2 + length ?cn) + (4 - (2 + length ?cn) mod 4)) div 4) :: uint16"
  let ?body = "AppendUint32 [] (si_SSRC si) @ [1, of_nat (length ?cn)] @ ?cn @ replicate (4 - (2 + length ?cn) mod 4) 0"
  have sd: "?sd = 0x81 # RTCPSourceDescription # AppendUint16 [] ?ws @ ?body"
    unfolding sdes_packet_def Let_def ..
  have sd_len: "length ?sd = 4 * (unat ?ws + 1)"
    by (rule packet_sizes(3)) (simp add: maxCNAME_def)
  let ?srb = "AppendUint32 [] (si_SSRC si) @ AppendUint64 [] (si_NTP si) @ AppendUint32 [] (si_RTPTime si) @
      AppendUint32 [] (si_Packets si) @ AppendUint32 [] (si_Octets si)"
  have sr: "?sr = 0x80 # RTCPSenderReport # AppendUint16 [] 6 @ ?srb" "length ?srb = 24"
    by (simp_all add: sr_packet_def append_codecs(2) u32.append_width)
  have rd: "read_reports ?sr ?c0 = Some (Inr ?c1)"
    unfolding sr(1) append_codecs(3) using read_sender_report [of ?srb 0 6 ?c0] sr(2) by simp
  have one: "parse_packets (?sr @ ?sd @ rest) 0 ?c0 = parse_packets (?sr @ ?sd @ rest) (length (?sr @ ?sd)) ?c1" for rest
  proof -
    have "parse_packets (?sr @ ?sd @ rest) 0 ?c0 = parse_packets (?sr @ ?sd @ rest) (length ?sr) ?c1"
      using parse_one [OF sr(1) packet_sizes(1) _ _ rd, of "[]" "?sd @ rest"] by simp
    also have "\<dots> = parse_packets (?sr @ ?sd @ rest) (length (?sr @ ?sd)) ?c1"
    proof -
      have "read_reports ?sd ?c1 = Some (Inr ?c1)"
        unfolding sd by (rule read_other) (simp_all add: rtcp_consts)
      from parse_one [OF sd sd_len _ _ this, of ?sr rest] show ?thesis by simp
    qed
    finally show ?thesis .
  qed
  have two: "parse_packets (?sr @ ?sd @ ?bye) (length (?sr @ ?sd)) ?c1 =
      parse_packets (?sr @ ?sd @ ?bye) (length (?sr @ ?sd @ ?bye)) ?c1"
  proof -
    have "read_reports ?bye ?c1 = Some (Inr ?c1)"
      unfolding bye_packet_def by (rule read_other) (simp_all add: rtcp_consts)
    from parse_one [OF bye_packet_def packet_sizes(2) _ _ this, of "?sr @ ?sd" "[]"] show ?thesis by (simp add: add.assoc)
  qed
  have start: "ParseRTCP (?sr @ rest) = parse_packets (?sr @ rest) 0 ?c0" for rest
    unfolding ParseRTCP_def sr(1) append_codecs(3) by (simp add: rtcp_consts)
  have "ParseRTCP (AppendSenderReport [] si cname) = Some (Inr ?c1)"
    using start [of ?sd] one [of "[]"] parse_end [of "?sr @ ?sd"] by (simp add: AppendSenderReport_packets)
  moreover have "ParseRTCP (AppendBye (AppendSenderReport [] si cname) ssrc) = Some (Inr ?c1)"
    using start [of "?sd @ ?bye"] one [of ?bye] two parse_end [of "?sr @ ?sd @ ?bye"]
    by (simp add: AppendSenderReport_packets AppendBye_packet)
  ultimately show ?thesis ..
qed

text \<open>
  The loss the far end reports is a proportion. Whatever reports arrive, if any covers packets the
  probe sent then the figures are consistent: at least one packet is expected and never more than
  were sent, the lost ones are between zero and the expected ones and include the unreported tail;
  a measured round trip lies between zero and five seconds; and a far end that reported on the
  probe is never taken for one that heard nothing.
\<close>

theorem AnalyzeRTCP_consistent:
  "(\<forall>ob. rr_Outbound (AnalyzeRTCP arrivals cfg) = Some ob \<longrightarrow>
      1 \<le> ob_Reports ob \<and> 1 \<le> ob_Expected ob \<and> ob_Expected ob \<le> rc_Sent cfg \<and>
      0 \<le> ob_Unreported ob \<and> ob_Unreported ob \<le> ob_Lost ob \<and> ob_Lost ob \<le> ob_Expected ob \<and>
      \<not> rr_Negative (AnalyzeRTCP arrivals cfg)) \<and>
   (\<forall>t. rr_RoundTrip (AnalyzeRTCP arrivals cfg) = Some t \<longrightarrow> 0 \<le> t \<and> t \<le> MaxRoundTrip)"
proof -
  let ?s = "fold (scan_arrival cfg) (sort_key ra_At arrivals)
      \<lparr>sc_rtt = None, sc_aboutUs = False, sc_laterReports = 0, sc_valid = [], sc_confirmed = False\<rparr>"
  have ok: "scan_ok cfg ?s" by (rule scan_all_ok) (simp add: scan_ok_def)
  have cov: "1 \<le> cb_covered v \<and> cb_covered v \<le> rc_Sent cfg" if "v \<in> set (sc_valid ?s)" for v
    using ok that by (simp add: scan_ok_def)
  have "1 \<le> ob_Expected ob \<and> ob_Expected ob \<le> rc_Sent cfg \<and> 0 \<le> ob_Unreported ob \<and>
      ob_Unreported ob \<le> ob_Lost ob \<and> ob_Lost ob \<le> ob_Expected ob"
    if "ob = outbound cfg rtt f l n" "1 \<le> cb_covered f \<and> cb_covered f \<le> rc_Sent cfg"
      "1 \<le> cb_covered l \<and> cb_covered l \<le> rc_Sent cfg" for ob rtt f l n
    using that by (auto simp: outbound_def Let_def min_def max_def)
  note bounds = this
  have out: "rr_Outbound (AnalyzeRTCP arrivals cfg) = (if sc_valid ?s = [] then None
      else Some (outbound cfg (sc_rtt ?s) (hd (sc_valid ?s)) (last (sc_valid ?s)) (int (length (sc_valid ?s)))))"
    "rr_RoundTrip (AnalyzeRTCP arrivals cfg) = sc_rtt ?s"
    "rr_Negative (AnalyzeRTCP arrivals cfg) \<longrightarrow> \<not> sc_aboutUs ?s"
    by (simp_all add: AnalyzeRTCP_def Let_def)
  have "1 \<le> ob_Reports ob \<and> 1 \<le> ob_Expected ob \<and> ob_Expected ob \<le> rc_Sent cfg \<and>
      0 \<le> ob_Unreported ob \<and> ob_Unreported ob \<le> ob_Lost ob \<and> ob_Lost ob \<le> ob_Expected ob \<and>
      \<not> rr_Negative (AnalyzeRTCP arrivals cfg)" if ob: "rr_Outbound (AnalyzeRTCP arrivals cfg) = Some ob" for ob
  proof -
    have ne: "sc_valid ?s \<noteq> []"
      and o: "ob = outbound cfg (sc_rtt ?s) (hd (sc_valid ?s)) (last (sc_valid ?s)) (int (length (sc_valid ?s)))"
      using ob out(1) by (auto split: if_splits)
    have "ob_Reports ob = int (length (sc_valid ?s))" unfolding o by (simp add: outbound_def Let_def split: prod.split)
    moreover have "sc_aboutUs ?s" using ok ne by (simp add: scan_ok_def)
    ultimately show ?thesis
      using bounds [OF o cov [OF hd_in_set [OF ne]] cov [OF last_in_set [OF ne]]] ne out(3)
      by (simp add: Suc_le_eq)
  qed
  with ok out(2) show ?thesis by (simp add: scan_ok_def)
qed

definition sample_block :: "uint32 \<Rightarrow> int \<Rightarrow> ReportBlock" where
  "sample_block highest lost = \<lparr>rb_SSRC = 7, rb_FractionLost = 0, rb_CumulativeLost = lost,
     rb_HighestSeq = highest, rb_Jitter = 3, rb_LSR = 0, rb_DLSR = 0\<rparr>"

theorem AnalyzeRTCP_consistent_witness:
  "\<exists>ob. rr_Outbound (AnalyzeRTCP
       [\<lparr>ra_At = 9 * second, ra_NTPMiddle = 0, ra_Compound = \<lparr>c_Reports = 1, c_Blocks = [sample_block 49 5]\<rparr>\<rparr>]
       \<lparr>rc_SSRC = 7, rc_FirstSeq = 0, rc_Sent = 100, rc_FirstSend = 0, rc_SenderReports = [], rc_Sends = []\<rparr>) = Some ob \<and>
     ob_Lost ob \<le> ob_Expected ob \<and> ob_Expected ob \<le> 100"
proof -
  let ?as = "[\<lparr>ra_At = 9 * second, ra_NTPMiddle = 0, ra_Compound = \<lparr>c_Reports = 1, c_Blocks = [sample_block 49 5]\<rparr>\<rparr>]"
  let ?cfg = "\<lparr>rc_SSRC = 7, rc_FirstSeq = 0, rc_Sent = 100, rc_FirstSend = 0, rc_SenderReports = [], rc_Sends = []\<rparr>"
  have "rr_Outbound (AnalyzeRTCP ?as ?cfg) \<noteq> None"
    by (simp add: AnalyzeRTCP_def scan_arrival_def scan_block_def sample_block_def Let_def)
  then obtain ob where "rr_Outbound (AnalyzeRTCP ?as ?cfg) = Some ob" by blast
  with AnalyzeRTCP_consistent [of ?as ?cfg] show ?thesis by (intro exI [of _ ob]) simp
qed

end
