(* ===== verification/MediaStats.thy ===== *)
theory MediaStats
  imports RtpSequence Rtcp "HOL-Library.Multiset"
begin

text \<open>
  The statistics of a call's media (\<open>worker/internal/rtp/stats.go\<close>): loss, duplicates, reordering and
  late discards of each far-end stream, and the round trip of echoes. Times are nanoseconds. The
  floating-point figures (percentages, burst ratio, the jitter filter, the E-model) are not
  modelled; the integers they are computed from are.
\<close>

section \<open>Constants\<close>

definition millisecond :: int where "millisecond = 1000000"
definition Warmup :: int where "Warmup = 500 * millisecond"
definition EchoTail :: int where "EchoTail = 300 * millisecond"
definition LateFill :: int where "LateFill = 60 * millisecond"
definition MaxStreams :: nat where "MaxStreams = 4"
definition AfterByeGrace :: int where "AfterByeGrace = second"
definition ResyncStep :: int where "ResyncStep = second"
definition JitterBufferTime :: int where "JitterBufferTime = 60 * millisecond"
definition PTComfortNoise :: byte where "PTComfortNoise = 13"
definition PTTelephoneEvent :: byte where "PTTelephoneEvent = 101"
definition ClockRate :: int where "ClockRate = 8000"

definition isG711 :: "byte \<Rightarrow> bool" where
  "isG711 pt \<longleftrightarrow> pt = 0 \<or> pt = 8"

definition receivedPT :: "byte \<Rightarrow> bool" where
  "receivedPT pt \<longleftrightarrow> isG711 pt \<or> pt = PTComfortNoise \<or> pt = PTTelephoneEvent"

definition tsDuration :: "uint32 \<Rightarrow> int" where
  "tsDuration d = go_div (sint d * second) ClockRate"

section \<open>One run\<close>

record arrival =
  a_at :: int
  a_ext :: int
  a_ts :: uint32
  a_pt :: byte
  a_marker :: bool

type_synonym run = "arrival list"

record runLoss =
  rl_expected :: int
  rl_received :: int
  rl_arrivals :: int
  rl_reordered :: int
  rl_late :: int

definition no_loss :: runLoss where
  "no_loss = \<lparr>rl_expected = 0, rl_received = 0, rl_arrivals = 0, rl_reordered = 0, rl_late = 0\<rparr>"

record transitions =
  t_recvToRecv :: int
  t_recvToLost :: int
  t_lostToRecv :: int
  t_lostToLost :: int
  t_prevLost :: bool

definition no_transitions :: transitions where
  "no_transitions = \<lparr>t_recvToRecv = 0, t_recvToLost = 0, t_lostToRecv = 0, t_lostToLost = 0, t_prevLost = False\<rparr>"

definition step :: "bool \<Rightarrow> bool \<Rightarrow> transitions \<Rightarrow> transitions" where
  "step received first_one t =
     (let t1 =
        (if first_one then t
         else if \<not> t_prevLost t \<and> received then t\<lparr>t_recvToRecv := t_recvToRecv t + 1\<rparr>
         else if \<not> t_prevLost t then t\<lparr>t_recvToLost := t_recvToLost t + 1\<rparr>
         else if received then t\<lparr>t_lostToRecv := t_lostToRecv t + 1\<rparr>
         else t\<lparr>t_lostToLost := t_lostToLost t + 1\<rparr>) in
      t1\<lparr>t_prevLost := \<not> received\<rparr>)"

definition close :: "transitions \<Rightarrow> transitions" where
  "close t = (if t_prevLost t then t\<lparr>t_lostToRecv := t_lostToRecv t + 1, t_prevLost := False\<rparr> else t)"

text \<open>
  The timing segments. \<open>settles\<close> is the look-ahead of a step up: the transits after it, until the next
  resynchronising step, stay away from the old level.
\<close>

definition near :: "int \<Rightarrow> int \<Rightarrow> bool" where
  "near a b \<longleftrightarrow> max (a - b) (b - a) \<le> JitterBufferTime"

fun settles :: "int \<Rightarrow> int \<Rightarrow> int list \<Rightarrow> bool" where
  "settles old prev [] = True"
| "settles old prev (t # ts) =
     (if max (t - prev) (prev - t) \<ge> ResyncStep then True
      else if near t old then False
      else settles old t ts)"

definition resyncs :: "int \<Rightarrow> int \<Rightarrow> bool \<Rightarrow> int list \<Rightarrow> bool" where
  "resyncs prev t marker rest =
     (let d = t - prev; stp = max d (- d) in
      if stp \<ge> ResyncStep \<or> (marker \<and> stp > JitterBufferTime) then
        let resync = (d < 0 \<or> (case rest of [] \<Rightarrow> False | t' # _ \<Rightarrow> near t' t)) in
        if d > 0 \<and> resync then settles prev t rest else resync
      else False)"

fun segments_from :: "int \<Rightarrow> int \<Rightarrow> int list \<Rightarrow> bool list \<Rightarrow> int list" where
  "segments_from n prev (t # ts) (m # ms) =
     (let n' = (if resyncs prev t m ts then n + 1 else n) in n' # segments_from n' t ts ms)"
| "segments_from n prev _ _ = []"

fun timingSegments :: "int list \<Rightarrow> bool list \<Rightarrow> int list" where
  "timingSegments (t # ts) (m # ms) = 0 # segments_from 0 t ts ms"
| "timingSegments _ _ = []"

text \<open>The first arrival of each number in range, in arrival order, with the counts on the way.\<close>

record tally =
  ty_seen :: "int list"
  ty_firsts :: "arrival list"
  ty_arrivals :: int
  ty_reordered :: int
  ty_runMax :: int

definition tally_arrival :: "(arrival \<Rightarrow> bool) \<Rightarrow> arrival \<Rightarrow> tally \<Rightarrow> tally" where
  "tally_arrival counted a y =
     (if \<not> counted a then y
      else
        let y1 = y\<lparr>ty_arrivals := ty_arrivals y + 1\<rparr> in
        if a_ext a \<in> set (ty_seen y1) then y1
        else y1\<lparr>ty_seen := a_ext a # ty_seen y1,
                ty_reordered := (if a_ext a < ty_runMax y1 then ty_reordered y1 + 1 else ty_reordered y1),
                ty_runMax := max (ty_runMax y1) (a_ext a),
                ty_firsts := ty_firsts y1 @ [a]\<rparr>)"

definition empty_tally :: tally where
  "empty_tally = \<lparr>ty_seen = [], ty_firsts = [], ty_arrivals = 0, ty_reordered = 0, ty_runMax = - (2 ^ 63)\<rparr>"

text \<open>The late ones among them: more than the jitter buffer above the least transit of their segment.\<close>

definition late_exts :: "uint32 \<Rightarrow> arrival list \<Rightarrow> int list" where
  "late_exts ts0 firsts =
     (let g711 = filter (\<lambda>a. isG711 (a_pt a)) firsts;
          transits = map (\<lambda>a. a_at a - tsDuration (a_ts a - ts0)) g711;
          segs = timingSegments transits (map a_marker g711);
          rows = zip segs (zip transits g711);
          least = (\<lambda>s. Min (set (map (\<lambda>(s', t, a). t) (filter (\<lambda>(s', t, a). s' = s) rows)))) in
      map (\<lambda>(s, t, a). a_ext a) (filter (\<lambda>(s, t, a). t - least s > JitterBufferTime) rows))"

text \<open>The loss indicator, walked through the received numbers in order: the gaps are lost runs.\<close>

fun walk :: "(int \<Rightarrow> bool) \<Rightarrow> int option \<Rightarrow> int list \<Rightarrow> transitions \<Rightarrow> transitions" where
  "walk late prev [] tr = tr"
| "walk late prev (e # es) tr =
     (let tr1 =
        (case prev of None \<Rightarrow> tr
         | Some p \<Rightarrow>
             let gap = e - p - 1 in
             if gap > 0 then
               let tr' = step False False tr in tr'\<lparr>t_lostToLost := t_lostToLost tr' + (gap - 1)\<rparr>
             else tr) in
      walk late (Some e) es (step (\<not> late e) (prev = None) tr1))"

definition in_window :: "int \<Rightarrow> int \<Rightarrow> arrival \<Rightarrow> bool" where
  "in_window ws we a \<longleftrightarrow> ws \<le> a_at a \<and> a_at a \<le> we"

definition loss :: "int \<Rightarrow> int \<Rightarrow> run \<Rightarrow> transitions \<Rightarrow> runLoss \<times> transitions" where
  "loss ws we r tr =
     (case filter (in_window ws we) r of
        [] \<Rightarrow> (no_loss, tr)
      | a0 # as \<Rightarrow>
          let base = a_ext a0;
              high = fold (\<lambda>a h. max h (a_ext a)) (a0 # as) base;
              y = fold (tally_arrival (\<lambda>a. \<not> (a_at a > we + LateFill \<or> a_ext a < base \<or> a_ext a > high))) r empty_tally;
              late = late_exts (a_ts (hd r)) (ty_firsts y) in
          (\<lparr>rl_expected = high - base + 1, rl_received = int (length (ty_firsts y)), rl_arrivals = ty_arrivals y,
            rl_reordered = ty_reordered y, rl_late = int (length (remdups late))\<rparr>,
           close (walk (\<lambda>e. e \<in> set late) None (sort (map a_ext (ty_firsts y))) tr)))"

section \<open>The streams of a call\<close>

record media_record =
  rec_At :: int
  rec_SSRC :: uint32
  rec_TS :: uint32
  rec_Seq :: uint16
  rec_EchoSeq :: uint16
  rec_PT :: byte
  rec_Marker :: bool
  rec_Echo :: EchoMatch

record media_config =
  cf_Answer :: int
  cf_Stop :: int
  cf_Bye :: int
  cf_AudioPT :: byte
  cf_Sent :: "Sent list"

record InboundStats =
  in_SSRC :: uint32
  in_SSRCChanges :: int
  in_SSRCOverflow :: int
  in_Expected :: int
  in_Lost :: int
  in_CumulativeLost :: int
  in_Duplicates :: int
  in_Reordered :: int
  in_Late :: int
  in_ComfortNoise :: int
  in_TelephoneEvents :: int
  in_PTMismatch :: int

definition no_inbound :: InboundStats where
  "no_inbound = \<lparr>in_SSRC = 0, in_SSRCChanges = 0, in_SSRCOverflow = 0, in_Expected = 0, in_Lost = 0,
     in_CumulativeLost = 0, in_Duplicates = 0, in_Reordered = 0, in_Late = 0, in_ComfortNoise = 0,
     in_TelephoneEvents = 0, in_PTMismatch = 0\<rparr>"

definition add_loss :: "runLoss \<Rightarrow> InboundStats \<Rightarrow> InboundStats" where
  "add_loss l s = s\<lparr>in_Expected := in_Expected s + rl_expected l,
     in_Lost := in_Lost s + (rl_expected l - rl_received l),
     in_CumulativeLost := in_CumulativeLost s + (rl_expected l - rl_arrivals l),
     in_Duplicates := in_Duplicates s + (rl_arrivals l - rl_received l),
     in_Reordered := in_Reordered s + rl_reordered l,
     in_Late := in_Late s + rl_late l\<rparr>"

record farStream =
  fs_ssrc :: uint32
  fs_seq :: Sequence
  fs_runs :: "run list"
  fs_inWindow :: int
  fs_talkspurts :: int

definition findStream :: "farStream list \<Rightarrow> uint32 \<Rightarrow> farStream option" where
  "findStream streams ssrc = find (\<lambda>st. fs_ssrc st = ssrc) streams"

definition primaryStream :: "farStream list \<Rightarrow> farStream option" where
  "primaryStream streams = fold (\<lambda>st best.
     if fs_inWindow st > 0 \<and> (case best of None \<Rightarrow> True | Some b \<Rightarrow> fs_inWindow st > fs_inWindow b)
     then Some st else best) streams None"

text \<open>The runs grow to the packet's epoch, whose run takes the packet.\<close>

definition add_arrival :: "nat \<Rightarrow> arrival \<Rightarrow> run list \<Rightarrow> run list" where
  "add_arrival epoch a runs =
     (let runs' = runs @ replicate (epoch + 1 - length runs) [] in runs'[epoch := runs' ! epoch @ [a]])"

definition feed_stream :: "bool \<Rightarrow> media_record \<Rightarrow> farStream \<Rightarrow> farStream" where
  "feed_stream win r st =
     (let st1 = (if win then st\<lparr>fs_talkspurts := (if fs_inWindow st > 0 \<and> rec_Marker r then fs_talkspurts st + 1
                                                else fs_talkspurts st),
                               fs_inWindow := fs_inWindow st + 1\<rparr> else st);
          (u, seq') = Update (rec_Seq r) (fs_seq st1);
          st2 = st1\<lparr>fs_seq := seq'\<rparr> in
      if \<not> ur_ok u then st2
      else st2\<lparr>fs_runs := add_arrival (nat (ur_epoch u))
             \<lparr>a_at = rec_At r, a_ext = ur_ext u, a_ts = rec_TS r, a_pt = rec_PT r, a_marker = rec_Marker r\<rparr>
             (fs_runs st2)\<rparr>)"

record pass =
  ps_streams :: "farStream list"
  ps_echoes :: "media_record list"
  ps_accepted :: int
  ps_unknownPT :: int
  ps_in :: InboundStats

definition count_pt :: "media_config \<Rightarrow> media_record \<Rightarrow> InboundStats \<Rightarrow> InboundStats" where
  "count_pt cfg r s =
     (if rec_PT r = PTComfortNoise then s\<lparr>in_ComfortNoise := in_ComfortNoise s + 1\<rparr>
      else if rec_PT r = PTTelephoneEvent then s\<lparr>in_TelephoneEvents := in_TelephoneEvents s + 1\<rparr>
      else if rec_PT r \<noteq> cf_AudioPT cfg then s\<lparr>in_PTMismatch := in_PTMismatch s + 1\<rparr>
      else s)"

definition scan_record :: "media_config \<Rightarrow> media_record \<Rightarrow> pass \<Rightarrow> pass" where
  "scan_record cfg r p =
     (let win = (cf_Answer cfg + Warmup \<le> rec_At r \<and> rec_At r \<le> cf_Stop cfg) in
      if rec_Echo r \<noteq> NotEcho then
        p\<lparr>ps_echoes := ps_echoes p @ [r], ps_accepted := (if win then ps_accepted p + 1 else ps_accepted p)\<rparr>
      else if \<not> receivedPT (rec_PT r) then p\<lparr>ps_unknownPT := ps_unknownPT p + 1\<rparr>
      else
        let p1 = (if win then p\<lparr>ps_accepted := ps_accepted p + 1, ps_in := count_pt cfg r (ps_in p)\<rparr> else p) in
        if findStream (ps_streams p1) (rec_SSRC r) = None \<and> length (ps_streams p1) = MaxStreams then
          p1\<lparr>ps_in := (ps_in p1)\<lparr>in_SSRCOverflow := in_SSRCOverflow (ps_in p1) + 1\<rparr>\<rparr>
        else
          let streams = (if findStream (ps_streams p1) (rec_SSRC r) = None
                         then ps_streams p1 @ [\<lparr>fs_ssrc = rec_SSRC r, fs_seq = zero_sequence, fs_runs = [],
                                                fs_inWindow = 0, fs_talkspurts = 0\<rparr>]
                         else ps_streams p1) in
          p1\<lparr>ps_streams := sql_update (\<lambda>st. fs_ssrc st = rec_SSRC r) (feed_stream win r) streams\<rparr>)"

section \<open>Echoes\<close>

record EchoStats =
  es_bySSRC :: bool
  es_Expected :: int
  es_Matched :: int
  es_Duplicates :: int
  es_Late :: int
  es_RTTs :: "int list"

record hits =
  ht_rtts :: "nat \<rightharpoonup> int"
  ht_dups :: int
  ht_bySSRC :: bool

definition sent_index :: "Sent list \<Rightarrow> uint16 \<rightharpoonup> nat" where
  "sent_index sent = fold (\<lambda>(i, s) m. m(sent_Seq s \<mapsto> i)) (enumerate 0 sent) Map.empty"

definition match_echo :: "Sent list \<Rightarrow> media_record \<Rightarrow> hits \<Rightarrow> hits" where
  "match_echo sent r h =
     (case sent_index sent (rec_EchoSeq r) of
        None \<Rightarrow> h
      | Some i \<Rightarrow>
          if rec_At r < sent_At (sent ! i) then h
          else if ht_rtts h i \<noteq> None then h\<lparr>ht_dups := ht_dups h + 1\<rparr>
          else h\<lparr>ht_bySSRC := (ht_bySSRC h \<or> rec_Echo r = EchoBySSRC),
                 ht_rtts := (ht_rtts h)(i \<mapsto> rec_At r - sent_At (sent ! i))\<rparr>)"

definition analyzeEcho :: "media_record list \<Rightarrow> media_config \<Rightarrow> int \<Rightarrow> EchoStats option" where
  "analyzeEcho echoes cfg ws =
     (if echoes = [] \<or> cf_Sent cfg = [] then None
      else
        let sent = cf_Sent cfg;
            h = fold (match_echo sent) echoes \<lparr>ht_rtts = Map.empty, ht_dups = 0, ht_bySSRC = False\<rparr>;
            expected = filter (\<lambda>i. ws \<le> sent_At (sent ! i) \<and> sent_At (sent ! i) \<le> cf_Stop cfg - EchoTail) [0..<length sent];
            rtts = List.map_filter (ht_rtts h) expected in
        if \<forall>i\<in>set [0..<length sent]. ht_rtts h i = None then None
        else
          let least = Min (set rtts);
              late = filter (\<lambda>t. t - least > JitterBufferTime) rtts in
          Some \<lparr>es_bySSRC = ht_bySSRC h, es_Expected = int (length expected), es_Matched = int (length rtts),
                es_Duplicates = ht_dups h, es_Late = int (length late), es_RTTs = sort rtts\<rparr>)"

text \<open>The nearest-rank percentile of the sorted round trips.\<close>

definition percentile :: "int list \<Rightarrow> int \<Rightarrow> int option" where
  "percentile sorted_ts p =
     (let i = go_div (p * int (length sorted_ts) + 99) 100 - 1;
          k = min (max i 0) (int (length sorted_ts) - 1) in
      if 0 \<le> k \<and> k < int (length sorted_ts) then Some (sorted_ts ! nat k) else None)"

section \<open>The report of a call\<close>

record media_report =
  rp_Inbound :: "InboundStats option"
  rp_RoundTrip :: "EchoStats option"
  rp_Accepted :: int
  rp_FirstPacket :: int
  rp_UnknownPT :: int
  rp_AfterBye :: int

definition inbound_losses :: "int \<Rightarrow> int \<Rightarrow> farStream list \<Rightarrow> InboundStats \<Rightarrow> InboundStats \<times> transitions" where
  "inbound_losses ws we streams s =
     fold (\<lambda>r (s, tr). let (l, tr') = loss ws we r tr in (add_loss l s, tr'))
       (concat (map fs_runs streams))
       (s, no_transitions)"

definition Analyze :: "media_record list \<Rightarrow> media_config \<Rightarrow> media_report" where
  "Analyze records0 cfg =
     (let records = sort_key rec_At records0;
          ws = cf_Answer cfg + Warmup; we = cf_Stop cfg;
          p = fold (scan_record cfg) records
                \<lparr>ps_streams = [], ps_echoes = [], ps_accepted = 0, ps_unknownPT = 0, ps_in = no_inbound\<rparr>;
          primary = primaryStream (ps_streams p);
          inbound = (case primary of None \<Rightarrow> None
             | Some st \<Rightarrow>
                 let s = fst (inbound_losses ws we (ps_streams p)
                       ((ps_in p)\<lparr>in_SSRC := fs_ssrc st, in_SSRCChanges := int (length (ps_streams p)) - 1\<rparr>)) in
                 if in_Expected s > 0 then Some s else None) in
      \<lparr>rp_Inbound = inbound, rp_RoundTrip = analyzeEcho (ps_echoes p) cfg ws, rp_Accepted = ps_accepted p,
       rp_FirstPacket = (case records of [] \<Rightarrow> 0 | r # _ \<Rightarrow> max (rec_At r - cf_Answer cfg) 0),
       rp_UnknownPT = ps_unknownPT p,
       rp_AfterBye = (case (inbound, primary) of
           (Some _, Some st) \<Rightarrow>
             if cf_Bye cfg > 0 then
               int (length (filter (\<lambda>r. rec_Echo r = NotEcho \<and> rec_SSRC r = fs_ssrc st \<and> receivedPT (rec_PT r) \<and>
                                        rec_At r > cf_Bye cfg + AfterByeGrace) records))
             else 0
         | _ \<Rightarrow> 0)\<rparr>)"

section \<open>The tally\<close>

definition tally_ok :: "(arrival \<Rightarrow> bool) \<Rightarrow> arrival list \<Rightarrow> tally \<Rightarrow> bool" where
  "tally_ok counted as y \<longleftrightarrow>
     set (ty_seen y) = a_ext ` {a \<in> set as. counted a} \<and> distinct (ty_seen y) \<and>
     map a_ext (ty_firsts y) = rev (ty_seen y) \<and> set (ty_firsts y) \<subseteq> {a \<in> set as. counted a} \<and>
     ty_arrivals y = int (length (filter counted as)) \<and>
     0 \<le> ty_reordered y \<and> ty_reordered y \<le> int (length (ty_firsts y)) \<and>
     length (ty_firsts y) \<le> length (filter counted as)"

lemma tally_step: "tally_ok counted as y \<Longrightarrow> tally_ok counted (as @ [a]) (tally_arrival counted a y)"
  by (auto simp: tally_ok_def tally_arrival_def Let_def)

lemma tally_all:
  "tally_ok counted pre y \<Longrightarrow> tally_ok counted (pre @ as) (fold (tally_arrival counted) as y)"
proof (induction as arbitrary: pre y)
  case (Cons a as)
  from Cons.IH [OF tally_step [OF Cons.prems]] show ?case by simp
qed simp

lemma tally_empty: "tally_ok counted as (fold (tally_arrival counted) as empty_tally)"
  using tally_all [of counted "[]" empty_tally as] by (simp add: tally_ok_def empty_tally_def)

lemma tally_card:
  assumes "tally_ok counted as y"
  shows "length (ty_firsts y) = card (a_ext ` {a \<in> set as. counted a})" "distinct (map a_ext (ty_firsts y))"
proof -
  have "length (map a_ext (ty_firsts y)) = length (ty_seen y)" "distinct (ty_seen y)"
    "set (ty_seen y) = a_ext ` {a \<in> set as. counted a}"
    using assms by (simp_all add: tally_ok_def)
  then show "length (ty_firsts y) = card (a_ext ` {a \<in> set as. counted a})"
    by (metis distinct_card length_map)
  show "distinct (map a_ext (ty_firsts y))" using assms by (simp add: tally_ok_def)
qed

lemma fold_max: "fold (\<lambda>a h. max h (f a)) as (b :: int) = Max (insert b (f ` set as))"
proof (induction as arbitrary: b)
  case (Cons a as)
  have "Max (insert (max b (f a)) (f ` set as)) = Max (insert b (insert (f a) (f ` set as)))"
    by (cases "set as = {}") (simp_all add: ac_simps)
  with Cons show ?case by simp
qed simp

lemma late_subset: "set (late_exts ts0 firsts) \<subseteq> a_ext ` set firsts"
  by (auto simp: late_exts_def Let_def dest!: set_zip_rightD)

section \<open>The walk and the loss indicator\<close>

text \<open>The reference: one step for every number of the range, lost or received.\<close>

fun indicator :: "(int \<Rightarrow> bool) \<Rightarrow> bool \<Rightarrow> int list \<Rightarrow> transitions \<Rightarrow> transitions" where
  "indicator ok first_one [] tr = tr"
| "indicator ok first_one (e # es) tr = indicator ok False es (step (ok e) first_one tr)"

lemma indicator_append:
  "indicator ok False (xs @ ys) tr = indicator ok False ys (indicator ok False xs tr)"
  by (induction xs arbitrary: tr) auto

lemma indicator_cong:
  "(\<And>e. e \<in> set es \<Longrightarrow> ok e = ok' e) \<Longrightarrow> indicator ok f es tr = indicator ok' f es tr"
  by (induction es arbitrary: f tr) auto

lemma indicator_lost:
  assumes "\<And>e. e \<in> set xs \<Longrightarrow> \<not> ok e"
  shows "indicator ok False xs tr =
    (if xs = [] then tr
     else (step False False tr)\<lparr>t_lostToLost := t_lostToLost (step False False tr) + (int (length xs) - 1)\<rparr>)"
  using assms
proof (induction xs arbitrary: tr)
  case (Cons x xs)
  let ?t = "step False False tr"
  have "t_prevLost ?t" by (simp add: step_def Let_def)
  then have "step False False ?t = ?t\<lparr>t_lostToLost := t_lostToLost ?t + 1\<rparr>" by (simp add: step_def)
  with Cons.IH [of ?t] Cons.prems show ?case by (cases xs) auto
qed simp

lemma walk_indicator:
  assumes "sorted (p # es)" and "distinct (p # es)"
  shows "walk late (Some p) es tr = indicator (\<lambda>e. e \<in> set es \<and> \<not> late e) False [p + 1..last (p # es)] tr"
  using assms
proof (induction es arbitrary: p tr)
  case (Cons e es)
  let ?ok = "\<lambda>x. x \<in> set (e # es) \<and> \<not> late x"
  have pe: "p < e" and es: "\<And>x. x \<in> set es \<Longrightarrow> e < x" using Cons.prems by (auto simp: less_le)
  have last: "e \<le> last (e # es)" using es by (cases es) (auto intro: less_imp_le)
  have split: "[p + 1..last (e # es)] = [p + 1..e - 1] @ e # [e + 1..last (e # es)]"
    using pe last by (simp add: upto_split3)
  have gap: "indicator ?ok False [p + 1..e - 1] tr = (if e - p - 1 > 0 then
      (step False False tr)\<lparr>t_lostToLost := t_lostToLost (step False False tr) + (e - p - 1 - 1)\<rparr> else tr)"
    using pe es by (subst indicator_lost) (auto dest: es)
  have "indicator ?ok False [e + 1..last (e # es)] t = indicator (\<lambda>x. x \<in> set es \<and> \<not> late x) False [e + 1..last (e # es)] t" for t
    by (rule indicator_cong) auto
  moreover have "walk late (Some e) es t = indicator (\<lambda>x. x \<in> set es \<and> \<not> late x) False [e + 1..last (e # es)] t" for t
    using Cons.prems by (intro Cons.IH) auto
  moreover have "last (p # e # es) = last (e # es)" by simp
  ultimately show ?case
    by (simp only: split indicator_append gap walk.simps option.case indicator.simps Let_def)
       (simp add: Let_def)
qed simp

lemma sorted_le_last: "sorted xs \<Longrightarrow> x \<in> set xs \<Longrightarrow> x \<le> last xs"
  by (induction xs rule: rev_induct) (auto simp: sorted_append)

section \<open>The loss of one run\<close>

text \<open>What a run's window determines: the range, and the numbers in it that arrived in time.\<close>

definition run_base :: "int \<Rightarrow> int \<Rightarrow> run \<Rightarrow> int" where
  "run_base ws we r = a_ext (hd (filter (in_window ws we) r))"

definition run_high :: "int \<Rightarrow> int \<Rightarrow> run \<Rightarrow> int" where
  "run_high ws we r = Max (a_ext ` set (filter (in_window ws we) r))"

definition run_received :: "int \<Rightarrow> int \<Rightarrow> run \<Rightarrow> int set" where
  "run_received ws we r =
     {a_ext a | a. a \<in> set r \<and> a_at a \<le> we + LateFill} \<inter> {run_base ws we r..run_high ws we r}"

lemma loss_parts:
  assumes "filter (in_window ws we) r \<noteq> []"
  obtains y where "tally_ok (\<lambda>a. \<not> (a_at a > we + LateFill \<or> a_ext a < run_base ws we r \<or> a_ext a > run_high ws we r)) r y"
    "a_ext ` set (ty_firsts y) = run_received ws we r"
    "loss ws we r tr =
      (\<lparr>rl_expected = run_high ws we r - run_base ws we r + 1, rl_received = int (length (ty_firsts y)),
        rl_arrivals = ty_arrivals y, rl_reordered = ty_reordered y,
        rl_late = int (length (remdups (late_exts (a_ts (hd r)) (ty_firsts y))))\<rparr>,
       close (walk (\<lambda>e. e \<in> set (late_exts (a_ts (hd r)) (ty_firsts y))) None (sort (map a_ext (ty_firsts y))) tr))"
proof -
  obtain a0 as where win: "filter (in_window ws we) r = a0 # as" using assms by (cases "filter (in_window ws we) r") auto
  have base: "a_ext a0 = run_base ws we r" by (simp add: run_base_def win)
  have high: "fold (\<lambda>a h. max h (a_ext a)) (a0 # as) (a_ext a0) = run_high ws we r"
    by (simp only: fold_max run_high_def win) (simp add: insert_absorb)
  let ?p = "\<lambda>a. \<not> (a_at a > we + LateFill \<or> a_ext a < run_base ws we r \<or> a_ext a > run_high ws we r)"
  let ?y = "fold (tally_arrival ?p) r empty_tally"
  have ok: "tally_ok ?p r ?y" by (rule tally_empty)
  have "a_ext ` set (ty_firsts ?y) = set (map a_ext (ty_firsts ?y))" by simp
  also have "\<dots> = a_ext ` {a \<in> set r. ?p a}" using ok by (simp only: tally_ok_def set_rev)
  also have "\<dots> = run_received ws we r" by (auto simp: run_received_def)
  finally have "a_ext ` set (ty_firsts ?y) = run_received ws we r" .
  then show thesis
    by (rule that [OF ok]) (simp only: loss_def win list.case high [unfolded base] base Let_def)
qed

lemma run_range:
  assumes ne: "filter (in_window ws we) r \<noteq> []"
  shows "run_base ws we r \<le> run_high ws we r" "finite (run_received ws we r)"
    "run_base ws we r \<in> run_received ws we r" "run_high ws we r \<in> run_received ws we r"
proof -
  let ?w = "filter (in_window ws we) r"
  have lf: "0 \<le> LateFill" by (simp add: LateFill_def millisecond_def)
  have base: "run_base ws we r \<in> a_ext ` set ?w" unfolding run_base_def using ne by (intro imageI hd_in_set)
  then show le: "run_base ws we r \<le> run_high ws we r" unfolding run_high_def by (intro Max_ge) auto
  have high: "run_high ws we r \<in> a_ext ` set ?w" unfolding run_high_def using ne by (intro Max_in) (auto simp del: filter_empty_conv set_filter)
  have in_time: "x \<in> {a_ext a | a. a \<in> set r \<and> a_at a \<le> we + LateFill}" if "x \<in> a_ext ` set ?w" for x
    using that lf by (fastforce simp: in_window_def)
  show "finite (run_received ws we r)" by (simp add: run_received_def)
  show "run_base ws we r \<in> run_received ws we r" "run_high ws we r \<in> run_received ws we r"
    using in_time [OF base] in_time [OF high] le by (simp_all add: run_received_def)
qed

lemma loss_figures:
  assumes ne: "filter (in_window ws we) r \<noteq> []"
  shows "let l = fst (loss ws we r tr); base = run_base ws we r; high = run_high ws we r in
    rl_expected l = high - base + 1 \<and> 1 \<le> rl_received l \<and> rl_received l \<le> rl_expected l \<and>
    rl_expected l - rl_received l =
      int (card ({base..high} - {a_ext a | a. a \<in> set r \<and> a_at a \<le> we + LateFill})) \<and>
    rl_received l \<le> rl_arrivals l \<and> 0 \<le> rl_late l \<and> rl_late l \<le> rl_received l \<and>
    0 \<le> rl_reordered l \<and> rl_reordered l \<le> rl_received l"
proof -
  let ?b = "run_base ws we r" and ?h = "run_high ws we r" and ?R = "run_received ws we r"
  obtain y where ok: "tally_ok (\<lambda>a. \<not> (a_at a > we + LateFill \<or> a_ext a < ?b \<or> a_ext a > ?h)) r y"
    and exts: "a_ext ` set (ty_firsts y) = ?R"
    and l: "loss ws we r tr =
      (\<lparr>rl_expected = ?h - ?b + 1, rl_received = int (length (ty_firsts y)),
        rl_arrivals = ty_arrivals y, rl_reordered = ty_reordered y,
        rl_late = int (length (remdups (late_exts (a_ts (hd r)) (ty_firsts y))))\<rparr>,
       close (walk (\<lambda>e. e \<in> set (late_exts (a_ts (hd r)) (ty_firsts y))) None (sort (map a_ext (ty_firsts y))) tr))"
    by (rule loss_parts [OF ne])
  note rg = run_range [OF ne]
  have len: "length (ty_firsts y) = card ?R"
    using distinct_card [OF tally_card(2) [OF ok]] exts by simp
  have sub: "?R \<subseteq> {?b..?h}" by (auto simp: run_received_def)
  have card: "int (card {?b..?h}) = ?h - ?b + 1" using rg(1) by simp
  have "{?b..?h} - {a_ext a | a. a \<in> set r \<and> a_at a \<le> we + LateFill} = {?b..?h} - ?R"
    by (auto simp: run_received_def)
  then have lost: "int (card ({?b..?h} - {a_ext a | a. a \<in> set r \<and> a_at a \<le> we + LateFill})) =
      ?h - ?b + 1 - int (card ?R)"
    using card card_Diff_subset [OF rg(2) sub] card_mono [OF _ sub] by (simp add: of_nat_diff)
  have pos: "0 < card ?R" using rg(2,3) by (auto simp: card_gt_0_iff)
  have le: "int (card ?R) \<le> ?h - ?b + 1"
    unfolding card [symmetric] by (intro of_nat_mono card_mono sub) simp
  have "length (remdups (late_exts (a_ts (hd r)) (ty_firsts y))) = card (set (late_exts (a_ts (hd r)) (ty_firsts y)))"
    by (rule length_remdups_card_conv)
  also have "\<dots> \<le> card ?R" using late_subset exts rg(2) by (metis card_mono)
  finally have late: "length (remdups (late_exts (a_ts (hd r)) (ty_firsts y))) \<le> card ?R" .
  have rest: "int (card ?R) \<le> ty_arrivals y" "0 \<le> ty_reordered y" "ty_reordered y \<le> int (card ?R)"
    using ok len by (simp_all add: tally_ok_def)
  show ?thesis unfolding Let_def l using len lost pos le late rest by simp
qed

lemma loss_consistent:
  defines "ok \<equiv> \<lambda>l. 0 \<le> rl_received l \<and> rl_received l \<le> rl_expected l \<and> rl_received l \<le> rl_arrivals l \<and>
     0 \<le> rl_late l \<and> rl_late l \<le> rl_received l"
  shows "ok (fst (loss ws we r tr))"
proof (cases "filter (in_window ws we) r = []")
  case True
  then show ?thesis by (simp add: loss_def no_loss_def ok_def)
next
  case False
  from loss_figures [OF this, of tr] show ?thesis by (simp add: Let_def ok_def)
qed

section \<open>Properties\<close>

text \<open>
  C40. Loss is counted exactly. For a run with a packet in the window, the expected packets are the
  numbers from the first one seen in the window to the highest; the lost ones, expected minus
  received, are exactly the numbers of that range of which no copy arrived by the stop plus
  \<open>LateFill\<close>, so neither duplicates nor reordering can hide or add a loss; and the other figures
  are consistent with it (late discards are among the received packets, duplicates are never
  negative).
\<close>

theorem loss_is_exact:
  assumes ne: "filter (in_window ws we) r \<noteq> []"
  shows "let l = fst (loss ws we r tr); base = run_base ws we r; high = run_high ws we r in
    rl_expected l = high - base + 1 \<and> 1 \<le> rl_received l \<and> rl_received l \<le> rl_expected l \<and>
    rl_expected l - rl_received l =
      int (card ({base..high} - {a_ext a | a. a \<in> set r \<and> a_at a \<le> we + LateFill})) \<and>
    rl_received l \<le> rl_arrivals l \<and> 0 \<le> rl_late l \<and> rl_late l \<le> rl_received l \<and>
    0 \<le> rl_reordered l \<and> rl_reordered l \<le> rl_received l"
  using ne by (rule loss_figures)

theorem loss_is_exact_witness:
  "rl_expected (fst (loss 0 100 [\<lparr>a_at = 1, a_ext = 7, a_ts = 0, a_pt = 0, a_marker = False\<rparr>,
       \<lparr>a_at = 2, a_ext = 9, a_ts = 0, a_pt = 0, a_marker = False\<rparr>,
       \<lparr>a_at = 3, a_ext = 9, a_ts = 0, a_pt = 0, a_marker = False\<rparr>] no_transitions)) -
   rl_received (fst (loss 0 100 [\<lparr>a_at = 1, a_ext = 7, a_ts = 0, a_pt = 0, a_marker = False\<rparr>,
       \<lparr>a_at = 2, a_ext = 9, a_ts = 0, a_pt = 0, a_marker = False\<rparr>,
       \<lparr>a_at = 3, a_ext = 9, a_ts = 0, a_pt = 0, a_marker = False\<rparr>] no_transitions)) = 1"
proof -
  let ?r = "[\<lparr>a_at = 1, a_ext = 7, a_ts = 0, a_pt = 0, a_marker = False\<rparr>,
       \<lparr>a_at = 2, a_ext = 9, a_ts = 0, a_pt = 0, a_marker = False\<rparr>,
       \<lparr>a_at = 3, a_ext = 9, a_ts = 0, a_pt = 0, a_marker = False\<rparr>]"
  have w: "filter (in_window 0 100) ?r = ?r" by (simp add: in_window_def)
  have bh: "run_base 0 100 ?r = 7" "run_high 0 100 ?r = 9"
    unfolding run_base_def run_high_def w by simp_all
  have "{a_ext a | a. a \<in> set ?r \<and> a_at a \<le> 100 + LateFill} = a_ext ` {a \<in> set ?r. a_at a \<le> 100 + LateFill}"
    by blast
  also have "{a \<in> set ?r. a_at a \<le> 100 + LateFill} = set ?r"
    by (auto simp: LateFill_def millisecond_def)
  finally have "{a_ext a | a. a \<in> set ?r \<and> a_at a \<le> 100 + LateFill} = {7, 9}" by simp
  moreover have "{7..9} - {7, 9} = {8 :: int}" by auto
  ultimately show ?thesis
    using loss_is_exact [of 0 100 ?r no_transitions] w unfolding Let_def bh by simp
qed

text \<open>
  The walk over the received numbers is the loss indicator. The code feeds the burst ratio by
  walking the sorted received numbers and adding a whole gap at once; the counts of state changes
  it arrives at are those of stepping through every single number of the expected range, each
  received or lost or late.
\<close>

theorem loss_walk_is_indicator:
  assumes ne: "filter (in_window ws we) r \<noteq> []"
  shows "\<exists>late \<subseteq> run_received ws we r.
    snd (loss ws we r tr) =
      close (indicator (\<lambda>e. e \<in> run_received ws we r \<and> e \<notin> late) True [run_base ws we r..run_high ws we r] tr) \<and>
    rl_late (fst (loss ws we r tr)) = int (card late)"
proof -
  let ?b = "run_base ws we r" and ?h = "run_high ws we r" and ?R = "run_received ws we r"
  obtain y where ok: "tally_ok (\<lambda>a. \<not> (a_at a > we + LateFill \<or> a_ext a < ?b \<or> a_ext a > ?h)) r y"
    and exts: "a_ext ` set (ty_firsts y) = ?R"
    and l: "loss ws we r tr =
      (\<lparr>rl_expected = ?h - ?b + 1, rl_received = int (length (ty_firsts y)),
        rl_arrivals = ty_arrivals y, rl_reordered = ty_reordered y,
        rl_late = int (length (remdups (late_exts (a_ts (hd r)) (ty_firsts y))))\<rparr>,
       close (walk (\<lambda>e. e \<in> set (late_exts (a_ts (hd r)) (ty_firsts y))) None (sort (map a_ext (ty_firsts y))) tr))"
    by (rule loss_parts [OF ne])
  note rg = run_range [OF ne]
  let ?late = "set (late_exts (a_ts (hd r)) (ty_firsts y))"
  let ?es = "sort (map a_ext (ty_firsts y))"
  have es: "set ?es = ?R" "sorted ?es" "distinct ?es" using exts tally_card(2) [OF ok] by auto
  then obtain e es' where e: "?es = e # es'" using rg(3) by (cases ?es) auto
  have "e = ?b"
  proof (rule antisym)
    have "?b \<in> set (e # es')" using es(1) e rg(3) by simp
    then show "e \<le> ?b" using es(2) e by auto
    have "e \<in> ?R" using es(1) e by auto
    then show "?b \<le> e" by (simp add: run_received_def)
  qed
  have lst: "last (e # es') = ?h"
  proof -
    have "?h \<in> set (e # es')" using es(1) e rg(4) by simp
    then have "?h \<le> last (e # es')" using es(2) e by (metis sorted_le_last)
    moreover have "last (e # es') \<in> ?R" using es(1) e by (metis last_in_set list.distinct(1))
    ultimately show ?thesis by (simp add: run_received_def)
  qed
  have ins: "\<not> (x \<in> set es' \<and> x \<notin> ?late) \<longleftrightarrow> \<not> (x \<in> ?R \<and> x \<notin> ?late)" if "x \<in> set [e + 1..last (e # es')]" for x
  proof -
    have R: "?R = insert e (set es')" using es(1) e by simp
    show ?thesis using that unfolding R by auto
  qed
  have "walk (\<lambda>e. e \<in> ?late) None ?es tr =
      indicator (\<lambda>x. x \<in> set es' \<and> x \<notin> ?late) False [e + 1..last (e # es')] (step (e \<notin> ?late) True tr)"
    using walk_indicator [of e es' "\<lambda>e. e \<in> ?late"] es(2,3) by (simp add: e)
  also have "\<dots> = indicator (\<lambda>x. x \<in> ?R \<and> x \<notin> ?late) False [e + 1..last (e # es')] (step (e \<notin> ?late) True tr)"
    using ins by (intro indicator_cong) blast
  also have "\<dots> = indicator (\<lambda>x. x \<in> ?R \<and> x \<notin> ?late) True [?b..?h] tr"
    using rg(1,3) \<open>e = ?b\<close> lst by (simp add: upto_rec1)
  finally have "snd (loss ws we r tr) = close (indicator (\<lambda>e. e \<in> ?R \<and> e \<notin> ?late) True [?b..?h] tr)"
    by (simp add: l)
  moreover have "?late \<subseteq> ?R" using late_subset exts by blast
  moreover have "rl_late (fst (loss ws we r tr)) = int (card ?late)"
    by (simp add: l length_remdups_card_conv)
  ultimately show ?thesis by blast
qed

theorem loss_walk_is_indicator_witness:
  "\<exists>late. snd (loss 0 100 [\<lparr>a_at = 1, a_ext = 7, a_ts = 0, a_pt = 0, a_marker = False\<rparr>] no_transitions) =
     close (indicator (\<lambda>e. e \<in> run_received 0 100 [\<lparr>a_at = 1, a_ext = 7, a_ts = 0, a_pt = 0, a_marker = False\<rparr>] \<and>
        e \<notin> late) True
       [run_base 0 100 [\<lparr>a_at = 1, a_ext = 7, a_ts = 0, a_pt = 0, a_marker = False\<rparr>]..
        run_high 0 100 [\<lparr>a_at = 1, a_ext = 7, a_ts = 0, a_pt = 0, a_marker = False\<rparr>]] no_transitions)"
proof -
  have "filter (in_window 0 100) [\<lparr>a_at = 1, a_ext = 7, a_ts = 0, a_pt = 0, a_marker = False\<rparr>] \<noteq> []"
    by (simp add: in_window_def)
  from loss_walk_is_indicator [OF this, of no_transitions] show ?thesis by blast
qed

section \<open>The report as a whole\<close>

definition inbound_ok :: "InboundStats \<Rightarrow> bool" where
  "inbound_ok s \<longleftrightarrow> 0 \<le> in_Lost s \<and> in_Lost s \<le> in_Expected s \<and> 0 \<le> in_Late s \<and>
     in_Late s \<le> in_Expected s - in_Lost s \<and> 0 \<le> in_Duplicates s \<and>
     in_CumulativeLost s = in_Lost s - in_Duplicates s"

lemma inbound_ok_add:
  assumes "inbound_ok s"
  shows "inbound_ok (add_loss (fst (loss ws we r tr)) s)"
  using assms loss_consistent [of ws we r tr] by (auto simp: inbound_ok_def add_loss_def)

lemma inbound_losses_ok:
  assumes "inbound_ok s"
  shows "inbound_ok (fst (inbound_losses ws we streams s))"
proof -
  have "inbound_ok (fst (fold (\<lambda>r (s, tr). let (l, tr') = loss ws we r tr in (add_loss l s, tr')) rs (s, tr)))"
    if "inbound_ok s" for rs s tr
    using that
  proof (induction rs arbitrary: s tr)
    case (Cons r rs)
    obtain l tr' where l: "loss ws we r tr = (l, tr')" by fastforce
    then have "inbound_ok (add_loss l s)" using inbound_ok_add [OF Cons.prems, of ws we r tr] by simp
    with Cons.IH [of "add_loss l s" tr'] l show ?case by simp
  qed simp
  then show ?thesis using assms by (simp only: inbound_losses_def)
qed

lemma inbound_losses_keeps:
  "in_SSRCChanges (fst (inbound_losses ws we streams s)) = in_SSRCChanges s"
proof -
  have "in_SSRCChanges (fst (fold (\<lambda>r (s, tr). let (l, tr') = loss ws we r tr in (add_loss l s, tr')) rs (s, tr))) =
      in_SSRCChanges s" for rs s tr
    by (induction rs arbitrary: s tr) (auto simp: add_loss_def split: prod.splits)
  then show ?thesis by (simp only: inbound_losses_def)
qed

text \<open>What the pass over the first \<open>n\<close> records keeps.\<close>

definition pass_ok :: "nat \<Rightarrow> pass \<Rightarrow> bool" where
  "pass_ok n p \<longleftrightarrow> length (ps_streams p) \<le> MaxStreams \<and> distinct (map fs_ssrc (ps_streams p)) \<and>
     0 \<le> ps_accepted p \<and> 0 \<le> ps_unknownPT p \<and> ps_accepted p + ps_unknownPT p \<le> int n \<and>
     in_Expected (ps_in p) = 0 \<and> in_Lost (ps_in p) = 0 \<and> in_CumulativeLost (ps_in p) = 0 \<and>
     in_Duplicates (ps_in p) = 0 \<and> in_Late (ps_in p) = 0"

lemma feed_stream_ssrc [simp]: "fs_ssrc (feed_stream win r st) = fs_ssrc st"
  by (simp add: feed_stream_def Let_def split: prod.split)

lemma feed_ssrcs: "map fs_ssrc (sql_update p (feed_stream win r) streams) = map fs_ssrc streams"
  by (induction streams) (auto simp: sql_update_def)

lemma count_pt_keeps [simp]:
  "in_Expected (count_pt cfg r s) = in_Expected s" "in_Lost (count_pt cfg r s) = in_Lost s"
  "in_CumulativeLost (count_pt cfg r s) = in_CumulativeLost s"
  "in_Duplicates (count_pt cfg r s) = in_Duplicates s" "in_Late (count_pt cfg r s) = in_Late s"
  by (simp_all add: count_pt_def)

lemma findStream_None: "findStream streams ssrc = None \<longleftrightarrow> ssrc \<notin> fs_ssrc ` set streams"
  by (auto simp: findStream_def find_None_iff)

lemma scan_record_ok:
  assumes "pass_ok n p"
  shows "pass_ok (Suc n) (scan_record cfg r p)"
proof -
  have len: "length (sql_update q (feed_stream win r) streams) = length streams" for q win streams
    by (metis feed_ssrcs length_map)
  from assms show ?thesis
    by (auto simp: pass_ok_def scan_record_def Let_def findStream_None feed_ssrcs len)
qed

lemma scan_records_ok:
  "pass_ok n p \<Longrightarrow> pass_ok (n + length rs) (fold (scan_record cfg) rs p)"
proof (induction rs arbitrary: n p)
  case (Cons r rs)
  from Cons.IH [OF scan_record_ok [OF Cons.prems]] show ?case by simp
qed simp

lemma analyzeEcho_ok:
  assumes "analyzeEcho echoes cfg ws = Some e"
  shows "0 \<le> es_Late e" "es_Late e \<le> es_Matched e" "es_Matched e \<le> es_Expected e"
    "es_Expected e \<le> int (length (cf_Sent cfg))" "int (length (es_RTTs e)) = es_Matched e"
proof -
  have mf: "length (List.map_filter f xs) \<le> length xs" for f :: "nat \<Rightarrow> int option" and xs
    by (simp add: List.map_filter_def)
  have le: "length (filter P [0..<k]) \<le> k" for P k using length_filter_le [of P "[0..<k]"] by simp
  show "0 \<le> es_Late e" "es_Late e \<le> es_Matched e" "es_Matched e \<le> es_Expected e"
    "es_Expected e \<le> int (length (cf_Sent cfg))" "int (length (es_RTTs e)) = es_Matched e"
    using assms by (auto simp: analyzeEcho_def Let_def le mf split: if_splits)
qed

text \<open>
  A call's report is consistent with itself for every trace and configuration. What it reports
  lost lies between none and all of the expected packets; late discards are among the received
  ones; RFC 3550's cumulative figure is the loss less the duplicates; at most \<open>MaxStreams\<close> sources
  are tracked; packets accepted and packets of unknown type are counted at most once per record; of
  the echoes, no more match than were expected, and no more are late than matched.
\<close>

theorem Analyze_consistent:
  "let rep = Analyze records cfg in
   0 \<le> rp_Accepted rep \<and> 0 \<le> rp_UnknownPT rep \<and> rp_Accepted rep + rp_UnknownPT rep \<le> int (length records) \<and>
   (case rp_Inbound rep of
      None \<Rightarrow> rp_AfterBye rep = 0
    | Some s \<Rightarrow> 0 < in_Expected s \<and> 0 \<le> in_Lost s \<and> in_Lost s \<le> in_Expected s \<and>
        0 \<le> in_Late s \<and> in_Late s \<le> in_Expected s - in_Lost s \<and> 0 \<le> in_Duplicates s \<and>
        in_CumulativeLost s = in_Lost s - in_Duplicates s \<and>
        in_SSRCChanges s < int MaxStreams) \<and>
   (case rp_RoundTrip rep of
      None \<Rightarrow> True
    | Some e \<Rightarrow> 0 \<le> es_Late e \<and> es_Late e \<le> es_Matched e \<and> es_Matched e \<le> es_Expected e \<and>
        es_Expected e \<le> int (length (cf_Sent cfg)))"
proof -
  let ?ws = "cf_Answer cfg + Warmup"
  define p where "p = fold (scan_record cfg) (sort_key rec_At records)
     \<lparr>ps_streams = [], ps_echoes = [], ps_accepted = 0, ps_unknownPT = 0, ps_in = no_inbound\<rparr>"
  have p: "pass_ok (length records) p"
    using scan_records_ok [of 0 "\<lparr>ps_streams = [], ps_echoes = [], ps_accepted = 0, ps_unknownPT = 0,
        ps_in = no_inbound\<rparr>" "sort_key rec_At records" cfg]
    by (simp add: p_def pass_ok_def no_inbound_def)
  define s where "s = (\<lambda>st :: farStream. fst (inbound_losses ?ws (cf_Stop cfg) (ps_streams p)
     ((ps_in p)\<lparr>in_SSRC := fs_ssrc st, in_SSRCChanges := int (length (ps_streams p)) - 1\<rparr>)))"
  have "inbound_ok ((ps_in p)\<lparr>in_SSRC := fs_ssrc st, in_SSRCChanges := int (length (ps_streams p)) - 1\<rparr>)" for st :: farStream
    using p by (simp add: pass_ok_def inbound_ok_def)
  from inbound_losses_ok [OF this] have s_ok: "inbound_ok (s st)" for st by (simp only: s_def)
  have changes: "in_SSRCChanges (s st) < int MaxStreams" for st
    using p by (simp add: s_def inbound_losses_keeps pass_ok_def)
  have inb: "rp_Inbound (Analyze records cfg) = (case primaryStream (ps_streams p) of None \<Rightarrow> None
      | Some st \<Rightarrow> if in_Expected (s st) > 0 then Some (s st) else None)"
    and echo: "rp_RoundTrip (Analyze records cfg) = analyzeEcho (ps_echoes p) cfg ?ws"
    and acc: "rp_Accepted (Analyze records cfg) = ps_accepted p" "rp_UnknownPT (Analyze records cfg) = ps_unknownPT p"
    unfolding Analyze_def Let_def p_def [symmetric] s_def media_report.simps by (rule refl)+
  have bye: "rp_Inbound (Analyze records cfg) = None \<Longrightarrow> rp_AfterBye (Analyze records cfg) = 0"
    by (simp add: Analyze_def Let_def split: option.splits if_splits)
  show ?thesis unfolding Let_def acc
    using p s_ok changes bye analyzeEcho_ok [of "ps_echoes p" cfg ?ws]
    by (auto simp: inb echo pass_ok_def inbound_ok_def split: option.splits if_splits)
qed

end
