(* ===== verification/G711.thy ===== *)
theory G711
  imports Bytes
begin

unbundle bit_operations_syntax

text \<open>
  G.711 companding and the probe's signal (\<open>worker/internal/rtp/g711.go\<close>): the \<open>\<mu>\<close>-law and A-law
  coders on 16-bit samples, digital silence, and the test tone cut out of a table of one period. The
  entries of the tone table come from a floating-point sine and are an argument here.
\<close>

section \<open>The coders\<close>

type_synonym int16 = "16 word"

datatype Law = PCMU | PCMA

definition uLawSegEnd :: "int list" where
  "uLawSegEnd = [0x3F, 0x7F, 0xFF, 0x1FF, 0x3FF, 0x7FF, 0xFFF, 0x1FFF]"

definition aLawSegEnd :: "int list" where
  "aLawSegEnd = [0x1F, 0x3F, 0x7F, 0xFF, 0x1FF, 0x3FF, 0x7FF, 0xFFF]"

fun segment_from :: "nat \<Rightarrow> int \<Rightarrow> int list \<Rightarrow> nat" where
  "segment_from i v [] = 8"
| "segment_from i v (e # es) = (if v \<le> e then i else segment_from (i + 1) v es)"

definition segment :: "int \<Rightarrow> int list \<Rightarrow> nat" where
  "segment v ends = segment_from 0 v ends"

definition uLawBias :: int where "uLawBias = 0x84"
definition uLawClip :: int where "uLawClip = 8159"

definition encodeULaw :: "int16 \<Rightarrow> byte" where
  "encodeULaw sample =
     (let v0 = drop_bit 2 (sint sample);
          (v1, mask) = (if v0 < 0 then (- v0, 0x7F) else (v0, 0xFF));
          v = min v1 uLawClip + drop_bit 2 uLawBias;
          seg = segment v uLawSegEnd in
      if seg \<ge> 8 then word_of_int (0x7F XOR mask)
      else word_of_int ((push_bit 4 (int seg) OR (drop_bit (seg + 1) v AND 0x0F)) XOR mask))"

definition decodeULaw :: "byte \<Rightarrow> int16" where
  "decodeULaw b =
     (let u = uint (NOT b);
          t = push_bit (nat (drop_bit 4 (u AND 0x70))) (push_bit 3 (u AND 0x0F) + uLawBias) in
      if u AND 0x80 \<noteq> 0 then word_of_int (uLawBias - t) else word_of_int (t - uLawBias))"

definition encodeALaw :: "int16 \<Rightarrow> byte" where
  "encodeALaw sample =
     (let v0 = drop_bit 3 (sint sample);
          (v, mask) = (if v0 < 0 then (- v0 - 1, 0x55) else (v0, 0xD5));
          seg = segment v aLawSegEnd in
      if seg \<ge> 8 then word_of_int (0x7F XOR mask)
      else
        let a = push_bit 4 (int seg) OR
                (if seg < 2 then drop_bit 1 v AND 0x0F else drop_bit seg v AND 0x0F) in
        word_of_int (a XOR mask))"

definition decodeALaw :: "byte \<Rightarrow> int16" where
  "decodeALaw b =
     (let a = uint (b XOR 0x55);
          t0 = push_bit 4 (a AND 0x0F);
          seg = drop_bit 4 (a AND 0x70);
          t = (if seg = 0 then t0 + 8
               else if seg = 1 then t0 + 0x108
               else push_bit (nat (seg - 1)) (t0 + 0x108)) in
      if a AND 0x80 \<noteq> 0 then word_of_int t else word_of_int (- t))"

text \<open>The decoding tables hold the decoder's value at every octet, so decoding is the lookup.\<close>

definition decodeTable :: "Law \<Rightarrow> int16 list" where
  "decodeTable l = map (\<lambda>b. if l = PCMA then decodeALaw (word_of_nat b) else decodeULaw (word_of_nat b)) [0..<256]"

definition Encode :: "Law \<Rightarrow> int16 \<Rightarrow> byte" where
  "Encode l sample = (if l = PCMA then encodeALaw sample else encodeULaw sample)"

definition Decode :: "Law \<Rightarrow> byte \<Rightarrow> int16" where
  "Decode l b = (if l = PCMA then decodeTable PCMA ! unat b else decodeTable PCMU ! unat b)"

definition Silence :: "Law \<Rightarrow> byte" where
  "Silence l = (if l = PCMA then 0xD5 else 0xFF)"

section \<open>The signal\<close>

definition TonePeriod :: int where "TonePeriod = go_div 8000 4"

definition tone_start :: "int \<Rightarrow> int" where
  "tone_start frm = (let i = frm - go_div frm TonePeriod * TonePeriod in if i < 0 then i + TonePeriod else i)"

function append_tone :: "byte list \<Rightarrow> int \<Rightarrow> int \<Rightarrow> byte list \<Rightarrow> byte list" where
  "append_tone t i n dst =
     (if n > 0 \<and> i < TonePeriod then
        let k = min n (TonePeriod - i) in
        append_tone t 0 (n - k) (dst @ take (nat k) (drop (nat i) t))
      else dst)"
  by pat_completeness auto
termination by (relation "measure (\<lambda>(t, i, n, dst). nat n)") auto

declare append_tone.simps [simp del]

definition AppendTone :: "(Law \<Rightarrow> byte list) \<Rightarrow> byte list \<Rightarrow> Law \<Rightarrow> int \<Rightarrow> int \<Rightarrow> byte list" where
  "AppendTone tones dst l frm n = append_tone (tones l) (tone_start frm) n dst"

definition AppendSilence :: "byte list \<Rightarrow> Law \<Rightarrow> int \<Rightarrow> byte list" where
  "AppendSilence dst l n = dst @ replicate (nat n) (Silence l)"

section \<open>A-law as a quantiser\<close>

text \<open>The code of interval \<open>m\<close> of segment \<open>g\<close> and the midpoint it stands for.\<close>

definition aLaw_code :: "int \<Rightarrow> nat \<Rightarrow> nat \<Rightarrow> byte" where
  "aLaw_code msk g m = word_of_int ((push_bit 4 (int g) OR int m) XOR msk)"

definition aLaw_mid :: "nat \<Rightarrow> nat \<Rightarrow> int" where
  "aLaw_mid g m = (if g = 0 then 16 * int m + 8 else (16 * int m + 264) * 2 ^ (g - 1))"

lemma aLaw_mid_table:
  "list_all (\<lambda>g. list_all (\<lambda>m. sint (decodeALaw (aLaw_code 0xD5 g m)) = aLaw_mid g m \<and>
     sint (decodeALaw (aLaw_code 0x55 g m)) = - aLaw_mid g m) [0..<16]) [0..<8]"
  by code_simp

lemma aLaw_decode:
  assumes "g < 8" and "m < 16"
  shows "sint (decodeALaw (aLaw_code 0xD5 g m)) = aLaw_mid g m"
    "sint (decodeALaw (aLaw_code 0x55 g m)) = - aLaw_mid g m"
  using aLaw_mid_table assms by (simp_all add: list_all_iff)

lemma aLaw_segments:
  assumes "0 \<le> v" and "v \<le> 4095"
  shows "segment v aLawSegEnd < 8"
    "segment v aLawSegEnd = 0 \<Longrightarrow> v < 32"
    "segment v aLawSegEnd = Suc k \<Longrightarrow> 32 * 2 ^ k \<le> v \<and> v < 64 * 2 ^ k"
  using assms by (auto simp: segment_def aLawSegEnd_def split: if_splits)

text \<open>A magnitude lies in the interval its code names, whose midpoint is what it decodes to.\<close>

definition aLaw_interval :: "int \<Rightarrow> nat \<Rightarrow> nat" where
  "aLaw_interval v g = nat ((if g < 2 then drop_bit 1 v else drop_bit g v) AND 0x0F)"

lemma aLaw_interval_mod: "aLaw_interval v g = nat ((v div 2 ^ max 1 g) mod 16)"
proof -
  have "x AND 0x0F = x mod 16" for x :: int using take_bit_eq_mask [of 4 x] by (simp add: take_bit_eq_mod mask_eq_exp_minus_1)
  moreover have "g < 2 \<Longrightarrow> max 1 g = 1" "\<not> g < 2 \<Longrightarrow> max 1 g = g" by auto
  ultimately show ?thesis by (auto simp: aLaw_interval_def drop_bit_eq_div)
qed

lemma aLaw_midpoint:
  assumes v: "0 \<le> v" "v \<le> 4095" and x: "8 * v \<le> x" "x \<le> 8 * v + 8"
  shows "\<bar>aLaw_mid (segment v aLawSegEnd) (aLaw_interval v (segment v aLawSegEnd)) - x\<bar> \<le> max 8 (x div 32)"
proof (cases "segment v aLawSegEnd")
  case 0
  then have "v < 32" using aLaw_segments(2) v by blast
  then have "(v div 2) mod 16 = v div 2" using v by simp
  then have "aLaw_mid 0 (aLaw_interval v 0) = 16 * (v div 2) + 8"
    using v by (simp add: aLaw_mid_def aLaw_interval_mod)
  then have "\<bar>aLaw_mid 0 (aLaw_interval v 0) - x\<bar> \<le> 8" using x by simp
  with 0 show ?thesis by simp
next
  case (Suc k)
  define P :: int where "P = 2 ^ k"
  define q where "q = v div (2 * P)"
  have P: "0 < P" by (simp add: P_def)
  have vP: "32 * P \<le> v" "v < 64 * P" using aLaw_segments(3) [OF v Suc] by (simp_all add: P_def)
  have vq: "2 * P * q \<le> v" "v < 2 * P * q + 2 * P"
    using P mult_div_mod_eq [of "2 * P" v] pos_mod_bound [of "2 * P" v] pos_mod_sign [of "2 * P" v]
    unfolding q_def by linarith+
  have "16 \<le> q" using zdiv_mono1 [of "16 * (2 * P)" v "2 * P"] vP P by (simp add: q_def)
  moreover have "q < 32"
  proof (rule ccontr)
    assume "\<not> q < 32"
    then have "2 * P * 32 \<le> 2 * P * q" using P by (intro mult_left_mono) auto
    with vq vP show False by simp
  qed
  ultimately have q: "16 \<le> q" "q < 32" by blast+
  have "q mod 16 = q - 16" using q minus_mod_self2 [of q 16] mod_pos_pos_trivial [of "q - 16" 16] by simp
  then have "aLaw_interval v (Suc k) = nat (q - 16)"
    by (simp add: aLaw_interval_mod q_def P_def)
  then have mid: "aLaw_mid (Suc k) (aLaw_interval v (Suc k)) = 16 * (P * q) + 8 * P"
    using q by (simp add: aLaw_mid_def P_def algebra_simps)
  have "P * 16 \<le> P * q" using q P by (intro mult_left_mono) auto
  then have "8 * P * 32 \<le> x" using x vq P by linarith
  then have "8 * P \<le> x div 32" using zdiv_mono1 [of "8 * P * 32" x 32] by simp
  moreover have "\<bar>16 * (P * q) + 8 * P - x\<bar> \<le> 8 * P" using x vq by simp
  ultimately show ?thesis unfolding Suc mid by linarith
qed

definition aLaw_magnitude :: "int \<Rightarrow> int" where
  "aLaw_magnitude s = (if s < 0 then - (s div 8) - 1 else s div 8)"

lemma aLaw_magnitude_bounds:
  "0 \<le> aLaw_magnitude (sint (sample :: int16))" "aLaw_magnitude (sint (sample :: int16)) \<le> 4095"
  using sint_ge [of sample] sint_lt [of sample] by (auto simp: aLaw_magnitude_def)

lemma aLaw_interval_bound: "aLaw_interval v g < 16"
  by (simp add: aLaw_interval_mod nat_less_iff)

lemma encodeALaw_code:
  "encodeALaw sample =
     (let v = aLaw_magnitude (sint sample); g = segment v aLawSegEnd in
      aLaw_code (if sint sample < 0 then 0x55 else 0xD5) g (aLaw_interval v g))"
proof -
  let ?v = "aLaw_magnitude (sint sample)"
  let ?g = "segment ?v aLawSegEnd"
  have g: "\<not> 8 \<le> ?g" using aLaw_segments(1) [OF aLaw_magnitude_bounds] by (simp add: not_le)
  have fields: "(if drop_bit 3 (sint sample) < 0 then (- drop_bit 3 (sint sample) - 1, 0x55)
      else (drop_bit 3 (sint sample), 0xD5)) = (?v, if sint sample < 0 then 0x55 else 0xD5)"
    by (auto simp: aLaw_magnitude_def drop_bit_eq_div)
  have int: "int (aLaw_interval ?v ?g) = (if ?g < 2 then drop_bit 1 ?v AND 0x0F else drop_bit ?g ?v AND 0x0F)"
    by (simp add: aLaw_interval_def)
  show ?thesis
    unfolding encodeALaw_def Let_def fields prod.case aLaw_code_def int using g by (simp only: if_False)
qed

lemma Decode_decodes: "Decode PCMA b = decodeALaw b" "Decode PCMU b = decodeULaw b"
proof -
  have "unat b < 256" using unsigned_less [of b] by simp
  then show "Decode PCMA b = decodeALaw b" "Decode PCMU b = decodeULaw b"
    by (simp_all add: Decode_def decodeTable_def)
qed

lemma list_all_upt: "list_all Q [i..<j] \<longleftrightarrow> (\<forall>n. i \<le> n \<and> n < j \<longrightarrow> Q n)"
  by (auto simp: list_all_iff)

lemma byte_all:
  assumes "list_all (\<lambda>n. P (word_of_nat n :: byte)) [0..<64]" "list_all (\<lambda>n. P (word_of_nat n :: byte)) [64..<128]"
    "list_all (\<lambda>n. P (word_of_nat n :: byte)) [128..<192]" "list_all (\<lambda>n. P (word_of_nat n :: byte)) [192..<256]"
  shows "P b"
proof -
  have "unat b < 256" using unsigned_less [of b] by simp
  then consider "0 \<le> unat b" "unat b < 64" | "64 \<le> unat b" "unat b < 128" | "128 \<le> unat b" "unat b < 192" |
    "192 \<le> unat b" "unat b < 256" by linarith
  then have "P (word_of_nat (unat b))" using assms unfolding list_all_upt by cases blast+
  then show ?thesis by simp
qed

lemma aLaw_codes: "encodeALaw (decodeALaw b) = b"
proof (rule byte_all)
  let ?P = "\<lambda>b. encodeALaw (decodeALaw b) = b"
  show "list_all (\<lambda>n. ?P (word_of_nat n)) [0..<64]" by code_simp
  show "list_all (\<lambda>n. ?P (word_of_nat n)) [64..<128]" by code_simp
  show "list_all (\<lambda>n. ?P (word_of_nat n)) [128..<192]" by code_simp
  show "list_all (\<lambda>n. ?P (word_of_nat n)) [192..<256]" by code_simp
qed

lemma uLaw_codes: "encodeULaw (decodeULaw b) = (if b = 0x7F then 0xFF else b)"
proof (rule byte_all [where P = "\<lambda>b. encodeULaw (decodeULaw b) = (if b = 0x7F then 0xFF else b)"])
  let ?P = "\<lambda>b. encodeULaw (decodeULaw b) = (if b = 0x7F then 0xFF else b)"
  show "list_all (\<lambda>n. ?P (word_of_nat n)) [0..<64]" by code_simp
  show "list_all (\<lambda>n. ?P (word_of_nat n)) [64..<128]" by code_simp
  show "list_all (\<lambda>n. ?P (word_of_nat n)) [128..<192]" by code_simp
  show "list_all (\<lambda>n. ?P (word_of_nat n)) [192..<256]" by code_simp
qed

section \<open>The tone\<close>

lemma TonePeriod_val: "TonePeriod = 2000"
  by (simp add: TonePeriod_def go_div_def)

lemma tone_start_mod: "tone_start frm = frm mod TonePeriod"
proof (cases "frm < 0")
  case True
  define a where "a = - frm"
  have "frm - go_div frm TonePeriod * TonePeriod = - (a mod TonePeriod)"
    using True by (simp add: go_div_def TonePeriod_val a_def minus_div_mult_eq_mod [symmetric])
  moreover have "frm mod TonePeriod = (if a mod TonePeriod = 0 then 0 else TonePeriod - a mod TonePeriod)"
    using zmod_zminus1_eq_if [of a TonePeriod] by (simp add: a_def)
  moreover have "0 \<le> a mod TonePeriod" by (simp add: TonePeriod_val)
  ultimately show ?thesis by (simp add: tone_start_def Let_def)
next
  case False
  then have "frm - go_div frm TonePeriod * TonePeriod = frm mod TonePeriod"
    by (simp add: go_div_nonneg TonePeriod_val minus_div_mult_eq_mod)
  moreover have "0 \<le> frm mod TonePeriod" by (simp add: TonePeriod_val)
  ultimately show ?thesis by (simp add: tone_start_def Let_def)
qed

lemma take_drop_upto:
  assumes "0 \<le> i" "0 \<le> k" "i + k \<le> int (length t)"
  shows "take (nat k) (drop (nat i) t) = map (\<lambda>j. t ! nat (i + j)) [0..k - 1]"
  by (rule nth_equalityI) (use assms in \<open>auto simp: nat_add_distrib\<close>)

lemma upto_shift: "0 \<le> k \<Longrightarrow> k \<le> n \<Longrightarrow> [0..n - 1] = [0..k - 1] @ map (\<lambda>j. k + j) [0..n - k - 1]"
  by (rule nth_equalityI) (auto simp: nth_append)

lemma append_tone_spec:
  assumes "int (length t) = TonePeriod" "0 \<le> i" "i < TonePeriod"
  shows "append_tone t i n dst = dst @ map (\<lambda>j. t ! nat ((i + j) mod TonePeriod)) [0..n - 1]"
  using assms
proof (induction t i n dst rule: append_tone.induct)
  case (1 t i n dst)
  show ?case
  proof (cases "n > 0")
    case True
    define k where "k = min n (TonePeriod - i)"
    have k: "0 < k" "k \<le> n" "i + k \<le> TonePeriod" using True 1(4) by (auto simp: k_def)
    have now: "take (nat k) (drop (nat i) t) = map (\<lambda>j. t ! nat ((i + j) mod TonePeriod)) [0..k - 1]"
      using 1(2,3) k by (simp add: take_drop_upto)
    have wrap: "(i + (k + j)) mod TonePeriod = (0 + j) mod TonePeriod" if "j \<in> set [0..n - k - 1]" for j
    proof -
      from that have "k = TonePeriod - i" by (auto simp: k_def)
      then have "i + (k + j) = j + TonePeriod" by simp
      then show ?thesis by (simp only: mod_add_self2 add_0)
    qed
    have "append_tone t i n dst = append_tone t 0 (n - k) (dst @ take (nat k) (drop (nat i) t))"
      using True 1(4) by (subst append_tone.simps) (simp add: k_def Let_def)
    also have "\<dots> = dst @ map (\<lambda>j. t ! nat ((i + j) mod TonePeriod)) [0..k - 1] @
        map (\<lambda>j. t ! nat ((0 + j) mod TonePeriod)) [0..n - k - 1]"
      using 1(1) [OF _ k_def] True 1(2,4) by (simp add: now TonePeriod_val)
    also have "map (\<lambda>j. t ! nat ((0 + j) mod TonePeriod)) [0..n - k - 1] =
        map (\<lambda>j. t ! nat ((i + j) mod TonePeriod)) (map (\<lambda>j. k + j) [0..n - k - 1])"
      unfolding map_map comp_def by (intro map_cong refl) (simp only: wrap)
    finally show ?thesis using k by (simp only: upto_shift [of k n] map_append)
  next
    case False
    then show ?thesis by (subst append_tone.simps) simp
  qed
qed

section \<open>Properties\<close>

text \<open>
  Decoding loses nothing. Encoding a decoded octet gives the octet back under both laws, for all
  256 of them but one: \<open>\<mu>\<close>-law has two codes for zero, and the negative one, \<open>0x7F\<close>, comes back as
  digital silence, \<open>0xFF\<close>. A second round trip therefore never changes a sample again.
\<close>

theorem G711_roundtrip:
  "Encode l (Decode l b) = (if l = PCMU \<and> b = 0x7F then Silence PCMU else b) \<and>
   Decode l (Encode l (Decode l b)) = Decode l b"
proof (cases l)
  case PCMA
  then show ?thesis by (simp add: Encode_def Decode_decodes aLaw_codes)
next
  case PCMU
  have "decodeULaw 0xFF = decodeULaw 0x7F" by code_simp
  with PCMU show ?thesis by (simp add: Encode_def Decode_decodes uLaw_codes Silence_def)
qed

text \<open>
  A-law is accurate to its intervals. Every 16-bit sample decodes to within 8 of itself, or
  within a 32nd of its magnitude, whichever is more; and a zero sample is encoded as the law's
  digital silence.
\<close>

theorem G711_accuracy:
  "\<bar>sint (Decode PCMA (Encode PCMA sample)) - sint sample\<bar> \<le> max 8 (\<bar>sint sample\<bar> div 32) \<and>
   Encode l 0 = Silence l"
proof
  define v where "v = aLaw_magnitude (sint sample)"
  let ?mid = "aLaw_mid (segment v aLawSegEnd) (aLaw_interval v (segment v aLawSegEnd))"
  have v: "0 \<le> v" "v \<le> 4095" unfolding v_def by (rule aLaw_magnitude_bounds)+
  have "8 * v \<le> \<bar>sint sample\<bar>" "\<bar>sint sample\<bar> \<le> 8 * v + 8" by (auto simp: v_def aLaw_magnitude_def)
  from aLaw_midpoint [OF v this]
  have mid: "\<bar>?mid - \<bar>sint sample\<bar>\<bar> \<le> max 8 (\<bar>sint sample\<bar> div 32)" .
  have "sint (Decode PCMA (Encode PCMA sample)) = (if sint sample < 0 then - ?mid else ?mid)"
    by (simp add: Encode_def Decode_decodes encodeALaw_code Let_def v_def [symmetric] aLaw_decode
        aLaw_segments(1) [OF v] aLaw_interval_bound)
  with mid show "\<bar>sint (Decode PCMA (Encode PCMA sample)) - sint sample\<bar> \<le> max 8 (\<bar>sint sample\<bar> div 32)"
    by (simp split: if_splits)
  have "Encode PCMA 0 = Silence PCMA" "Encode PCMU 0 = Silence PCMU" by code_simp+
  then show "Encode l 0 = Silence l" by (cases l) simp_all
qed

text \<open>
  Frames continue one tone. With a table of one whole period, appending \<open>n\<close> samples from any
  sample index, negative ones included, appends the tone's samples at that index and the \<open>n - 1\<close>
  that follow, around the end of the table as often as needed; so a frame cut at any point and
  continued at the index it stopped at is the frame uncut.
\<close>

theorem AppendTone_continues:
  assumes "int (length (tones l)) = TonePeriod"
  shows "AppendTone tones dst l frm n = dst @ map (\<lambda>j. tones l ! nat ((frm + j) mod TonePeriod)) [0..n - 1]"
proof -
  have "(frm mod TonePeriod + j) mod TonePeriod = (frm + j) mod TonePeriod" for j by (simp add: mod_simps)
  then show ?thesis
    unfolding AppendTone_def tone_start_mod using append_tone_spec [of "tones l" "frm mod TonePeriod"] assms
    by (simp add: TonePeriod_val)
qed

theorem AppendTone_continues_witness:
  "AppendTone (\<lambda>l. replicate 2000 (Silence l)) [] PCMU 1999 2 = [0xFF, 0xFF]"
proof -
  have "int (length (replicate 2000 (Silence PCMU))) = TonePeriod" by (simp add: TonePeriod_val)
  from AppendTone_continues [of "\<lambda>l. replicate 2000 (Silence l)", OF this, of "[]" 1999 2]
  show ?thesis by (simp add: TonePeriod_val Silence_def upto.simps)
qed

end
