(* ===== verification/AlertRouting.thy ===== *)
theory AlertRouting
  imports Store
begin

text \<open>
  The tables of the alerter and the rules for who hears of an alert: maintenance windows
  (\<open>shared/maintenance\<close>) and the routing of a monitor's alerts to channels
  (\<open>shared/alertrouting\<close>), which the alerter resolves to deliver and the API
  (\<open>GetAlertRoutingForMonitors\<close>) to warn of monitors whose alerts reach nobody. The SQL fragments
  of those packages are predicates and expressions over the rows here.
\<close>

section \<open>Tables\<close>

text \<open>The monitor row with the columns alerting adds to it.\<close>

record alert_monitor = monitor +
  m_name :: string
  m_notification_mode :: string
  m_member_alert_rollup :: string
  m_dependency_suppression :: string

record tenant =
  t_id :: uuid
  t_alert_reminder_seconds :: int
  t_auto_create_incident :: bool
  t_dependency_suppression_enabled :: bool
  t_dependency_suppression_grace_seconds :: int

record maintenance_window =
  mw_id :: uuid
  mw_tenant_id :: uuid
  mw_starts_at :: time
  mw_ends_at :: time

record alertChannel =
  ac_ID :: uuid
  ac_Type :: string
  ac_IsActive :: bool

record monitor_channel =
  mc_monitor_id :: uuid
  mc_channel_id :: uuid
  mc_delay_seconds :: int

record tenant_default_channel =
  tdc_tenant_id :: uuid
  tdc_channel_id :: uuid
  tdc_delay_seconds :: int
  tdc_position :: int

datatype alert_status = Active | Acknowledged | Resolved

record alert =
  al_id :: uuid
  al_tenant_id :: uuid
  al_monitor_id :: "uuid option"
  al_kind :: string
  al_metric_name :: "string option"
  al_status :: alert_status
  al_triggered_at :: time
  al_acknowledged_at :: "time option"
  al_resolved_at :: "time option"
  al_failure_count :: int
  al_last_error :: "string option"
  al_root_cause_monitor_id :: "uuid option"
  al_root_cause_down_since :: "time option"
  al_root_cause_cleared_at :: "time option"
  al_updated_at :: time

record notification_state =
  ns_alert_id :: uuid
  ns_channel_id :: uuid
  ns_last_sent_at :: time
  ns_last_event_type :: string
  ns_acknowledged_sent_at :: "time option"
  ns_suspected_cause_sent_at :: "time option"

record incident =
  in_id :: uuid
  in_tenant_id :: uuid
  in_state :: string
  in_is_auto_created :: bool
  in_auto_monitor_id :: "uuid option"
  in_auto_alert_policy_id :: "uuid option"
  in_created_at :: time

record incident_entry =
  ie_incident_id :: uuid
  ie_entry_type :: string
  ie_message :: string
  ie_resolved_after :: "time option"

record alert_db =
  a_tenants :: "tenant list"
  a_monitors :: "alert_monitor list"
  a_check_results :: "check_result list"
  monitor_groups :: "(uuid \<times> uuid) list"
  monitor_dependencies :: "(uuid \<times> uuid) list"
  maintenance_windows :: "maintenance_window list"
  maintenance_window_monitors :: "(uuid \<times> uuid) list"
  alert_channels :: "alertChannel list"
  monitor_channels :: "monitor_channel list"
  tenant_default_channels :: "tenant_default_channel list"
  alerts :: "alert list"
  notification_states :: "notification_state list"
  incidents :: "incident list"
  incident_alerts :: "(uuid \<times> uuid) list"
  incident_monitors :: "(uuid \<times> uuid) list"
  incident_timeline :: "incident_entry list"

text \<open>\<open>monitor_groups\<close> pairs a group with a member; \<open>monitor_dependencies\<close> a monitor with what it depends on.\<close>

definition groups_of :: "uuid \<Rightarrow> alert_db \<Rightarrow> uuid list" where
  "groups_of mid d = map fst (filter (\<lambda>(g, m). m = mid) (monitor_groups d))"

definition a_monitor :: "uuid \<Rightarrow> alert_db \<Rightarrow> alert_monitor option" where
  "a_monitor mid d = find (\<lambda>m. m_id m = mid) (a_monitors d)"

section \<open>Maintenance\<close>

definition InMaintenanceAt :: "alert_monitor \<Rightarrow> time \<Rightarrow> alert_db \<Rightarrow> bool" where
  "InMaintenanceAt m t d \<longleftrightarrow>
     (\<exists>(w, target) \<in> set (maintenance_window_monitors d). \<exists>mw \<in> set (maintenance_windows d).
        mw_id mw = w \<and> mw_tenant_id mw = m_tenant_id m \<and> mw_starts_at mw \<le> t \<and> t < mw_ends_at mw \<and>
        (target = m_id m \<or> target \<in> set (groups_of (m_id m) d)))"

section \<open>Routing\<close>

text \<open>The routed channels of a monitor with their delay and position, disabled ones included.\<close>

definition targets :: "alert_monitor \<Rightarrow> alert_db \<Rightarrow> (uuid \<times> int \<times> int) list" where
  "targets m d =
     (if m_notification_mode m = ''custom''
      then map (\<lambda>mc. (mc_channel_id mc, mc_delay_seconds mc, 0))
             (filter (\<lambda>mc. mc_monitor_id mc = m_id m) (monitor_channels d)) else []) @
     (if m_notification_mode m = ''default''
      then map (\<lambda>tdc. (tdc_channel_id tdc, tdc_delay_seconds tdc, tdc_position tdc))
             (filter (\<lambda>tdc. tdc_tenant_id tdc = m_tenant_id m) (tenant_default_channels d)) else [])"

definition joined_channels :: "bool \<Rightarrow> uuid \<Rightarrow> alert_db \<Rightarrow> alertChannel list" where
  "joined_channels activeOnly cid d =
     filter (\<lambda>ac. ac_ID ac = cid \<and> (activeOnly \<longrightarrow> ac_IsActive ac)) (alert_channels d)"

definition ChannelCount :: "alert_monitor \<Rightarrow> bool \<Rightarrow> alert_db \<Rightarrow> int" where
  "ChannelCount m activeOnly d =
     int (length (concat (map (\<lambda>mc. joined_channels activeOnly (mc_channel_id mc) d)
            (filter (\<lambda>mc. mc_monitor_id mc = m_id m \<and> m_notification_mode m = ''custom'') (monitor_channels d))) @
          concat (map (\<lambda>tdc. joined_channels activeOnly (tdc_channel_id tdc) d)
            (filter (\<lambda>tdc. tdc_tenant_id tdc = m_tenant_id m \<and> m_notification_mode m = ''default'')
              (tenant_default_channels d)))))"

definition SelfSilentGroup :: "alert_monitor \<Rightarrow> bool" where
  "SelfSilentGroup m \<longleftrightarrow> m_type m = ''group'' \<and> m_member_alert_rollup m = ''per_monitor''"

definition rollup_groups :: "uuid \<Rightarrow> alert_db \<Rightarrow> alert_monitor list" where
  "rollup_groups mid d = concat (map (\<lambda>gid. filter (\<lambda>g. m_id g = gid \<and> m_deleted_at g = None \<and>
     m_member_alert_rollup g = ''group'') (a_monitors d)) (groups_of mid d))"

definition delivers :: "alert_monitor \<Rightarrow> alert_db \<Rightarrow> bool" where
  "delivers g d \<longleftrightarrow> m_enabled g \<and> ChannelCount g True d > 0"

text \<open>\<open>ORDER BY delivers DESC, id LIMIT 1\<close>: a group that delivers first, then the lowest id.\<close>

definition RollupGroup :: "uuid \<Rightarrow> alert_db \<Rightarrow> uuid option" where
  "RollupGroup mid d =
     (case sort_key m_id (filter (\<lambda>g. delivers g d) (rollup_groups mid d)) @
           sort_key m_id (filter (\<lambda>g. \<not> delivers g d) (rollup_groups mid d)) of
        [] \<Rightarrow> None | g # _ \<Rightarrow> Some (m_id g))"

definition SuppressedByRollup :: "uuid \<Rightarrow> alert_db \<Rightarrow> bool" where
  "SuppressedByRollup mid d \<longleftrightarrow>
     (\<exists>gid \<in> set (groups_of mid d). \<exists>g \<in> set (a_monitors d). m_id g = gid \<and> m_deleted_at g = None \<and>
        m_member_alert_rollup g = ''group'')"

definition DependencySuppressionEffective :: "alert_monitor \<Rightarrow> tenant \<Rightarrow> bool" where
  "DependencySuppressionEffective m te \<longleftrightarrow>
     (if m_dependency_suppression m = ''on'' then True
      else if m_dependency_suppression m = ''off'' then False
      else t_dependency_suppression_enabled te)"

definition dependencyGrace :: "tenant \<Rightarrow> time" where
  "dependencyGrace te = secs (t_dependency_suppression_grace_seconds te)"

definition SuppressedByDependency :: "time \<Rightarrow> alert \<Rightarrow> alert_monitor \<Rightarrow> tenant \<Rightarrow> bool" where
  "SuppressedByDependency now al m te \<longleftrightarrow> DependencySuppressionEffective m te \<and>
     (al_root_cause_monitor_id al \<noteq> None \<or>
      (case al_root_cause_cleared_at al of None \<Rightarrow> False | Some c \<Rightarrow> c > now - dependencyGrace te))"

definition DispatchEligibleSince :: "alert \<Rightarrow> tenant \<Rightarrow> time" where
  "DispatchEligibleSince al te =
     max (al_triggered_at al)
       (case al_root_cause_cleared_at al of None \<Rightarrow> al_triggered_at al | Some c \<Rightarrow> c + dependencyGrace te)"

section \<open>Reachability\<close>

record Counts =
  c_NotificationMode :: string
  c_OwnActive :: int
  c_OwnAssigned :: int
  c_SelfSilentGroup :: bool
  c_RollupGroupID :: "uuid option"
  c_RollupGroupName :: string
  c_RollupActive :: int
  c_RollupAssigned :: int
  c_RollupEnabled :: bool

record Status =
  st_Reachable :: bool
  st_Source :: string
  st_ActiveChannels :: int
  st_AssignedChannels :: int
  st_Reason :: string
  st_RollupGroupID :: "uuid option"
  st_RollupGroupName :: string

definition Classify :: "Counts \<Rightarrow> Status" where
  "Classify c =
     (if c_SelfSilentGroup c then
        \<lparr>st_Reachable = True, st_Source = ''members'', st_ActiveChannels = 0, st_AssignedChannels = 0,
         st_Reason = '''', st_RollupGroupID = None, st_RollupGroupName = ''''\<rparr>
      else if c_RollupGroupID c \<noteq> None then
        let reach = (c_RollupEnabled c \<and> c_RollupActive c > 0) in
        \<lparr>st_Reachable = reach, st_Source = ''group_rollup'', st_ActiveChannels = c_RollupActive c,
         st_AssignedChannels = c_RollupAssigned c,
         st_Reason = (if reach then ''''
                      else if \<not> c_RollupEnabled c then ''group_rollup_paused'' else ''group_rollup_unrouted''),
         st_RollupGroupID = c_RollupGroupID c, st_RollupGroupName = c_RollupGroupName c\<rparr>
      else
        let reach = (c_OwnActive c > 0);
            st = \<lparr>st_Reachable = reach, st_Source = '''', st_ActiveChannels = c_OwnActive c,
                  st_AssignedChannels = c_OwnAssigned c, st_Reason = '''', st_RollupGroupID = None, st_RollupGroupName = ''''\<rparr> in
        if c_NotificationMode c = ''custom'' then
          st\<lparr>st_Source := ''custom'',
             st_Reason := (if reach then ''''
                           else if c_OwnAssigned c > 0 then ''custom_channels_disabled'' else ''no_custom_channels'')\<rparr>
        else
          st\<lparr>st_Source := ''tenant_default'',
             st_Reason := (if reach then ''''
                           else if c_OwnAssigned c > 0 then ''tenant_default_channels_disabled''
                           else ''no_tenant_default_channels'')\<rparr>)"

text \<open>The counts of one monitor, as \<open>GetAlertRoutingForMonitors\<close> reads them.\<close>

definition routing_counts :: "alert_monitor \<Rightarrow> alert_db \<Rightarrow> Counts" where
  "routing_counts m d =
     (let g = Option.bind (RollupGroup (m_id m) d) (\<lambda>gid. a_monitor gid d) in
      \<lparr>c_NotificationMode = m_notification_mode m, c_OwnActive = ChannelCount m True d,
       c_OwnAssigned = ChannelCount m False d, c_SelfSilentGroup = SelfSilentGroup m,
       c_RollupGroupID = map_option m_id g,
       c_RollupGroupName = (case g of None \<Rightarrow> '''' | Some g \<Rightarrow> m_name g),
       c_RollupActive = (case g of None \<Rightarrow> 0 | Some g \<Rightarrow> ChannelCount g True d),
       c_RollupAssigned = (case g of None \<Rightarrow> 0 | Some g \<Rightarrow> ChannelCount g False d),
       c_RollupEnabled = (case g of None \<Rightarrow> False | Some g \<Rightarrow> m_enabled g)\<rparr>)"

definition GetAlertRoutingForMonitors :: "uuid list \<Rightarrow> alert_db \<Rightarrow> uuid \<rightharpoonup> Status" where
  "GetAlertRoutingForMonitors ids d =
     map_of (map (\<lambda>m. (m_id m, Classify (routing_counts m d))) (filter (\<lambda>m. m_id m \<in> set ids) (a_monitors d)))"

definition Unreachable :: "alert_monitor \<Rightarrow> alert_db \<Rightarrow> bool" where
  "Unreachable m d \<longleftrightarrow> \<not> SelfSilentGroup m \<and>
     (case RollupGroup (m_id m) d of
        Some gid \<Rightarrow> (case a_monitor gid d of None \<Rightarrow> False | Some rg \<Rightarrow> \<not> (m_enabled rg \<and> ChannelCount rg True d > 0))
      | None \<Rightarrow> ChannelCount m True d = 0)"

section \<open>What is counted is what is routed\<close>

lemma joined_channels_empty:
  "joined_channels activeOnly cid d = [] \<longleftrightarrow>
     \<not> (\<exists>ac \<in> set (alert_channels d). ac_ID ac = cid \<and> (activeOnly \<longrightarrow> ac_IsActive ac))"
  by (auto simp: joined_channels_def filter_empty_conv)

lemma ChannelCount_pos:
  "ChannelCount m activeOnly d > 0 \<longleftrightarrow>
     (\<exists>(cid, delay, pos) \<in> set (targets m d). \<exists>ac \<in> set (alert_channels d).
        ac_ID ac = cid \<and> (activeOnly \<longrightarrow> ac_IsActive ac))"
proof -
  have "ChannelCount m activeOnly d > 0 \<longleftrightarrow>
      (\<exists>mc \<in> set (monitor_channels d). mc_monitor_id mc = m_id m \<and> m_notification_mode m = ''custom'' \<and>
         joined_channels activeOnly (mc_channel_id mc) d \<noteq> []) \<or>
      (\<exists>tdc \<in> set (tenant_default_channels d). tdc_tenant_id tdc = m_tenant_id m \<and>
         m_notification_mode m = ''default'' \<and> joined_channels activeOnly (tdc_channel_id tdc) d \<noteq> [])"
    unfolding ChannelCount_def of_nat_0_less_iff length_greater_0_conv by auto
  also have "\<dots> \<longleftrightarrow> (\<exists>(cid, delay, pos) \<in> set (targets m d). joined_channels activeOnly cid d \<noteq> [])"
    by (force simp: targets_def)
  finally show ?thesis by (simp add: joined_channels_empty case_prod_beta)
qed

lemma ChannelCount_nonneg: "0 \<le> ChannelCount m activeOnly d"
  by (simp add: ChannelCount_def)

lemma rollup_groups_set:
  "set (rollup_groups mid d) = {g \<in> set (a_monitors d). m_id g \<in> set (groups_of mid d) \<and>
     m_deleted_at g = None \<and> m_member_alert_rollup g = ''group''}"
  by (auto simp: rollup_groups_def)

lemma SuppressedByRollup_iff: "SuppressedByRollup mid d \<longleftrightarrow> rollup_groups mid d \<noteq> []"
  unfolding SuppressedByRollup_def set_empty [symmetric] rollup_groups_set by blast

lemma RollupGroup_cases:
  obtains (none) "RollupGroup mid d = None" "rollup_groups mid d = []"
    | (some) g where "RollupGroup mid d = Some (m_id g)" "g \<in> set (rollup_groups mid d)"
        "delivers g d \<longleftrightarrow> (\<exists>g' \<in> set (rollup_groups mid d). delivers g' d)"
proof (cases "sort_key m_id (filter (\<lambda>g. delivers g d) (rollup_groups mid d))")
  case (Cons g gs)
  then have "g \<in> set (sort_key m_id (filter (\<lambda>g. delivers g d) (rollup_groups mid d)))" by simp
  then have "g \<in> set (rollup_groups mid d)" "delivers g d" by simp_all
  with Cons show thesis by (intro some) (auto simp: RollupGroup_def)
next
  case Nil
  then have no: "\<not> (\<exists>g' \<in> set (rollup_groups mid d). delivers g' d)"
    by (metis (mono_tags, lifting) filter_empty_conv set_empty set_sort)
  show thesis
  proof (cases "sort_key m_id (filter (\<lambda>g. \<not> delivers g d) (rollup_groups mid d))")
    case Nil': Nil
    then have "filter (\<lambda>g. \<not> delivers g d) (rollup_groups mid d) = []"
      by (metis set_empty set_sort)
    then have "rollup_groups mid d = []" using no by (cases "rollup_groups mid d") (auto simp: filter_empty_conv)
    with Nil Nil' show thesis by (intro none) (simp_all add: RollupGroup_def)
  next
    case (Cons g gs)
    then have "g \<in> set (sort_key m_id (filter (\<lambda>g. \<not> delivers g d) (rollup_groups mid d)))" by simp
    then have "g \<in> set (rollup_groups mid d)" "\<not> delivers g d" by simp_all
    with Cons Nil no show thesis by (intro some) (auto simp: RollupGroup_def)
  qed
qed


section \<open>A database to run the definitions on\<close>

definition alert_sample_monitor :: "uuid \<Rightarrow> string \<Rightarrow> string \<Rightarrow> State \<Rightarrow> alert_monitor" where
  "alert_sample_monitor i typ rollup st = \<lparr>m_id = i, m_tenant_id = 1, m_type = typ, m_config = '''', m_enabled = True,
     m_deleted_at = None, m_current_state = st, m_consecutive_failures = 3, m_consecutive_failures_threshold = 3,
     m_location_quorum = 1, m_interval_seconds = 60, m_next_run_at = None, m_last_state_change_at = Some 0,
     m_last_result_at = None, m_last_result_started_at = None, m_created_at = 0, m_updated_at = 0,
     m_name = ''m'', m_notification_mode = ''custom'', m_member_alert_rollup = rollup,
     m_dependency_suppression = ''inherit''\<rparr>"

text \<open>
  Monitor 11 in group 12, group 12 in group 13. Both groups speak for their members; group 12 has the
  active channel 7, group 13 none.
\<close>

definition alert_sample_db :: alert_db where
  "alert_sample_db = \<lparr>a_tenants = [\<lparr>t_id = 1, t_alert_reminder_seconds = 3600, t_auto_create_incident = True,
       t_dependency_suppression_enabled = True, t_dependency_suppression_grace_seconds = 60\<rparr>],
     a_monitors = [alert_sample_monitor 11 ''http'' ''per_monitor'' StateDown, alert_sample_monitor 12 ''group'' ''group'' StateUnknown,
       alert_sample_monitor 13 ''group'' ''group'' StateUnknown],
     a_check_results = [], monitor_groups = [(12, 11), (13, 12)], monitor_dependencies = [],
     maintenance_windows = [], maintenance_window_monitors = [],
     alert_channels = [\<lparr>ac_ID = 7, ac_Type = ''webhook'', ac_IsActive = True\<rparr>],
     monitor_channels = [\<lparr>mc_monitor_id = 12, mc_channel_id = 7, mc_delay_seconds = 0\<rparr>],
     tenant_default_channels = [], alerts = [], notification_states = [], incidents = [], incident_alerts = [],
     incident_monitors = [], incident_timeline = []\<rparr>"

lemmas alert_sample_defs = alert_sample_db_def alert_sample_monitor_def


text \<open>
  Nested groups are where the reported reachability and the alerter part. \<open>Classify\<close> looks one level up:
  it reports monitor 11 reachable through the channel of group 12. But group 12 is itself rolled up
  into group 13, so the alerter suppresses the alerts of both, and group 13 has no channel: nobody
  hears that monitor 11 is down.
\<close>

lemma nested_rollup_reaches_nobody:
  "st_Reachable (Classify (routing_counts (alert_sample_monitor 11 ''http'' ''per_monitor'' StateDown) alert_sample_db))"
  "SuppressedByRollup 11 alert_sample_db" "SuppressedByRollup 12 alert_sample_db"
  "targets (alert_sample_monitor 13 ''group'' ''group'' StateUnknown) alert_sample_db = []"
  by code_simp+

end
