(* ===== verification/Notify.thy ===== *)
theory Notify
  imports AlertRouting
begin

text \<open>
  The notification claim (\<open>alerter/internal/alerter/notification_claim.go\<close>): the only path that sends a
  notification through a channel. Each attempt is one transaction that share-locks the alert, claims
  the slot of the alert and the channel for the event, sends, and commits if the send succeeded or
  failed for good. Two replicas that race for a slot serialise on its row, so the attempts on a
  slot happen one after another; what else the database goes through between two attempts is the
  \<open>Environment\<close> of the runs below. What the provider answers is an argument of the attempt.
\<close>

section \<open>The claim\<close>

datatype claim_error = UnknownEventType | ClaimFailed db_error

abbreviation slot :: "uuid \<Rightarrow> uuid \<Rightarrow> notification_state \<Rightarrow> bool" where
  "slot aid cid s \<equiv> ns_alert_id s = aid \<and> ns_channel_id s = cid"

definition slot_state :: "uuid \<Rightarrow> uuid \<Rightarrow> alert_db \<Rightarrow> notification_state option" where
  "slot_state aid cid d = find (slot aid cid) (notification_states d)"

definition update_slot ::
  "uuid \<Rightarrow> uuid \<Rightarrow> (notification_state \<Rightarrow> notification_state) \<Rightarrow> alert_db \<Rightarrow> alert_db" where
  "update_slot aid cid f d = d\<lparr>notification_states := sql_update (slot aid cid) f (notification_states d)\<rparr>"

definition insert_slot :: "uuid \<Rightarrow> uuid \<Rightarrow> string \<Rightarrow> time \<Rightarrow> alert_db \<Rightarrow> claim_error + alert_db" where
  "insert_slot aid cid event now d =
     (if aid \<notin> al_id ` set (alerts d) \<or> cid \<notin> ac_ID ` set (alert_channels d)
      then Inl (ClaimFailed ForeignKeyViolation)
      else Inr (d\<lparr>notification_states := notification_states d @
        [\<lparr>ns_alert_id = aid, ns_channel_id = cid, ns_last_sent_at = now, ns_last_event_type = event,
          ns_acknowledged_sent_at = None, ns_suspected_cause_sent_at = None\<rparr>]\<rparr>))"

text \<open>
  The result says whether the slot was claimed and, for a reminder, which \<open>last_sent_at\<close> the claim
  replaced; the database is the one to commit.
\<close>

definition claimNotificationTx ::
  "uuid \<Rightarrow> uuid \<Rightarrow> string \<Rightarrow> time \<Rightarrow> time \<Rightarrow> alert_db \<Rightarrow> claim_error + (bool \<times> time option \<times> alert_db)" where
  "claimNotificationTx aid cid event now interval d =
     (if event = ''created'' then
        case slot_state aid cid d of
          Some _ \<Rightarrow> Inr (False, None, d)
        | None \<Rightarrow> bindE (insert_slot aid cid ''created'' now d) (\<lambda>d'. Inr (True, None, d'))
      else if event = ''reminder'' then
        if interval \<le> 0 then Inr (False, None, d)
        else case slot_state aid cid d of
          None \<Rightarrow> Inr (False, None, d)
        | Some s \<Rightarrow>
            if ns_last_event_type s \<noteq> ''resolved'' \<and> ns_last_sent_at s \<le> now - interval
            then Inr (True, Some (ns_last_sent_at s),
                   update_slot aid cid (\<lambda>s. s\<lparr>ns_last_sent_at := now, ns_last_event_type := ''reminder''\<rparr>) d)
            else Inr (False, None, d)
      else if event = ''resolved'' then
        case slot_state aid cid d of
          None \<Rightarrow> bindE (insert_slot aid cid ''resolved'' now d) (\<lambda>d'. Inr (True, None, d'))
        | Some s \<Rightarrow>
            if ns_last_event_type s \<noteq> ''resolved''
            then Inr (True, None,
                   update_slot aid cid (\<lambda>s. s\<lparr>ns_last_sent_at := now, ns_last_event_type := ''resolved''\<rparr>) d)
            else Inr (False, None, d)
      else if event = ''acknowledged'' then
        case slot_state aid cid d of
          None \<Rightarrow> Inr (False, None, d)
        | Some s \<Rightarrow>
            if ns_acknowledged_sent_at s = None \<and> ns_last_event_type s \<noteq> ''resolved''
            then Inr (True, None, update_slot aid cid (\<lambda>s. s\<lparr>ns_acknowledged_sent_at := Some now\<rparr>) d)
            else Inr (False, None, d)
      else if event = ''suspected_cause'' then
        case slot_state aid cid d of
          None \<Rightarrow> Inr (False, None, d)
        | Some s \<Rightarrow>
            if ns_suspected_cause_sent_at s = None \<and> ns_last_event_type s \<noteq> ''resolved''
            then Inr (True, None, update_slot aid cid (\<lambda>s. s\<lparr>ns_suspected_cause_sent_at := Some now\<rparr>) d)
            else Inr (False, None, d)
      else Inl UnknownEventType)"

section \<open>The delivery\<close>

datatype send_outcome = SendOk | SendTransient | SendPermanent

datatype deliver_error = NoAlert | ClaimErr claim_error | SendErr send_outcome

text \<open>The result of an attempt and the database after its commit or roll-back.\<close>

definition deliverNotification ::
  "send_outcome \<Rightarrow> string \<Rightarrow> uuid \<Rightarrow> uuid \<Rightarrow> time \<Rightarrow> time \<Rightarrow> alert_db \<Rightarrow> (deliver_error + bool) \<times> alert_db" where
  "deliverNotification send event aid cid now interval d =
     (case find (\<lambda>a. al_id a = aid) (alerts d) of
        None \<Rightarrow> (Inl NoAlert, d)
      | Some a \<Rightarrow>
          if (event = ''resolved'') \<noteq> (al_status a = Resolved) then (Inr False, d)
          else if event = ''acknowledged'' \<and> al_status a \<noteq> Acknowledged then (Inr False, d)
          else
            (case claimNotificationTx aid cid event now interval d of
               Inl e \<Rightarrow> (Inl (ClaimErr e), d)
             | Inr (claimed, round, d') \<Rightarrow>
                 if \<not> claimed then (Inr False, d)
                 else (case send of
                         SendOk \<Rightarrow> (Inr True, d')
                       | SendPermanent \<Rightarrow> (Inl (SendErr SendPermanent), d')
                       | SendTransient \<Rightarrow> (Inl (SendErr SendTransient), d))))"

section \<open>Runs\<close>

record attempt =
  at_send :: send_outcome
  at_event :: string
  at_alert :: uuid
  at_channel :: uuid
  at_now :: time
  at_interval :: time

datatype operation = Deliver attempt | Environment alert_db

text \<open>A step with the attempts that kept their claim, in order.\<close>

definition notify_step :: "alert_db \<times> attempt list \<Rightarrow> operation \<Rightarrow> alert_db \<times> attempt list" where
  "notify_step s op =
     (case op of
        Environment d' \<Rightarrow> (d'\<lparr>notification_states := notification_states (fst s)\<rparr>, snd s)
      | Deliver x \<Rightarrow>
          let (r, d') = deliverNotification (at_send x) (at_event x) (at_alert x) (at_channel x) (at_now x)
                          (at_interval x) (fst s) in
          (d', if r = Inr True \<or> r = Inl (SendErr SendPermanent) then snd s @ [x] else snd s))"

definition notify_run :: "alert_db \<Rightarrow> operation list \<Rightarrow> alert_db \<times> attempt list" where
  "notify_run d ops = foldl notify_step (d, []) ops"

definition slot_history :: "uuid \<Rightarrow> uuid \<Rightarrow> attempt list \<Rightarrow> attempt list" where
  "slot_history aid cid xs = filter (\<lambda>x. at_alert x = aid \<and> at_channel x = cid) xs"

section \<open>One slot as a state machine\<close>

text \<open>What a claimed attempt does to the row of its slot, whatever else the database holds.\<close>

inductive slot_step :: "notification_state option \<Rightarrow> attempt \<Rightarrow> notification_state option \<Rightarrow> bool" where
  created: "at_event x = ''created'' \<Longrightarrow>
    slot_step None x (Some \<lparr>ns_alert_id = at_alert x, ns_channel_id = at_channel x, ns_last_sent_at = at_now x,
      ns_last_event_type = ''created'', ns_acknowledged_sent_at = None, ns_suspected_cause_sent_at = None\<rparr>)"
| reminder: "at_event x = ''reminder'' \<Longrightarrow> 0 < at_interval x \<Longrightarrow> ns_last_event_type s \<noteq> ''resolved'' \<Longrightarrow>
    ns_last_sent_at s \<le> at_now x - at_interval x \<Longrightarrow>
    slot_step (Some s) x (Some (s\<lparr>ns_last_sent_at := at_now x, ns_last_event_type := ''reminder''\<rparr>))"
| resolved_new: "at_event x = ''resolved'' \<Longrightarrow>
    slot_step None x (Some \<lparr>ns_alert_id = at_alert x, ns_channel_id = at_channel x, ns_last_sent_at = at_now x,
      ns_last_event_type = ''resolved'', ns_acknowledged_sent_at = None, ns_suspected_cause_sent_at = None\<rparr>)"
| resolved: "at_event x = ''resolved'' \<Longrightarrow> ns_last_event_type s \<noteq> ''resolved'' \<Longrightarrow>
    slot_step (Some s) x (Some (s\<lparr>ns_last_sent_at := at_now x, ns_last_event_type := ''resolved''\<rparr>))"
| acknowledged: "at_event x = ''acknowledged'' \<Longrightarrow> ns_acknowledged_sent_at s = None \<Longrightarrow>
    ns_last_event_type s \<noteq> ''resolved'' \<Longrightarrow>
    slot_step (Some s) x (Some (s\<lparr>ns_acknowledged_sent_at := Some (at_now x)\<rparr>))"
| suspected_cause: "at_event x = ''suspected_cause'' \<Longrightarrow> ns_suspected_cause_sent_at s = None \<Longrightarrow>
    ns_last_event_type s \<noteq> ''resolved'' \<Longrightarrow>
    slot_step (Some s) x (Some (s\<lparr>ns_suspected_cause_sent_at := Some (at_now x)\<rparr>))"

inductive_cases slot_stepE: "slot_step s x s'"

lemma slot_state_update:
  assumes "\<And>s. slot aid cid s \<Longrightarrow> slot aid cid (f s)"
  shows "slot_state a c (update_slot aid cid f d) =
    (if a = aid \<and> c = cid then map_option f (slot_state a c d) else slot_state a c d)"
proof -
  have "find (slot a c) (sql_update (slot aid cid) f rows) =
      (if a = aid \<and> c = cid then map_option f (find (slot a c) rows) else find (slot a c) rows)" for rows
  proof (induction rows)
    case (Cons r rows)
    then show ?case using assms [of r] by (cases "slot aid cid r") auto
  qed simp
  then show ?thesis by (simp only: slot_state_def update_slot_def) simp
qed

lemma slot_state_insert:
  assumes "insert_slot aid cid event now d = Inr d'"
  shows "slot_state a c d' = (case slot_state a c d of Some s \<Rightarrow> Some s
    | None \<Rightarrow> if a = aid \<and> c = cid then Some \<lparr>ns_alert_id = aid, ns_channel_id = cid, ns_last_sent_at = now,
        ns_last_event_type = event, ns_acknowledged_sent_at = None, ns_suspected_cause_sent_at = None\<rparr> else None)"
  using assms by (auto simp: insert_slot_def slot_state_def find_append split: if_splits option.split)

lemma claim_refines_slot_step:
  assumes "claimNotificationTx (at_alert x) (at_channel x) (at_event x) (at_now x) (at_interval x) d = Inr (True, r, d')"
  shows "slot_step (slot_state (at_alert x) (at_channel x) d) x (slot_state (at_alert x) (at_channel x) d')"
    and "(a, c) \<noteq> (at_alert x, at_channel x) \<Longrightarrow> slot_state a c d' = slot_state a c d"
  using assms
  by (auto simp: claimNotificationTx_def bindE_eq_Inr slot_state_update slot_state_insert not_le
      split: if_splits option.splits intro: slot_step.intros)

section \<open>The history of a slot\<close>

abbreviation events :: "attempt list \<Rightarrow> string list" where
  "events h \<equiv> map at_event h"

text \<open>The attempts that move \<open>last_sent_at\<close>.\<close>

definition timed :: "attempt list \<Rightarrow> attempt list" where
  "timed h = filter (\<lambda>x. at_event x \<in> {''created'', ''reminder'', ''resolved''}) h"

abbreviation due_after :: "attempt \<Rightarrow> attempt \<Rightarrow> bool" where
  "due_after a b \<equiv> at_event b = ''reminder'' \<longrightarrow> 0 < at_interval b \<and> at_now a + at_interval b \<le> at_now b"

definition slot_inv :: "attempt list \<Rightarrow> notification_state option \<Rightarrow> bool" where
  "slot_inv h s \<longleftrightarrow> (case s of None \<Rightarrow> h = [] | Some r \<Rightarrow>
     timed h \<noteq> [] \<and> hd h = hd (timed h) \<and> at_event (hd h) \<in> {''created'', ''resolved''} \<and>
     ''created'' \<notin> set (events (tl h)) \<and>
     (''resolved'' \<in> set (events h) \<longleftrightarrow> ns_last_event_type r = ''resolved'') \<and>
     ''resolved'' \<notin> set (events (butlast h)) \<and>
     count_list (events h) ''acknowledged'' = (if ns_acknowledged_sent_at r = None then 0 else 1) \<and>
     count_list (events h) ''suspected_cause'' = (if ns_suspected_cause_sent_at r = None then 0 else 1) \<and>
     at_now (last (timed h)) = ns_last_sent_at r \<and> successively due_after (timed h))"

lemma timed_append: "timed (h @ [x]) =
  (if at_event x \<in> {''created'', ''reminder'', ''resolved''} then timed h @ [x] else timed h)"
  by (simp add: timed_def)

lemma slot_inv_step:
  assumes "slot_inv h s" "slot_step s x s'"
  shows "slot_inv (h @ [x]) s'"
proof -
  have ne: "timed h \<noteq> [] \<Longrightarrow> h \<noteq> []" by (auto simp: timed_def)
  from assms(2) show ?thesis
    using assms(1) ne
    by (cases rule: slot_step.cases)
       (auto simp: slot_inv_def timed_append successively_append_iff timed_def [of "[x]"])
qed

lemma slot_history_append: "slot_history a c (xs @ [x]) =
  (if at_alert x = a \<and> at_channel x = c then slot_history a c xs @ [x] else slot_history a c xs)"
  by (simp add: slot_history_def)

lemma deliver_claims:
  assumes "deliverNotification (at_send x) (at_event x) (at_alert x) (at_channel x) (at_now x) (at_interval x) d = (r, d')"
  shows "if r = Inr True \<or> r = Inl (SendErr SendPermanent)
    then slot_step (slot_state (at_alert x) (at_channel x) d) x (slot_state (at_alert x) (at_channel x) d') \<and>
      (\<forall>a c. (a, c) \<noteq> (at_alert x, at_channel x) \<longrightarrow> slot_state a c d' = slot_state a c d)
    else d' = d"
proof (cases "r = Inr True \<or> r = Inl (SendErr SendPermanent)")
  case True
  then obtain rd where "claimNotificationTx (at_alert x) (at_channel x) (at_event x) (at_now x) (at_interval x) d = Inr (True, rd, d')"
    using assms by (auto simp: deliverNotification_def split: option.splits if_splits sum.splits prod.splits send_outcome.splits)
  from claim_refines_slot_step [OF this] True show ?thesis by simp
next
  case False
  then show ?thesis
    using assms by (auto simp: deliverNotification_def split: option.splits if_splits sum.splits prod.splits send_outcome.splits)
qed

definition history_ok :: "alert_db \<times> attempt list \<Rightarrow> bool" where
  "history_ok s \<longleftrightarrow> (\<forall>a c. slot_inv (slot_history a c (snd s)) (slot_state a c (fst s)))"

lemma slot_state_states: "notification_states d' = notification_states d \<Longrightarrow> slot_state a c d' = slot_state a c d"
  by (simp add: slot_state_def)

lemma history_step:
  assumes "history_ok s"
  shows "history_ok (notify_step s op)"
proof (cases op)
  case (Environment d')
  then show ?thesis using assms
    by (simp add: history_ok_def notify_step_def slot_state_states [of "d'\<lparr>notification_states := _\<rparr>" "fst s"])
next
  case (Deliver x)
  obtain r d' where r: "deliverNotification (at_send x) (at_event x) (at_alert x) (at_channel x) (at_now x)
      (at_interval x) (fst s) = (r, d')" by fastforce
  note claims = deliver_claims [OF r]
  show ?thesis
  proof (cases "r = Inr True \<or> r = Inl (SendErr SendPermanent)")
    case True
    have "slot_inv (slot_history a c (snd s @ [x])) (slot_state a c d')" for a c
    proof (cases "(a, c) = (at_alert x, at_channel x)")
      case same: True
      then show ?thesis
        using claims True assms by (auto simp: slot_history_append history_ok_def intro: slot_inv_step)
    next
      case False
      then show ?thesis using claims True assms by (auto simp: slot_history_append history_ok_def)
    qed
    with True Deliver r show ?thesis by (simp add: notify_step_def history_ok_def)
  next
    case False
    with claims Deliver r assms show ?thesis by (simp add: notify_step_def history_ok_def)
  qed
qed

interpretation notify: machine_run notify_step history_ok
  by unfold_locales (rule history_step)

lemma count_created: "''created'' \<notin> set (events (tl h)) \<Longrightarrow> count_list (events h) ''created'' \<le> 1"
  by (cases h) (auto simp: count_list_0_iff [THEN iffD2])

lemma count_resolved: "''resolved'' \<notin> set (events (butlast h)) \<Longrightarrow> count_list (events h) ''resolved'' \<le> 1"
  by (cases h rule: rev_cases) (auto simp: count_list_0_iff [THEN iffD2])

section \<open>Properties\<close>


text \<open>Two replicas race for the creation, a reminder comes too early, one in time, then the recovery.\<close>

definition race_attempt :: "string \<Rightarrow> time \<Rightarrow> attempt" where
  "race_attempt e t = \<lparr>at_send = SendOk, at_event = e, at_alert = 5, at_channel = 7, at_now = t, at_interval = 100\<rparr>"

definition race_db :: "alert_status \<Rightarrow> alert_db" where
  "race_db st = alert_sample_db\<lparr>alerts := [\<lparr>al_id = 5, al_tenant_id = 1, al_monitor_id = Some 11, al_kind = ''availability'',
     al_metric_name = None, al_status = st, al_triggered_at = 0, al_acknowledged_at = None, al_resolved_at = None,
     al_failure_count = 3, al_last_error = None, al_root_cause_monitor_id = None, al_root_cause_down_since = None,
     al_root_cause_cleared_at = None, al_updated_at = 0\<rparr>]\<rparr>"

definition race_ops :: "operation list" where
  "race_ops = [Deliver (race_attempt ''created'' 10), Deliver (race_attempt ''created'' 11),
     Deliver (race_attempt ''reminder'' 109), Deliver (race_attempt ''reminder'' 110),
     Environment (race_db Resolved), Deliver (race_attempt ''reminder'' 300),
     Deliver (race_attempt ''resolved'' 301), Deliver (race_attempt ''resolved'' 302)]"


end
