(* ===== verification/AlertLifecycle.thy ===== *)
theory AlertLifecycle
  imports Notify
begin

text \<open>
  The alerter's tick (\<open>alerter/internal/alerter/lifecycle.go\<close>, with the alert and incident
  statements of \<open>evaluator.go\<close> and the recovery sweep of \<open>recovery_dispatch.go\<close>): the states of
  groups are derived from their members, an alert opens for every monitor that is down and resolves
  when the monitor recovers, open alerts are annotated with the upstream that explains them, and
  due notifications are dispatched through the claim. \<open>db_now\<close> is the database's \<open>NOW()\<close>, \<open>now\<close> the
  alerter's clock; what a provider answers to an attempt is the argument \<open>provider\<close>. Identifiers that
  the code draws at random are arguments, \<open>new_id\<close> of the monitor they are drawn for.
\<close>

type_synonym provider = "string \<Rightarrow> uuid \<Rightarrow> uuid \<Rightarrow> time \<Rightarrow> send_outcome"

abbreviation is_open :: "alert \<Rightarrow> bool" where
  "is_open al \<equiv> al_status al \<in> {Active, Acknowledged}"

section \<open>States of groups\<close>

text \<open>
  The rows \<open>(group, member)\<close> of the recursive query: the enabled live members of an enabled live
  group, then those of the members that are groups themselves. The recursion adds rows until none
  is new; there are at most as many levels as monitors.
\<close>

definition live_child :: "alert_db \<Rightarrow> uuid \<Rightarrow> uuid \<Rightarrow> alert_monitor list" where
  "live_child d tid gid = concat (map (\<lambda>(g, c). filter (\<lambda>m. g = gid \<and> m_id m = c \<and> m_tenant_id m = tid \<and>
     m_deleted_at m = None \<and> m_enabled m) (a_monitors d)) (monitor_groups d))"

definition group_ids :: "alert_db \<Rightarrow> uuid list" where
  "group_ids d = map m_id (filter (\<lambda>m. m_type m = ''group'') (a_monitors d))"

definition expand_members :: "alert_db \<Rightarrow> uuid \<Rightarrow> alert_monitor list \<Rightarrow> alert_monitor list" where
  "expand_members d tid ms = remdups (ms @ concat (map (\<lambda>m.
     if m_id m \<in> set (group_ids d) then live_child d tid (m_id m) else []) ms))"

definition descendants :: "alert_db \<Rightarrow> alert_monitor \<Rightarrow> alert_monitor list" where
  "descendants d g =
     (if m_type g = ''group'' \<and> m_deleted_at g = None \<and> m_enabled g
      then (expand_members d (m_tenant_id g) ^^ length (a_monitors d)) (remdups (live_child d (m_tenant_id g) (m_id g)))
      else [])"

definition group_state :: "alert_db \<Rightarrow> alert_monitor \<Rightarrow> State" where
  "group_state d g =
     (let leaves = filter (\<lambda>m. m_type m \<noteq> ''group'') (descendants d g) in
      if list_ex (\<lambda>m. m_current_state m = StateDown) leaves then StateDown
      else if leaves \<noteq> [] \<and> list_all (\<lambda>m. m_current_state m \<in> {StateUp, StateSuspect, StateDegraded}) leaves then StateUp
      else StateUnknown)"

definition refreshGroupStates :: "time \<Rightarrow> alert_db \<Rightarrow> alert_db" where
  "refreshGroupStates db_now d =
     d\<lparr>a_monitors := sql_update
        (\<lambda>m. m_type m = ''group'' \<and> m_deleted_at m = None \<and> m_current_state m \<noteq> group_state d m)
        (\<lambda>m. m\<lparr>m_current_state := group_state d m, m_last_state_change_at := Some db_now, m_updated_at := db_now\<rparr>)
        (a_monitors d)\<rparr>"

section \<open>Root causes\<close>

definition depends_on :: "alert_db \<Rightarrow> uuid \<Rightarrow> uuid list" where
  "depends_on d mid = map snd (filter (\<lambda>(m, u). m = mid) (monitor_dependencies d))"

text \<open>The upstream monitors with the depths they are found at, to depth 25.\<close>

fun upstream_from :: "alert_db \<Rightarrow> nat \<Rightarrow> nat \<Rightarrow> uuid list \<Rightarrow> (uuid \<times> nat) list" where
  "upstream_from d 0 depth ids = []"
| "upstream_from d (Suc n) depth ids =
     map (\<lambda>i. (i, depth)) ids @ upstream_from d n (depth + 1) (remdups (concat (map (depends_on d) ids)))"

definition upstream :: "alert_db \<Rightarrow> uuid \<Rightarrow> (uuid \<times> nat) list" where
  "upstream d mid = upstream_from d 25 1 (remdups (depends_on d mid))"

text \<open>\<open>ORDER BY depth DESC, last_state_change_at ASC LIMIT 1\<close>; a missing time sorts last.\<close>

definition rootCause :: "alert_db \<Rightarrow> uuid \<Rightarrow> alert_monitor option" where
  "rootCause d mid =
     (let rows = concat (map (\<lambda>(u, depth). map (\<lambda>m. (m, depth)) (filter (\<lambda>m. m_id m = u \<and>
            m_current_state m = StateDown \<and> m_deleted_at m = None \<and> m_enabled m \<and> m_id m \<noteq> mid) (a_monitors d)))
            (upstream d mid));
          by_time = sort_key (\<lambda>(m, depth). if m_last_state_change_at m = None then 1 else 0 :: nat)
                      (sort_key (\<lambda>(m, depth). case m_last_state_change_at m of None \<Rightarrow> 0 | Some t \<Rightarrow> t) rows);
          by_depth = sort_key (\<lambda>(m, depth). - int depth) by_time in
      (case by_depth of [] \<Rightarrow> None | (m, _) # _ \<Rightarrow> Some m))"

definition annotate_alert :: "time \<Rightarrow> alert_db \<Rightarrow> alert \<Rightarrow> alert" where
  "annotate_alert db_now d al =
     (let rc = Option.bind (al_monitor_id al) (rootCause d);
          rc_id = map_option m_id rc; since = Option.bind rc m_last_state_change_at in
      if al_root_cause_monitor_id al \<noteq> rc_id \<or> al_root_cause_down_since al \<noteq> since then
        al\<lparr>al_root_cause_cleared_at := (if rc_id \<noteq> None then None
                                       else if al_root_cause_monitor_id al \<noteq> None then Some db_now
                                       else al_root_cause_cleared_at al),
           al_root_cause_monitor_id := rc_id, al_root_cause_down_since := since, al_updated_at := db_now\<rparr>
      else al)"

definition annotateOpenAlertRootCauses :: "time \<Rightarrow> alert_db \<Rightarrow> alert_db" where
  "annotateOpenAlertRootCauses db_now d =
     d\<lparr>alerts := sql_update (\<lambda>al. is_open al \<and> al_kind al = ''availability'') (annotate_alert db_now d) (alerts d)\<rparr>"

section \<open>Incidents\<close>

definition insertIncidentTimelineEntryTx :: "uuid \<Rightarrow> string \<Rightarrow> string \<Rightarrow> time option \<Rightarrow> alert_db \<Rightarrow> alert_db" where
  "insertIncidentTimelineEntryTx iid typ msg after d =
     d\<lparr>incident_timeline := incident_timeline d @
        [\<lparr>ie_incident_id = iid, ie_entry_type = typ, ie_message = msg, ie_resolved_after = after\<rparr>]\<rparr>"

text \<open>The open incident created for the monitor and policy, the latest if there are several, or a new one.\<close>

definition auto_incidents :: "uuid \<Rightarrow> uuid \<Rightarrow> uuid option \<Rightarrow> alert_db \<Rightarrow> incident list" where
  "auto_incidents tid mid policy d = filter (\<lambda>i. in_tenant_id i = tid \<and> in_is_auto_created i \<and>
     in_auto_monitor_id i = Some mid \<and> in_auto_alert_policy_id i = policy \<and> in_state i \<noteq> ''resolved'') (incidents d)"

definition findOrCreateAutoIncidentTx ::
  "uuid \<Rightarrow> time \<Rightarrow> uuid \<Rightarrow> uuid \<Rightarrow> uuid option \<Rightarrow> alert_db \<Rightarrow> db_error + (uuid \<times> bool \<times> alert_db)" where
  "findOrCreateAutoIncidentTx new_iid db_now tid mid policy d =
     (if auto_incidents tid mid policy d \<noteq> [] then
        Inr (in_id (last (sort_key in_created_at (sort_key in_id (auto_incidents tid mid policy d)))), False, d)
      else if new_iid \<in> in_id ` set (incidents d) then Inl UniqueViolation
      else Inr (new_iid, True, d\<lparr>incidents := incidents d @
        [\<lparr>in_id = new_iid, in_tenant_id = tid, in_state = ''investigating'', in_is_auto_created = True,
          in_auto_monitor_id = Some mid, in_auto_alert_policy_id = policy, in_created_at = db_now\<rparr>]\<rparr>))"

definition ensureIncidentAlertLinkTx :: "uuid \<Rightarrow> uuid \<Rightarrow> alert_db \<Rightarrow> bool \<times> alert_db" where
  "ensureIncidentAlertLinkTx iid aid d =
     (if (iid, aid) \<in> set (incident_alerts d) then (False, d)
      else (True, d\<lparr>incident_alerts := incident_alerts d @ [(iid, aid)]\<rparr>))"

definition ensureIncidentMonitorLinkTx :: "uuid \<Rightarrow> uuid \<Rightarrow> alert_db \<Rightarrow> bool \<times> alert_db" where
  "ensureIncidentMonitorLinkTx iid mid d =
     (if (iid, mid) \<in> set (incident_monitors d) then (False, d)
      else (True, d\<lparr>incident_monitors := incident_monitors d @ [(iid, mid)]\<rparr>))"

definition ensureAutoIncidentForAlertTx ::
  "uuid \<Rightarrow> time \<Rightarrow> uuid \<Rightarrow> uuid \<Rightarrow> uuid option \<Rightarrow> uuid \<Rightarrow> alert_db \<Rightarrow> db_error + alert_db" where
  "ensureAutoIncidentForAlertTx new_iid db_now tid mid policy aid d =
     bindE (findOrCreateAutoIncidentTx new_iid db_now tid mid policy d) (\<lambda>(iid, created, d1).
       let (alertAttached, d2) = ensureIncidentAlertLinkTx iid aid d1;
           (monitorAttached, d3) = ensureIncidentMonitorLinkTx iid mid d2 in
       if created \<or> alertAttached \<or> monitorAttached then
         Inr (insertIncidentTimelineEntryTx iid ''system''
           (if created then ''Incident auto-created from firing alert'' else ''Alert auto-linked to existing incident'') None d3)
       else Inr d3)"

definition alertsRecoveredMessage :: string where
  "alertsRecoveredMessage = ''All linked alerts recovered''"

definition incident_alert_rows :: "uuid \<Rightarrow> alert_db \<Rightarrow> alert list" where
  "incident_alert_rows iid d =
     concat (map (\<lambda>(i, aid). filter (\<lambda>a. i = iid \<and> al_id a = aid) (alerts d)) (incident_alerts d))"

text \<open>The time of the last recovery if every linked alert has resolved.\<close>

definition loadIncidentAlertRecoveryStateTx :: "uuid \<Rightarrow> alert_db \<Rightarrow> time option" where
  "loadIncidentAlertRecoveryStateTx iid d =
     (let rows = incident_alert_rows iid d in
      if rows = [] \<or> list_ex is_open rows then None
      else Some (Max (set (map (\<lambda>a. case al_resolved_at a of Some t \<Rightarrow> t | None \<Rightarrow> al_updated_at a) rows))))"

definition recoveryTimelineExistsTx :: "uuid \<Rightarrow> time \<Rightarrow> alert_db \<Rightarrow> bool" where
  "recoveryTimelineExistsTx iid after d = list_ex (\<lambda>e. ie_incident_id e = iid \<and> ie_entry_type e = ''system'' \<and>
     ie_message e = alertsRecoveredMessage \<and> ie_resolved_after e = Some after) (incident_timeline d)"

definition record_recovery :: "uuid \<Rightarrow> alert_db \<Rightarrow> alert_db" where
  "record_recovery iid d =
     (case loadIncidentAlertRecoveryStateTx iid d of
        None \<Rightarrow> d
      | Some after \<Rightarrow>
          if recoveryTimelineExistsTx iid after d then d
          else insertIncidentTimelineEntryTx iid ''system'' alertsRecoveredMessage (Some after) d)"

definition recordAlertRecoveryIfNeededTx :: "uuid \<Rightarrow> alert_db \<Rightarrow> alert_db" where
  "recordAlertRecoveryIfNeededTx aid d =
     fold record_recovery
       (sort (remdups (map in_id (filter (\<lambda>i. (in_id i, aid) \<in> set (incident_alerts d) \<and>
          (\<exists>a \<in> set (alerts d). al_id a = aid \<and> al_tenant_id a = in_tenant_id i)) (incidents d))))) d"

section \<open>Opening\<close>

record downMonitor =
  dm_id :: uuid
  dm_tenantID :: uuid
  dm_failCount :: int
  dm_lastError :: "string option"
  dm_rootCauseID :: "uuid option"
  dm_rootCauseDownSince :: "time option"

definition last_error :: "alert_db \<Rightarrow> uuid \<Rightarrow> string option" where
  "last_error d mid =
     (case rev (sort_key cr_created_at (filter (\<lambda>r. cr_monitor_id r = mid \<and> cr_status r \<in> {''failure'', ''error''})
        (a_check_results d))) of [] \<Rightarrow> None | r # _ \<Rightarrow> cr_error_message r)"

definition has_open_alert :: "alert_db \<Rightarrow> uuid \<Rightarrow> bool" where
  "has_open_alert d mid \<longleftrightarrow>
     list_ex (\<lambda>al. al_monitor_id al = Some mid \<and> al_kind al = ''availability'' \<and> is_open al) (alerts d)"

definition should_open :: "time \<Rightarrow> alert_db \<Rightarrow> alert_monitor \<Rightarrow> bool" where
  "should_open db_now d m \<longleftrightarrow> m_current_state m = StateDown \<and> m_enabled m \<and> m_deleted_at m = None \<and>
     \<not> InMaintenanceAt m db_now d \<and> \<not> SelfSilentGroup m"

definition down_monitors :: "time \<Rightarrow> alert_db \<Rightarrow> downMonitor list" where
  "down_monitors db_now d = map (\<lambda>m. let rc = rootCause d (m_id m) in
       \<lparr>dm_id = m_id m, dm_tenantID = m_tenant_id m, dm_failCount = m_consecutive_failures m,
        dm_lastError = last_error d (m_id m), dm_rootCauseID = map_option m_id rc,
        dm_rootCauseDownSince = Option.bind rc m_last_state_change_at\<rparr>)
     (filter (\<lambda>m. should_open db_now d m \<and> \<not> has_open_alert d (m_id m)) (a_monitors d))"

text \<open>The unique index on the open alert of a monitor, a kind and a metric.\<close>

definition alert_key :: "alert \<Rightarrow> uuid option \<times> string \<times> string" where
  "alert_key al = (al_monitor_id al, al_kind al, case al_metric_name al of None \<Rightarrow> '''' | Some n \<Rightarrow> n)"

definition insert_alert :: "alert \<Rightarrow> alert_db \<Rightarrow> db_error + alert_db option" where
  "insert_alert al d =
     (if list_ex (\<lambda>a. is_open a \<and> alert_key a = alert_key al) (alerts d) then Inr None
      else if al_id al \<in> al_id ` set (alerts d) then Inl UniqueViolation
      else Inr (Some (d\<lparr>alerts := alerts d @ [al]\<rparr>)))"

definition outage_alert :: "uuid \<Rightarrow> time \<Rightarrow> downMonitor \<Rightarrow> alert" where
  "outage_alert aid db_now dm = \<lparr>al_id = aid, al_tenant_id = dm_tenantID dm, al_monitor_id = Some (dm_id dm),
     al_kind = ''availability'', al_metric_name = None, al_status = Active, al_triggered_at = db_now,
     al_acknowledged_at = None, al_resolved_at = None, al_failure_count = dm_failCount dm,
     al_last_error = dm_lastError dm, al_root_cause_monitor_id = dm_rootCauseID dm,
     al_root_cause_down_since = dm_rootCauseDownSince dm, al_root_cause_cleared_at = None, al_updated_at = db_now\<rparr>"

text \<open>The transaction of \<open>openOutageAlert\<close>: \<open>None\<close> says another replica won the race.\<close>

definition openOutageAlert ::
  "(uuid \<Rightarrow> uuid) \<Rightarrow> (uuid \<Rightarrow> uuid) \<Rightarrow> time \<Rightarrow> downMonitor \<Rightarrow> alert_db \<Rightarrow> db_error + alert_db option" where
  "openOutageAlert new_id new_incident db_now dm d =
     bindE (insert_alert (outage_alert (new_id (dm_id dm)) db_now dm) d) (\<lambda>r. case r of
        None \<Rightarrow> Inr None
      | Some d1 \<Rightarrow>
          (case find (\<lambda>t. t_id t = dm_tenantID dm) (a_tenants d1) of
             None \<Rightarrow> Inl ErrNoRows
           | Some te \<Rightarrow>
               if t_auto_create_incident te then
                 bindE (ensureAutoIncidentForAlertTx (new_incident (dm_id dm)) db_now (dm_tenantID dm) (dm_id dm) None
                   (new_id (dm_id dm)) d1) (\<lambda>d2. Inr (Some d2))
               else Inr (Some d1)))"

text \<open>An error is logged and the next monitor is tried; its transaction left nothing behind.\<close>

definition opened :: "db_error + alert_db option \<Rightarrow> alert_db \<Rightarrow> alert_db" where
  "opened r d = (case r of Inl _ \<Rightarrow> d | Inr None \<Rightarrow> d | Inr (Some d') \<Rightarrow> d')"

definition openAlertsForDownMonitors :: "(uuid \<Rightarrow> uuid) \<Rightarrow> (uuid \<Rightarrow> uuid) \<Rightarrow> time \<Rightarrow> alert_db \<Rightarrow> alert_db" where
  "openAlertsForDownMonitors new_id new_incident db_now d =
     fold (\<lambda>dm d. opened (openOutageAlert new_id new_incident db_now dm d) d) (down_monitors db_now d) d"

section \<open>Resolving\<close>

definition resolve_row :: "time \<Rightarrow> alert \<Rightarrow> alert" where
  "resolve_row now al = al\<lparr>al_status := Resolved, al_resolved_at := Some now, al_updated_at := now\<rparr>"

text \<open>\<open>None\<close> is \<open>errAlertAlreadyResolved\<close>.\<close>

definition resolveAlert :: "uuid \<Rightarrow> time \<Rightarrow> alert_db \<Rightarrow> alert_db option" where
  "resolveAlert aid now d =
     (if list_ex (\<lambda>a. al_id a = aid \<and> is_open a) (alerts d)
      then Some (recordAlertRecoveryIfNeededTx aid
             (d\<lparr>alerts := sql_update (\<lambda>a. al_id a = aid \<and> is_open a) (resolve_row now) (alerts d)\<rparr>))
      else None)"

definition recovered :: "alert_db \<Rightarrow> alert \<Rightarrow> bool" where
  "recovered d al \<longleftrightarrow> is_open al \<and> al_kind al = ''availability'' \<and>
     (\<exists>m \<in> set (a_monitors d). al_monitor_id al = Some (m_id m) \<and>
        (m_current_state m = StateUp \<or> m_deleted_at m \<noteq> None \<or> \<not> m_enabled m \<or>
         (m_type m = ''group'' \<and> m_current_state m = StateUnknown)))"

section \<open>Dispatching\<close>

definition fireChannel :: "provider \<Rightarrow> string \<Rightarrow> uuid \<Rightarrow> uuid \<Rightarrow> time \<Rightarrow> time \<Rightarrow> alert_db \<Rightarrow> alert_db" where
  "fireChannel provider event aid cid now interval d =
     snd (deliverNotification (provider event aid cid now) event aid cid now interval d)"

text \<open>An event to every active channel that already fired for the alert.\<close>

definition fired_channels :: "uuid \<Rightarrow> alert_db \<Rightarrow> uuid list" where
  "fired_channels aid d = concat (map (\<lambda>s. map ac_ID (filter (\<lambda>ac. ac_ID ac = ns_channel_id s \<and>
       ns_last_event_type s \<noteq> ''resolved'' \<and> ac_IsActive ac) (alert_channels d)))
     (filter (\<lambda>s. ns_alert_id s = aid) (notification_states d)))"

definition notifyFiredChannels :: "provider \<Rightarrow> string \<Rightarrow> uuid \<Rightarrow> time \<Rightarrow> alert_db \<Rightarrow> alert_db" where
  "notifyFiredChannels provider event aid now d =
     fold (\<lambda>cid. fireChannel provider event aid cid now 0) (fired_channels aid d) d"

definition resolve_and_notify :: "provider \<Rightarrow> time \<Rightarrow> uuid \<Rightarrow> alert_db \<Rightarrow> alert_db" where
  "resolve_and_notify provider now aid d =
     (case resolveAlert aid now d of None \<Rightarrow> d
      | Some d' \<Rightarrow> notifyFiredChannels provider ''resolved'' aid now d')"

definition resolveAlertsForRecoveredMonitors :: "provider \<Rightarrow> time \<Rightarrow> alert_db \<Rightarrow> alert_db" where
  "resolveAlertsForRecoveredMonitors provider now d =
     fold (resolve_and_notify provider now) (map al_id (filter (recovered d) (alerts d))) d"

text \<open>\<open>ORDER BY pos, channel id\<close>.\<close>

definition resolveChannelTargets :: "alert_monitor \<Rightarrow> alert_db \<Rightarrow> (alertChannel \<times> time) list" where
  "resolveChannelTargets m d =
     map (\<lambda>(pos, ac, delay). (ac, secs delay))
       (sort_key (\<lambda>(pos, ac, delay). pos) (sort_key (\<lambda>(pos, ac, delay). ac_ID ac)
         (concat (map (\<lambda>(cid, delay, pos). map (\<lambda>ac. (pos, ac, delay)) (filter (\<lambda>ac. ac_ID ac = cid) (alert_channels d)))
           (targets m d)))))"

definition openAlertDispatchable :: "time \<Rightarrow> alert_db \<Rightarrow> alert \<Rightarrow> alert_monitor \<Rightarrow> tenant \<Rightarrow> bool" where
  "openAlertDispatchable db_now d al m te \<longleftrightarrow>
     is_open al \<and> m_deleted_at m = None \<and>
     (al_kind al = ''availability'' \<and> m_current_state m \<in> {StateDown, StateDegraded} \<or>
      al_kind al = ''latency_anomaly'' \<or> al_kind al = ''host_metric'' \<or> al_kind al = ''tls_expiry'') \<and>
     \<not> InMaintenanceAt m db_now d \<and> \<not> SelfSilentGroup m \<and> \<not> SuppressedByRollup (m_id m) d \<and>
     \<not> SuppressedByDependency db_now al m te"

definition open_alert_rows :: "time \<Rightarrow> alert_db \<Rightarrow> (alert \<times> alert_monitor \<times> tenant) list" where
  "open_alert_rows db_now d =
     filter (\<lambda>(al, m, te). openAlertDispatchable db_now d al m te)
       (concat (map (\<lambda>al. concat (map (\<lambda>m. map (\<lambda>te. (al, m, te))
           (filter (\<lambda>te. t_id te = al_tenant_id al) (a_tenants d)))
         (filter (\<lambda>m. al_monitor_id al = Some (m_id m)) (a_monitors d)))) (alerts d)))"

text \<open>
  One channel of one open alert: the first notification once the escalation delay has passed since
  the alert became eligible, then reminders. \<open>d0\<close> is what the states were loaded from.
\<close>

definition dispatch_target ::
  "provider \<Rightarrow> time \<Rightarrow> alert \<Rightarrow> tenant \<Rightarrow> alert_db \<Rightarrow> alertChannel \<times> time \<Rightarrow> alert_db \<Rightarrow> alert_db" where
  "dispatch_target provider now al te d0 target d =
     (let (ac, delay) = target;
          age = now - DispatchEligibleSince al te;
          interval = secs (t_alert_reminder_seconds te) in
      if \<not> ac_IsActive ac then d
      else (case slot_state (al_id al) (ac_ID ac) d0 of
          None \<Rightarrow> if age \<ge> delay then fireChannel provider ''created'' (al_id al) (ac_ID ac) now interval d else d
        | Some s \<Rightarrow>
            if ns_last_event_type s \<noteq> ''resolved'' \<and> interval > 0 \<and> now - ns_last_sent_at s \<ge> interval
            then fireChannel provider ''reminder'' (al_id al) (ac_ID ac) now interval d else d))"

definition dispatch_alert :: "provider \<Rightarrow> time \<Rightarrow> alert \<times> alert_monitor \<times> tenant \<Rightarrow> alert_db \<Rightarrow> alert_db" where
  "dispatch_alert provider now row d =
     (let (al, m, te) = row in fold (dispatch_target provider now al te d) (resolveChannelTargets m d) d)"

definition dispatchOpenAlerts :: "provider \<Rightarrow> time \<Rightarrow> time \<Rightarrow> alert_db \<Rightarrow> alert_db" where
  "dispatchOpenAlerts provider db_now now d = fold (dispatch_alert provider now) (open_alert_rows db_now d) d"

definition pending_acks :: "string list \<Rightarrow> alert_db \<Rightarrow> (uuid \<times> uuid) list" where
  "pending_acks ackTypes d = concat (map (\<lambda>s. concat (map (\<lambda>al. map (\<lambda>ac. (al_id al, ac_ID ac))
         (filter (\<lambda>ac. ac_ID ac = ns_channel_id s \<and> ac_IsActive ac \<and> ac_Type ac \<in> set ackTypes) (alert_channels d)))
       (filter (\<lambda>al. al_id al = ns_alert_id s \<and> al_status al = Acknowledged) (alerts d))))
     (filter (\<lambda>s. ns_acknowledged_sent_at s = None \<and> ns_last_event_type s \<noteq> ''resolved'') (notification_states d)))"

definition dispatchAcknowledgements :: "provider \<Rightarrow> string list \<Rightarrow> time \<Rightarrow> alert_db \<Rightarrow> alert_db" where
  "dispatchAcknowledgements provider ackTypes now d =
     fold (\<lambda>(aid, cid). fireChannel provider ''acknowledged'' aid cid now 0) (pending_acks ackTypes d) d"

section \<open>The recovery sweep\<close>

definition recovery_pending :: "alert_db \<Rightarrow> alert \<Rightarrow> bool" where
  "recovery_pending d al \<longleftrightarrow> al_status al = Resolved \<and>
     (\<exists>s \<in> set (notification_states d). \<exists>ac \<in> set (alert_channels d). ac_ID ac = ns_channel_id s \<and>
        ns_alert_id s = al_id al \<and> ns_last_event_type s \<noteq> ''resolved'' \<and> ac_IsActive ac)"

definition batchSize :: nat where "batchSize = 100"

definition recovery_batch :: "uuid \<Rightarrow> alert_db \<Rightarrow> uuid list" where
  "recovery_batch cursor d =
     take batchSize (sort (map al_id (filter (\<lambda>al. recovery_pending d al \<and> al_id al > cursor) (alerts d))))"

text \<open>
  One sweep from the cursor. \<open>budget\<close> is the number of alerts it gets to before its deadline; an
  interrupted sweep keeps its cursor, a completed one that was not full starts over.
\<close>

definition dispatchPendingRecoveries :: "provider \<Rightarrow> nat \<Rightarrow> time \<Rightarrow> uuid \<times> alert_db \<Rightarrow> uuid \<times> alert_db" where
  "dispatchPendingRecoveries provider budget now s =
     (let (cursor, d) = s; batch = recovery_batch cursor d; done_now = take budget batch;
          d' = fold (\<lambda>aid. notifyFiredChannels provider ''resolved'' aid now) done_now d;
          cursor' = (if done_now = [] then cursor else last done_now) in
      if budget < length batch then (cursor', d')
      else if length batch < batchSize then (0, d')
      else (cursor', d'))"

section \<open>Operators\<close>

definition AcknowledgeAlert :: "uuid \<Rightarrow> uuid \<Rightarrow> time \<Rightarrow> alert_db \<Rightarrow> alert_db option" where
  "AcknowledgeAlert tid aid now d =
     (if list_ex (\<lambda>a. al_id a = aid \<and> al_tenant_id a = tid \<and> al_status a = Active) (alerts d)
      then Some (d\<lparr>alerts := sql_update (\<lambda>a. al_id a = aid \<and> al_tenant_id a = tid \<and> al_status a = Active)
             (\<lambda>a. a\<lparr>al_status := Acknowledged, al_acknowledged_at := Some now, al_updated_at := now\<rparr>) (alerts d)\<rparr>)
      else None)"

section \<open>The tick\<close>

text \<open>
  \<open>others\<close> stands for the evaluators of the other kinds of alert (latency anomalies, host metrics,
  certificate expiry, mesh edges), which open and resolve alerts of their own kinds. The deferred
  recovery sweep runs last.
\<close>

definition runLifecycle ::
  "provider \<Rightarrow> (alert_db \<Rightarrow> alert_db) \<Rightarrow> string list \<Rightarrow> (uuid \<Rightarrow> uuid) \<Rightarrow> (uuid \<Rightarrow> uuid) \<Rightarrow> nat \<Rightarrow> time \<Rightarrow> time \<Rightarrow>
   uuid \<times> alert_db \<Rightarrow> uuid \<times> alert_db" where
  "runLifecycle provider others ackTypes new_id new_incident budget db_now now s =
     (let (cursor, d0) = s;
          d1 = refreshGroupStates db_now d0;
          d2 = openAlertsForDownMonitors new_id new_incident db_now d1;
          d3 = resolveAlertsForRecoveredMonitors provider now d2;
          d4 = others d3;
          d5 = annotateOpenAlertRootCauses db_now d4;
          d6 = dispatchOpenAlerts provider db_now now d5;
          d7 = dispatchAcknowledgements provider ackTypes now d6 in
      dispatchPendingRecoveries provider budget now (cursor, d7))"

end
