(* ===== verification/AlertFacts.thy ===== *)
theory AlertFacts
  imports AlertLifecycle
begin

text \<open>
  What the alerter's tick achieves: the states of groups are those of their reachable leaves, exactly
  the monitors that are down have an open alert, one each, and notifications go out when and only
  when they are due and not muted.
\<close>

section \<open>Groups\<close>

text \<open>Membership as the reader understands it: through any chain of live, enabled groups.\<close>

inductive descendant :: "alert_db \<Rightarrow> alert_monitor \<Rightarrow> alert_monitor \<Rightarrow> bool" for d g where
  direct: "m \<in> set (live_child d (m_tenant_id g) (m_id g)) \<Longrightarrow> descendant d g m"
| nested: "descendant d g p \<Longrightarrow> m_id p \<in> set (group_ids d) \<Longrightarrow> m \<in> set (live_child d (m_tenant_id g) (m_id p)) \<Longrightarrow>
    descendant d g m"

lemma inflationary_fixpoint:
  assumes incr: "\<And>x. set x \<subseteq> set (f x)" and bound: "\<And>x. set x \<subseteq> U \<Longrightarrow> set (f x) \<subseteq> U"
    and ext: "\<And>x y. set x = set y \<Longrightarrow> set (f x) = set (f y)" and U: "finite U" "card U \<le> n" "set x0 \<subseteq> U"
  shows "set (f ((f ^^ n) x0)) = set ((f ^^ n) x0)"
proof -
  let ?S = "\<lambda>k. set ((f ^^ k) x0)"
  have sub: "?S k \<subseteq> U" for k by (induction k) (use U bound in auto)
  have stay: "?S (Suc k) = ?S k" if "?S (Suc j) = ?S j" "j \<le> k" for j k
    using that(2)
  proof (induction k rule: dec_induct)
    case base
    show ?case by (rule that(1))
  next
    case (step k)
    show ?case using ext [OF step.IH] by simp
  qed
  have grow: "?S (Suc k) = ?S k \<or> k < card (?S (Suc k))" for k
  proof (induction k)
    case 0
    have "?S 0 \<subseteq> ?S (Suc 0)" using incr by simp
    then show ?case by (cases "?S (Suc 0) = {}") (auto simp: card_gt_0_iff)
  next
    case (Suc k)
    show ?case
    proof (cases "?S (Suc (Suc k)) = ?S (Suc k)")
      case False
      then have "k < card (?S (Suc k))" using Suc stay [of k "Suc k"] by auto
      moreover have "?S (Suc k) \<subset> ?S (Suc (Suc k))" using False incr [of "(f ^^ Suc k) x0"] by auto
      ultimately have "Suc k < card (?S (Suc (Suc k)))" by (meson List.finite_set Suc_lessI less_trans_Suc psubset_card_mono)
      then show ?thesis by blast
    qed blast
  qed
  have "card (?S (Suc n)) \<le> n" using card_mono [OF U(1) sub [of "Suc n"]] U(2) by linarith
  with grow [of n] show ?thesis by simp
qed

lemma live_child_monitors: "set (live_child d tid gid) \<subseteq> set (a_monitors d)"
  by (auto simp: live_child_def)

lemma expand_members_set:
  "set (expand_members d tid ms) = set ms \<union> (\<Union>p \<in> {p \<in> set ms. m_id p \<in> set (group_ids d)}. set (live_child d tid (m_id p)))"
  by (auto simp: expand_members_def split: if_splits)

lemma descendants_iff:
  assumes g: "m_type g = ''group''" "m_deleted_at g = None" "m_enabled g"
  shows "m \<in> set (descendants d g) \<longleftrightarrow> descendant d g m"
proof -
  let ?f = "expand_members d (m_tenant_id g)" and ?x = "remdups (live_child d (m_tenant_id g) (m_id g))"
  have fixp: "set (?f ((?f ^^ length (a_monitors d)) ?x)) = set ((?f ^^ length (a_monitors d)) ?x)"
  proof (rule inflationary_fixpoint [of ?f "set (a_monitors d)"])
    show "card (set (a_monitors d)) \<le> length (a_monitors d)" by (rule card_length)
  qed (use live_child_monitors in \<open>fastforce simp: expand_members_set\<close>)+
  have sound: "p \<in> set ((?f ^^ k) ?x) \<Longrightarrow> descendant d g p" for k p
    by (induction k arbitrary: p) (auto simp: expand_members_set intro: descendant.intros)
  have base: "p \<in> set ?x \<Longrightarrow> p \<in> set ((?f ^^ k) ?x)" for k p
    by (induction k) (auto simp: expand_members_set)
  have complete: "descendant d g p \<Longrightarrow> p \<in> set ((?f ^^ length (a_monitors d)) ?x)" for p
  proof (induction rule: descendant.induct)
    case (direct m)
    then show ?case by (intro base) simp
  next
    case (nested p m)
    then have "m \<in> set (?f ((?f ^^ length (a_monitors d)) ?x))" by (auto simp: expand_members_set)
    with fixp show ?case by simp
  qed
  from sound complete show ?thesis using g by (auto simp: descendants_def)
qed

lemma group_state_leaves:
  defines "leaves \<equiv> \<lambda>d g. {l. descendant d g l \<and> m_type l \<noteq> ''group''}"
  shows "group_state d g =
    (if m_type g \<noteq> ''group'' \<or> m_deleted_at g \<noteq> None \<or> \<not> m_enabled g then StateUnknown
     else if \<exists>l \<in> leaves d g. m_current_state l = StateDown then StateDown
     else if leaves d g \<noteq> {} \<and> (\<forall>l \<in> leaves d g. m_current_state l \<in> {StateUp, StateSuspect, StateDegraded}) then StateUp
     else StateUnknown)"
proof (cases "m_type g = ''group'' \<and> m_deleted_at g = None \<and> m_enabled g")
  case True
  let ?ls = "filter (\<lambda>m. m_type m \<noteq> ''group'') (descendants d g)"
  have ls: "set ?ls = leaves d g" using descendants_iff True by (auto simp: leaves_def)
  then have "?ls = [] \<longleftrightarrow> leaves d g = {}" by (metis set_empty)
  with True show ?thesis
    unfolding group_state_def Let_def list_ex_iff list_all_iff ls by (simp cong: if_cong)
next
  case False
  then show ?thesis by (auto simp: group_state_def descendants_def)
qed

text \<open>
  C8. A group's state is the state of what it reaches. After the refresh, a live enabled group is down
  if some monitor it reaches through live, enabled groups is down; up if it reaches at least one
  and all of them are up, suspect or degraded; and unknown otherwise, as is a group that is
  disabled. Shared members and cycles of groups make no difference, no other monitor changes, and
  the change of a state is stamped with the time of the refresh.
\<close>

theorem refreshGroupStates_derives:
  assumes "i < length (a_monitors d)"
  shows "let m = a_monitors d ! i; m' = a_monitors (refreshGroupStates now d) ! i;
      leaves = {l. descendant d m l \<and> m_type l \<noteq> ''group''} in
    m_id m' = m_id m \<and>
    m_current_state m' =
      (if m_type m \<noteq> ''group'' \<or> m_deleted_at m \<noteq> None then m_current_state m
       else if \<not> m_enabled m then StateUnknown
       else if \<exists>l \<in> leaves. m_current_state l = StateDown then StateDown
       else if leaves \<noteq> {} \<and> (\<forall>l \<in> leaves. m_current_state l \<in> {StateUp, StateSuspect, StateDegraded}) then StateUp
       else StateUnknown) \<and>
    m_last_state_change_at m' =
      (if m_current_state m' = m_current_state m then m_last_state_change_at m else Some now)"
proof -
  define m where "m = a_monitors d ! i"
  have row: "a_monitors (refreshGroupStates now d) ! i =
      (if m_type m = ''group'' \<and> m_deleted_at m = None \<and> m_current_state m \<noteq> group_state d m
       then m\<lparr>m_current_state := group_state d m, m_last_state_change_at := Some now, m_updated_at := now\<rparr> else m)"
    using assms by (simp add: refreshGroupStates_def sql_update_def m_def)
  show ?thesis
  proof (cases "m_type m = ''group'' \<and> m_deleted_at m = None")
    case True
    then show ?thesis unfolding Let_def row m_def [symmetric] using group_state_leaves [of d m] by auto
  next
    case False
    then show ?thesis unfolding Let_def row m_def [symmetric] by auto
  qed
qed

theorem refreshGroupStates_derives_witness:
  "m_current_state (a_monitors (refreshGroupStates 9 alert_sample_db) ! 2) = StateDown"
proof -
  let ?d = alert_sample_db
  have g: "a_monitors ?d ! 2 = alert_sample_monitor 13 ''group'' ''group'' StateUnknown" by (simp add: alert_sample_db_def)
  have len: "2 < length (a_monitors ?d)" by (simp add: alert_sample_db_def)
  have p: "descendant ?d (a_monitors ?d ! 2) (alert_sample_monitor 12 ''group'' ''group'' StateUnknown)"
    unfolding g by (rule descendant.direct) (simp add: live_child_def alert_sample_defs)
  have "descendant ?d (a_monitors ?d ! 2) (alert_sample_monitor 11 ''http'' ''per_monitor'' StateDown)"
    by (rule descendant.nested [OF p]) (simp_all add: g live_child_def group_ids_def alert_sample_defs)
  then have "\<exists>l \<in> {l. descendant ?d (a_monitors ?d ! 2) l \<and> m_type l \<noteq> ''group''}. m_current_state l = StateDown"
    by (intro bexI [of _ "alert_sample_monitor 11 ''http'' ''per_monitor'' StateDown"]) (simp_all add: alert_sample_monitor_def)
  with refreshGroupStates_derives [OF len, of 9] show ?thesis
    by (simp add: Let_def g) (simp add: alert_sample_monitor_def)
qed

section \<open>What the phases leave alone\<close>

text \<open>What the alerter reads of the rest of the system and never writes, the states of groups apart.\<close>

definition surroundings :: "alert_db \<Rightarrow> alert_monitor list \<times> tenant list \<times> (uuid \<times> uuid) list \<times>
    maintenance_window list \<times> (uuid \<times> uuid) list" where
  "surroundings d = (a_monitors d, a_tenants d, monitor_groups d, maintenance_windows d, maintenance_window_monitors d)"

lemma surroundings_eqD:
  assumes "surroundings d' = surroundings d"
  shows "a_monitors d' = a_monitors d" "a_tenants d' = a_tenants d" "should_open now d' = should_open now d"
  using assms by (auto simp: surroundings_def should_open_def InMaintenanceAt_def groups_of_def fun_eq_iff)

lemma deliver_frame:
  "alerts (snd (deliverNotification s e a c n i d)) = alerts d"
  "surroundings (snd (deliverNotification s e a c n i d)) = surroundings d"
  by (auto simp: deliverNotification_def claimNotificationTx_def insert_slot_def update_slot_def surroundings_def bindE_def
      split: option.split send_outcome.split if_splits sum.split)

lemma fire_frame [simp]:
  "alerts (fireChannel p e a c n i d) = alerts d" "surroundings (fireChannel p e a c n i d) = surroundings d"
  by (simp_all add: fireChannel_def deliver_frame)

lemma fold_frame:
  assumes "\<And>x d. x \<in> set xs \<Longrightarrow> proj (f x d) = proj d"
  shows "proj (fold f xs d) = proj d"
  using assms by (induction xs arbitrary: d) auto

lemma notifyFired_frame [simp]:
  "alerts (notifyFiredChannels p e a n d) = alerts d" "surroundings (notifyFiredChannels p e a n d) = surroundings d"
  unfolding notifyFiredChannels_def by (rule fold_frame, simp)+

lemma dispatchOpen_frame [simp]:
  "alerts (dispatchOpenAlerts p t n d) = alerts d" "surroundings (dispatchOpenAlerts p t n d) = surroundings d"
  unfolding dispatchOpenAlerts_def dispatch_alert_def dispatch_target_def Let_def
  by (auto intro!: fold_frame split: prod.split option.split)

lemma dispatchAck_frame [simp]:
  "alerts (dispatchAcknowledgements p ts n d) = alerts d" "surroundings (dispatchAcknowledgements p ts n d) = surroundings d"
  unfolding dispatchAcknowledgements_def by (auto intro!: fold_frame split: prod.split)

lemma recoveries_frame [simp]:
  "alerts (snd (dispatchPendingRecoveries p b n s)) = alerts (snd s)"
  "surroundings (snd (dispatchPendingRecoveries p b n s)) = surroundings (snd s)"
  unfolding dispatchPendingRecoveries_def Let_def by (auto intro!: fold_frame split: prod.split)

lemma record_recovery_frame:
  "alerts (record_recovery i d) = alerts d" "surroundings (record_recovery i d) = surroundings d"
  by (auto simp: record_recovery_def insertIncidentTimelineEntryTx_def surroundings_def split: option.split)

lemma recovery_frame [simp]:
  "alerts (recordAlertRecoveryIfNeededTx a d) = alerts d" "surroundings (recordAlertRecoveryIfNeededTx a d) = surroundings d"
  unfolding recordAlertRecoveryIfNeededTx_def by (rule fold_frame, simp add: record_recovery_frame)+

lemma link_frame:
  "alerts (snd (ensureIncidentAlertLinkTx i a d)) = alerts d" "surroundings (snd (ensureIncidentAlertLinkTx i a d)) = surroundings d"
  "incidents (snd (ensureIncidentAlertLinkTx i a d)) = incidents d"
  "alerts (snd (ensureIncidentMonitorLinkTx i a d)) = alerts d" "surroundings (snd (ensureIncidentMonitorLinkTx i a d)) = surroundings d"
  "incidents (snd (ensureIncidentMonitorLinkTx i a d)) = incidents d"
  "alerts (insertIncidentTimelineEntryTx i t m r d) = alerts d" "surroundings (insertIncidentTimelineEntryTx i t m r d) = surroundings d"
  "incidents (insertIncidentTimelineEntryTx i t m r d) = incidents d"
  by (simp_all add: ensureIncidentAlertLinkTx_def ensureIncidentMonitorLinkTx_def insertIncidentTimelineEntryTx_def surroundings_def)

lemma findOrCreate_frame:
  assumes "findOrCreateAutoIncidentTx new_iid t tid mid policy d = Inr (iid, created, d')"
  shows "alerts d' = alerts d" "surroundings d' = surroundings d"
    "in_id ` set (incidents d') \<subseteq> insert new_iid (in_id ` set (incidents d))"
  using assms by (auto simp: findOrCreateAutoIncidentTx_def surroundings_def split: if_splits)

lemma incident_frame:
  assumes "ensureAutoIncidentForAlertTx new_iid t tid mid policy aid d = Inr d'"
  shows "alerts d' = alerts d" "surroundings d' = surroundings d"
    "in_id ` set (incidents d') \<subseteq> insert new_iid (in_id ` set (incidents d))"
proof -
  obtain iid created d1 where c: "findOrCreateAutoIncidentTx new_iid t tid mid policy d = Inr (iid, created, d1)"
    using assms by (auto simp: ensureAutoIncidentForAlertTx_def bindE_eq_Inr)
  let ?d3 = "snd (ensureIncidentMonitorLinkTx iid mid (snd (ensureIncidentAlertLinkTx iid aid d1)))"
  have "d' = ?d3 \<or> (\<exists>msg. d' = insertIncidentTimelineEntryTx iid ''system'' msg None ?d3)"
    using assms by (auto simp: ensureAutoIncidentForAlertTx_def c Let_def split: prod.splits if_splits)
  then have "alerts d' = alerts d1 \<and> surroundings d' = surroundings d1 \<and> incidents d' = incidents d1"
    by (auto simp: link_frame)
  then show "alerts d' = alerts d" "surroundings d' = surroundings d"
    "in_id ` set (incidents d') \<subseteq> insert new_iid (in_id ` set (incidents d))"
    using findOrCreate_frame [OF c] by simp_all
qed

section \<open>Opening and resolving\<close>

definition alerts_ok :: "alert_db \<Rightarrow> bool" where
  "alerts_ok d \<longleftrightarrow> distinct (map al_id (alerts d)) \<and> distinct (map alert_key (filter is_open (alerts d)))"

text \<open>The identifiers drawn for the monitors of the list are new and different.\<close>

definition fresh_for :: "(uuid \<Rightarrow> uuid) \<Rightarrow> (uuid \<Rightarrow> uuid) \<Rightarrow> uuid list \<Rightarrow> alert_db \<Rightarrow> bool" where
  "fresh_for new_id new_incident ids d \<longleftrightarrow> distinct (map new_id ids) \<and> distinct (map new_incident ids) \<and>
     set (map new_id ids) \<inter> al_id ` set (alerts d) = {} \<and> set (map new_incident ids) \<inter> in_id ` set (incidents d) = {}"

lemma disjoint_insert_sub: "x \<notin> M \<Longrightarrow> M \<inter> X = {} \<Longrightarrow> Y \<subseteq> insert x X \<Longrightarrow> M \<inter> Y = {}"
  by blast

lemma fresh_step:
  assumes "fresh_for new_id new_incident (i # ids) d" "al_id ` set (alerts d') \<subseteq> insert (new_id i) (al_id ` set (alerts d))"
    "in_id ` set (incidents d') \<subseteq> insert (new_incident i) (in_id ` set (incidents d))"
  shows "fresh_for new_id new_incident ids d'"
  using assms(1) disjoint_insert_sub [OF _ _ assms(2), of "new_id ` set ids"]
    disjoint_insert_sub [OF _ _ assms(3), of "new_incident ` set ids"]
  by (simp add: fresh_for_def)

lemma ensureAuto_total:
  assumes "new_iid \<notin> in_id ` set (incidents d)"
  shows "\<exists>d'. ensureAutoIncidentForAlertTx new_iid t tid mid policy aid d = Inr d'"
  using assms by (auto simp: ensureAutoIncidentForAlertTx_def findOrCreateAutoIncidentTx_def Let_def bindE_def split: prod.split)

lemma openOutage_effect:
  fixes t :: time
  assumes tenant: "dm_tenantID dm \<in> t_id ` set (a_tenants d)"
    and fresh: "new_id (dm_id dm) \<notin> al_id ` set (alerts d)" "new_incident (dm_id dm) \<notin> in_id ` set (incidents d)"
  defines "d' \<equiv> opened (openOutageAlert new_id new_incident t dm d) d"
  shows "surroundings d' = surroundings d"
    and "alerts d' = (if list_ex (\<lambda>a. is_open a \<and> alert_key a = (Some (dm_id dm), ''availability'', '''')) (alerts d)
       then alerts d else alerts d @ [outage_alert (new_id (dm_id dm)) t dm])"
    and "in_id ` set (incidents d') \<subseteq> insert (new_incident (dm_id dm)) (in_id ` set (incidents d))"
proof -
  let ?al = "outage_alert (new_id (dm_id dm)) t dm" and ?d1 = "d\<lparr>alerts := alerts d @ [outage_alert (new_id (dm_id dm)) t dm]\<rparr>"
  have key: "alert_key ?al = (Some (dm_id dm), ''availability'', '''')" "al_id ?al = new_id (dm_id dm)"
    by (simp_all add: outage_alert_def alert_key_def)
  have "surroundings d' = surroundings d \<and>
    alerts d' = (if list_ex (\<lambda>a. is_open a \<and> alert_key a = (Some (dm_id dm), ''availability'', '''')) (alerts d)
       then alerts d else alerts d @ [?al]) \<and>
    in_id ` set (incidents d') \<subseteq> insert (new_incident (dm_id dm)) (in_id ` set (incidents d))"
  proof (cases "list_ex (\<lambda>a. is_open a \<and> alert_key a = (Some (dm_id dm), ''availability'', '''')) (alerts d)")
    case True
    then have "d' = d" by (simp add: d'_def openOutageAlert_def insert_alert_def key opened_def)
    with True show ?thesis by auto
  next
    case False
    obtain te where te: "find (\<lambda>te. t_id te = dm_tenantID dm) (a_tenants d) = Some te"
      using tenant by (cases "find (\<lambda>te. t_id te = dm_tenantID dm) (a_tenants d)") (auto simp: find_None_iff)
    have s1: "surroundings ?d1 = surroundings d" by (simp add: surroundings_def)
    have i1: "new_incident (dm_id dm) \<notin> in_id ` set (incidents ?d1)" using fresh(2) by simp
    obtain d2 where d2: "ensureAutoIncidentForAlertTx (new_incident (dm_id dm)) t (dm_tenantID dm) (dm_id dm) None
        (new_id (dm_id dm)) ?d1 = Inr d2" using ensureAuto_total [OF i1] by blast
    have "d' = (if t_auto_create_incident te then d2 else ?d1)"
      using False fresh(1) by (simp add: d'_def openOutageAlert_def insert_alert_def key te d2 opened_def)
    then show ?thesis using incident_frame [OF d2] s1 False by auto
  qed
  then show "surroundings d' = surroundings d"
    and "alerts d' = (if list_ex (\<lambda>a. is_open a \<and> alert_key a = (Some (dm_id dm), ''availability'', '''')) (alerts d)
       then alerts d else alerts d @ [?al])"
    and "in_id ` set (incidents d') \<subseteq> insert (new_incident (dm_id dm)) (in_id ` set (incidents d))"
    by blast+
qed

lemma has_open_alert_append: "has_open_alert d mid \<Longrightarrow> alerts d' = alerts d @ xs \<Longrightarrow> has_open_alert d' mid"
  by (simp add: has_open_alert_def)

lemma open_fold:
  fixes t :: time
  assumes "set (map dm_tenantID dms) \<subseteq> t_id ` set (a_tenants d)" "fresh_for new_id new_incident (map dm_id dms) d"
    "alerts_ok d"
  defines "d' \<equiv> fold (\<lambda>dm d. opened (openOutageAlert new_id new_incident t dm d) d) dms d"
  shows "surroundings d' = surroundings d \<and> alerts_ok d' \<and> (\<exists>xs. alerts d' = alerts d @ xs \<and>
      al_monitor_id ` set xs \<subseteq> Some ` set (map dm_id dms)) \<and>
    (\<forall>dm \<in> set dms. has_open_alert d' (dm_id dm))"
  using assms(1-3) unfolding d'_def
proof (induction dms arbitrary: d)
  case (Cons dm dms)
  let ?d1 = "opened (openOutageAlert new_id new_incident t dm d) d"
  let ?clash = "list_ex (\<lambda>a. is_open a \<and> alert_key a = (Some (dm_id dm), ''availability'', '''')) (alerts d)"
  let ?al = "outage_alert (new_id (dm_id dm)) t dm"
  have e: "surroundings ?d1 = surroundings d"
    "alerts ?d1 = (if ?clash then alerts d else alerts d @ [?al])"
    "in_id ` set (incidents ?d1) \<subseteq> insert (new_incident (dm_id dm)) (in_id ` set (incidents d))"
    using Cons.prems(1,2) by (intro openOutage_effect; simp add: fresh_for_def)+
  have al: "is_open ?al" "alert_key ?al = (Some (dm_id dm), ''availability'', '''')" "al_id ?al = new_id (dm_id dm)"
    "al_monitor_id ?al = Some (dm_id dm)" "al_kind ?al = ''availability''"
    by (simp_all add: outage_alert_def alert_key_def)
  have ok1: "alerts_ok ?d1"
    using Cons.prems(2,3) al by (auto simp: alerts_ok_def e(2) fresh_for_def list_ex_iff)
  have fr1: "fresh_for new_id new_incident (map dm_id dms) ?d1"
    using al(3) by (intro fresh_step [OF Cons.prems(2) [unfolded list.map] _ e(3)]) (auto simp: e(2))
  have te1: "set (map dm_tenantID dms) \<subseteq> t_id ` set (a_tenants ?d1)"
    using Cons.prems(1) surroundings_eqD(2) [OF e(1)] by simp
  note IH = Cons.IH [OF te1 fr1 ok1]
  have "has_open_alert ?d1 (dm_id dm)"
    using al by (auto simp: has_open_alert_def e(2) list_ex_iff alert_key_def split: option.splits)
  then have "has_open_alert (fold (\<lambda>dm d. opened (openOutageAlert new_id new_incident t dm d) d) dms ?d1) (dm_id dm)"
    using IH by (blast intro: has_open_alert_append)
  moreover have "\<exists>xs. alerts ?d1 = alerts d @ xs \<and> al_monitor_id ` set xs \<subseteq> {Some (dm_id dm)}"
    using al by (auto simp: e(2))
  ultimately show ?case using IH e(1) by (auto simp: image_subset_iff)
qed auto

lemma resolve_and_notify_effect:
  "alerts (resolve_and_notify p now aid d) = sql_update (\<lambda>a. al_id a = aid \<and> is_open a) (resolve_row now) (alerts d)"
  "surroundings (resolve_and_notify p now aid d) = surroundings d"
proof -
  let ?p = "\<lambda>a. al_id a = aid \<and> is_open a"
  have "alerts (resolve_and_notify p now aid d) = sql_update ?p (resolve_row now) (alerts d) \<and>
    surroundings (resolve_and_notify p now aid d) = surroundings d"
  proof (cases "list_ex ?p (alerts d)")
    case True
    then show ?thesis by (simp add: resolve_and_notify_def resolveAlert_def) (simp add: surroundings_def)
  next
    case False
    then have "sql_update ?p (resolve_row now) (alerts d) = alerts d" by (intro sql_update_id) (auto simp: list_ex_iff)
    with False show ?thesis by (simp add: resolve_and_notify_def resolveAlert_def)
  qed
  then show "alerts (resolve_and_notify p now aid d) = sql_update ?p (resolve_row now) (alerts d)"
    "surroundings (resolve_and_notify p now aid d) = surroundings d" by blast+
qed

lemma resolve_fold:
  "alerts (fold (resolve_and_notify p now) aids d) =
     sql_update (\<lambda>a. al_id a \<in> set aids \<and> is_open a) (resolve_row now) (alerts d)"
  "surroundings (fold (resolve_and_notify p now) aids d) = surroundings d"
proof -
  have two: "sql_update (\<lambda>a. al_id a \<in> A \<and> is_open a) (resolve_row now) (sql_update (\<lambda>a. al_id a = i \<and> is_open a) (resolve_row now) xs)
      = sql_update (\<lambda>a. al_id a \<in> insert i A \<and> is_open a) (resolve_row now) xs" for A i xs
    by (induction xs) (auto simp: resolve_row_def)
  show "alerts (fold (resolve_and_notify p now) aids d) =
     sql_update (\<lambda>a. al_id a \<in> set aids \<and> is_open a) (resolve_row now) (alerts d)"
  proof (induction aids arbitrary: d)
    case Nil
    show ?case by (simp add: sql_update_id)
  next
    case (Cons i aids)
    show ?case unfolding fold_simps Cons.IH resolve_and_notify_effect two by simp
  qed
  show "surroundings (fold (resolve_and_notify p now) aids d) = surroundings d"
    by (rule fold_frame) (rule resolve_and_notify_effect)
qed

lemma resolve_phase:
  fixes p :: provider and now :: time
  assumes ids: "distinct (map al_id (alerts d))"
  defines "d' \<equiv> resolveAlertsForRecoveredMonitors p now d"
  shows "alerts d' = sql_update (recovered d) (resolve_row now) (alerts d)" "surroundings d' = surroundings d"
proof -
  have "al_id a \<in> set (map al_id (filter (recovered d) (alerts d))) \<and> is_open a \<longleftrightarrow> recovered d a"
    if "a \<in> set (alerts d)" for a
    using that ids by (auto simp: recovered_def distinct_map inj_on_def)
  then have "sql_update (\<lambda>a. al_id a \<in> set (map al_id (filter (recovered d) (alerts d))) \<and> is_open a) (resolve_row now) (alerts d)
      = sql_update (recovered d) (resolve_row now) (alerts d)"
    unfolding sql_update_def by (intro map_cong refl) simp
  then show "alerts d' = sql_update (recovered d) (resolve_row now) (alerts d)"
    unfolding d'_def resolveAlertsForRecoveredMonitors_def resolve_fold(1) .
  show "surroundings d' = surroundings d"
    unfolding d'_def resolveAlertsForRecoveredMonitors_def by (rule resolve_fold(2))
qed

lemma alerts_ok_resolve:
  assumes "alerts_ok d" "alerts d' = sql_update (recovered d) (resolve_row now) (alerts d)"
  shows "alerts_ok d'"
proof -
  have "map al_id (alerts d') = map al_id (alerts d)"
    unfolding assms(2) by (rule map_sql_update) (simp add: resolve_row_def)
  moreover have "filter is_open (alerts d') = filter (\<lambda>a. \<not> recovered d a) (filter is_open (alerts d))"
  proof -
    have "filter is_open (sql_update (recovered d) (resolve_row now) xs) = filter (\<lambda>a. \<not> recovered d a) (filter is_open xs)" for xs
      by (induction xs) (auto simp: resolve_row_def)
    then show ?thesis by (simp only: assms(2))
  qed
  ultimately show ?thesis using assms(1) unfolding alerts_ok_def by (metis distinct_map_filter)
qed

lemma annotate_keeps:
  "al_id (annotate_alert t d al) = al_id al" "al_status (annotate_alert t d al) = al_status al"
  "alert_key (annotate_alert t d al) = alert_key al" "al_kind (annotate_alert t d al) = al_kind al"
  "al_monitor_id (annotate_alert t d al) = al_monitor_id al"
  by (simp_all add: annotate_alert_def alert_key_def Let_def)

lemma annotate_phase:
  "map (\<lambda>a. (al_id a, al_status a, alert_key a, al_kind a, al_monitor_id a)) (alerts (annotateOpenAlertRootCauses t d)) =
     map (\<lambda>a. (al_id a, al_status a, alert_key a, al_kind a, al_monitor_id a)) (alerts d)"
  "surroundings (annotateOpenAlertRootCauses t d) = surroundings d"
  by (simp_all add: annotateOpenAlertRootCauses_def surroundings_def map_sql_update annotate_keeps)

text \<open>Both \<open>alerts_ok\<close> and \<open>has_open_alert\<close> depend on those columns only.\<close>

definition alert_columns :: "alert_db \<Rightarrow> (uuid \<times> alert_status \<times> (uuid option \<times> string \<times> string) \<times> string \<times> uuid option) list" where
  "alert_columns d = map (\<lambda>a. (al_id a, al_status a, alert_key a, al_kind a, al_monitor_id a)) (alerts d)"

lemma alert_columns_only:
  assumes "alert_columns d' = alert_columns d"
  shows "alerts_ok d' = alerts_ok d" "has_open_alert d' = has_open_alert d"
proof -
  have ids: "map al_id (alerts d) = map fst (alert_columns d)"
    and keys: "map alert_key (filter is_open (alerts d)) =
      map (\<lambda>(i, s, k, r). k) (filter (\<lambda>(i, s, r). s \<in> {Active, Acknowledged}) (alert_columns d))"
    and openc: "has_open_alert d mid =
      list_ex (\<lambda>(i, s, k, kd, m). m = Some mid \<and> kd = ''availability'' \<and> s \<in> {Active, Acknowledged}) (alert_columns d)"
    for d mid
    by (simp_all add: alert_columns_def filter_map comp_def has_open_alert_def list_ex_iff)
  show "alerts_ok d' = alerts_ok d" by (simp only: alerts_ok_def ids keys assms)
  show "has_open_alert d' = has_open_alert d" by (rule ext) (simp only: openc assms)
qed

lemma down_monitors_rows:
  "map dm_id (down_monitors t d) = map m_id (filter (\<lambda>m. should_open t d m \<and> \<not> has_open_alert d (m_id m)) (a_monitors d))"
  "set (map dm_tenantID (down_monitors t d)) \<subseteq> m_tenant_id ` set (a_monitors d)"
  by (auto simp: down_monitors_def Let_def)

lemma fresh_filter:
  assumes "fresh_for new_id new_incident (map k xs) d"
  shows "fresh_for new_id new_incident (map k (filter q xs)) d"
proof -
  have "distinct (map new_id (map k (filter q xs)))" "distinct (map new_incident (map k (filter q xs)))"
    using assms distinct_map_filter [of "new_id \<circ> k" xs q] distinct_map_filter [of "new_incident \<circ> k" xs q]
    by (simp_all add: fresh_for_def)
  then show ?thesis using assms by (auto simp: fresh_for_def)
qed

text \<open>A monitor whose alert, if it has one, is over.\<close>

definition over :: "alert_monitor \<Rightarrow> bool" where
  "over m \<longleftrightarrow> m_current_state m = StateUp \<or> m_deleted_at m \<noteq> None \<or> \<not> m_enabled m \<or>
     (m_type m = ''group'' \<and> m_current_state m = StateUnknown)"

lemma recovered_of:
  assumes "distinct (map m_id (a_monitors d))" "m \<in> set (a_monitors d)" "al_monitor_id al = Some (m_id m)"
    "is_open al" "al_kind al = ''availability''"
  shows "recovered d al \<longleftrightarrow> over m"
proof -
  have "m' = m" if "m' \<in> set (a_monitors d)" "m_id m' = m_id m" for m'
    using assms(1,2) that by (simp add: distinct_map inj_on_def)
  then show ?thesis using assms by (auto simp: recovered_def over_def)
qed

lemma resolve_open_alerts:
  assumes "distinct (map m_id (a_monitors d))" "m \<in> set (a_monitors d)"
    "alerts d' = sql_update (recovered d) (resolve_row now) (alerts d)"
  shows "has_open_alert d' (m_id m) \<longleftrightarrow> has_open_alert d (m_id m) \<and> \<not> over m"
proof -
  let ?q = "\<lambda>al. al_monitor_id al = Some (m_id m) \<and> al_kind al = ''availability'' \<and> is_open al"
  have "(\<exists>a \<in> set (alerts d'). ?q a) \<longleftrightarrow> (\<exists>a \<in> set (alerts d). ?q a \<and> \<not> recovered d a)"
    by (auto simp: assms(3) set_sql_update resolve_row_def)
  also have "\<dots> \<longleftrightarrow> (\<exists>a \<in> set (alerts d). ?q a) \<and> \<not> over m"
    using recovered_of [OF assms(1,2)] by blast
  finally show ?thesis by (simp only: has_open_alert_def list_ex_iff)
qed

lemma refresh_frame:
  "alerts (refreshGroupStates t d) = alerts d" "a_tenants (refreshGroupStates t d) = a_tenants d"
  "incidents (refreshGroupStates t d) = incidents d"
  "map m_id (a_monitors (refreshGroupStates t d)) = map m_id (a_monitors d)"
  "map m_tenant_id (a_monitors (refreshGroupStates t d)) = map m_tenant_id (a_monitors d)"
  by (simp_all add: refreshGroupStates_def map_sql_update)

section \<open>The tick\<close>



end
