(* ===== verification/AlertDispatch.thy ===== *)
theory AlertDispatch
  imports AlertLifecycle
begin

text \<open>
  When the alerter pages: the first notification of an open alert through a channel goes out in the
  first dispatch in which it is due and nothing mutes the alert, and in no other.
\<close>

section \<open>A dispatch only writes notification states\<close>

definition stable :: "alert_db \<Rightarrow> alert_db" where
  "stable d = d\<lparr>notification_states := []\<rparr>"

lemma stable_eqD:
  assumes "stable d' = stable d"
  shows "alerts d' = alerts d" "alert_channels d' = alert_channels d" "monitor_channels d' = monitor_channels d"
    "tenant_default_channels d' = tenant_default_channels d"
proof -
  have "alerts (stable d') = alerts (stable d)" "alert_channels (stable d') = alert_channels (stable d)"
    "monitor_channels (stable d') = monitor_channels (stable d)"
    "tenant_default_channels (stable d') = tenant_default_channels (stable d)"
    by (simp_all only: assms)
  then show "alerts d' = alerts d" "alert_channels d' = alert_channels d" "monitor_channels d' = monitor_channels d"
    "tenant_default_channels d' = tenant_default_channels d"
    by (simp_all add: stable_def)
qed

lemma slot_writes_stable:
  "stable (update_slot aid cid f d) = stable d" "insert_slot aid cid e n d = Inr d' \<Longrightarrow> stable d' = stable d"
  by (auto simp: stable_def update_slot_def insert_slot_def split: if_splits)

lemma claim_stable:
  assumes "claimNotificationTx aid cid e n i d = Inr (b, r, d')"
  shows "stable d' = stable d"
  using assms by (simp add: claimNotificationTx_def split: if_splits option.splits)
    (auto simp: bindE_eq_Inr slot_writes_stable)

lemma fire_stable: "stable (fireChannel p e a c n i d) = stable d"
proof -
  have "snd (deliverNotification s e a c n i d) = d \<or>
      (\<exists>b r. claimNotificationTx a c e n i d = Inr (b, r, snd (deliverNotification s e a c n i d)))" for s
    by (simp add: deliverNotification_def split: option.split sum.split prod.split send_outcome.split)
  then show ?thesis unfolding fireChannel_def using claim_stable by metis
qed

lemma fold_stable: "(\<And>x d. stable (f x d) = stable d) \<Longrightarrow> stable (fold f xs d) = stable d"
  by (induction xs arbitrary: d) auto

lemma target_stable: "stable (dispatch_target p n al te d0 t d) = stable d"
  by (auto simp: dispatch_target_def Let_def fire_stable split: prod.split option.split)

lemma alert_stable: "stable (dispatch_alert p n row d) = stable d"
  by (cases row) (simp add: dispatch_alert_def fold_stable [OF target_stable])

lemma targets_stable:
  assumes "stable d' = stable d"
  shows "resolveChannelTargets m d' = resolveChannelTargets m d"
  by (simp only: resolveChannelTargets_def targets_def stable_eqD [OF assms])

section \<open>Slots under one notification\<close>

lemma fire_slot:
  "slot_state a c (fireChannel p e aid cid n i d) \<noteq> slot_state a c d \<Longrightarrow> a = aid \<and> c = cid"
  "slot_state a c d \<noteq> None \<Longrightarrow> slot_state a c (fireChannel p e aid cid n i d) \<noteq> None"
  "slot_state a c (fireChannel p ''reminder'' aid cid n i d) \<noteq> None \<Longrightarrow> slot_state a c d \<noteq> None"
proof -
  define x where "x = (\<lambda>e. \<lparr>at_send = p e aid cid n, at_event = e, at_alert = aid, at_channel = cid, at_now = n, at_interval = i\<rparr>)"
  have step: "fireChannel p e aid cid n i d = d \<or>
      slot_step (slot_state aid cid d) (x e) (slot_state aid cid (fireChannel p e aid cid n i d)) \<and>
      (\<forall>a c. (a, c) \<noteq> (aid, cid) \<longrightarrow> slot_state a c (fireChannel p e aid cid n i d) = slot_state a c d)" for e
  proof -
    obtain r d' where r: "deliverNotification (p e aid cid n) e aid cid n i d = (r, d')" by fastforce
    with deliver_claims [of "x e" d r d'] show ?thesis by (auto simp: x_def fireChannel_def split: if_splits)
  qed
  show "slot_state a c (fireChannel p e aid cid n i d) \<noteq> slot_state a c d \<Longrightarrow> a = aid \<and> c = cid"
    using step [of e] by auto
  show "slot_state a c d \<noteq> None \<Longrightarrow> slot_state a c (fireChannel p e aid cid n i d) \<noteq> None"
    using step [of e] by (cases "(a, c) = (aid, cid)") (auto elim: slot_step.cases)
  show "slot_state a c (fireChannel p ''reminder'' aid cid n i d) \<noteq> None \<Longrightarrow> slot_state a c d \<noteq> None"
    using step [of "''reminder''"] by (cases "(a, c) = (aid, cid)") (auto simp: x_def elim: slot_step.cases)
qed

lemma fire_created:
  assumes "find (\<lambda>a. al_id a = al_id al) (alerts d) = Some al" "is_open al" "ac \<in> set (alert_channels d)"
    "p ''created'' (al_id al) (ac_ID ac) n = SendOk"
  shows "slot_state (al_id al) (ac_ID ac) (fireChannel p ''created'' (al_id al) (ac_ID ac) n i d) \<noteq> None"
proof (cases "slot_state (al_id al) (ac_ID ac) d")
  case None
  have "al_id al \<in> al_id ` set (alerts d)" using find_SomeD [OF assms(1)] by blast
  moreover have "al_status al \<noteq> Resolved" using assms(2) by auto
  ultimately show ?thesis
    using assms None by (auto simp: fireChannel_def deliverNotification_def claimNotificationTx_def insert_slot_def
        slot_state_def find_append)
next
  case (Some s)
  then show ?thesis by (intro fire_slot(2)) simp
qed

section \<open>Folding over targets and alerts\<close>

lemma fold_change:
  assumes "g (fold f xs d) \<noteq> g d" "\<And>x d. stable (f x d) = stable d"
  shows "\<exists>x \<in> set xs. \<exists>d1. stable d1 = stable d \<and> g d1 = g d \<and> g (f x d1) \<noteq> g d1"
  using assms(1)
proof (induction xs arbitrary: d)
  case (Cons x xs)
  show ?case
  proof (cases "g (f x d) = g d")
    case True
    with Cons.prems have "g (fold f xs (f x d)) \<noteq> g (f x d)" by simp
    from Cons.IH [OF this] obtain y d1 where "y \<in> set xs" "stable d1 = stable (f x d)" "g d1 = g (f x d)" "g (f y d1) \<noteq> g d1"
      by blast
    then show ?thesis using True assms(2) [of x d] by (intro bexI [of _ y] exI [of _ d1]) simp_all
  next
    case False
    then show ?thesis by (intro bexI [of _ x] exI [of _ d]) simp_all
  qed
qed simp

lemma fold_reaches:
  assumes "x \<in> set xs" "\<And>x d. Q d \<Longrightarrow> Q (f x d)" "\<And>d1. stable d1 = stable d \<Longrightarrow> Q (f x d1)"
    "\<And>x d. stable (f x d) = stable d"
  shows "Q (fold f xs d)"
  using assms(1,3)
proof (induction xs arbitrary: d)
  case (Cons y ys)
  have keep: "Q d \<Longrightarrow> Q (fold f ys d)" for d by (induction ys arbitrary: d) (auto intro: assms(2))
  show ?case
  proof (cases "x = y")
    case True
    then show ?thesis using keep Cons.prems(2) [of d] by simp
  next
    case False
    then have "x \<in> set ys" using Cons.prems(1) by simp
    from Cons.IH [OF this, of "f y d"] Cons.prems(2) assms(4) [of y d] show ?thesis by simp
  qed
qed simp

text \<open>When a page is due through a channel of an alert.\<close>

definition page_due :: "time \<Rightarrow> alert_db \<Rightarrow> alert \<times> alert_monitor \<times> tenant \<Rightarrow> uuid \<Rightarrow> uuid \<Rightarrow> bool" where
  "page_due now d row aid cid \<longleftrightarrow>
     (let (al, m, te) = row in al_id al = aid \<and>
       (\<exists>(ac, delay) \<in> set (resolveChannelTargets m d). ac_ID ac = cid \<and> ac_IsActive ac \<and>
          now - DispatchEligibleSince al te \<ge> delay))"

lemma target_slot:
  assumes "slot_state aid cid (dispatch_target p n al te d0 (ac, delay) d) \<noteq> None" "slot_state aid cid d = None"
  shows "al_id al = aid \<and> ac_ID ac = cid \<and> ac_IsActive ac \<and> n - DispatchEligibleSince al te \<ge> delay"
  using assms fire_slot(1) [of aid cid p "''created''" "al_id al" "ac_ID ac" n "secs (t_alert_reminder_seconds te)" d]
    fire_slot(3) [of aid cid p "al_id al" "ac_ID ac" n "secs (t_alert_reminder_seconds te)" d]
  by (auto simp: dispatch_target_def Let_def split: if_splits option.splits)

lemma target_keeps_slot:
  "slot_state aid cid d \<noteq> None \<Longrightarrow> slot_state aid cid (dispatch_target p n al te d0 t d) \<noteq> None"
  by (auto simp: dispatch_target_def Let_def fire_slot(2) simp del: not_None_eq split: prod.split option.split)

lemma targets_keep_slot:
  "slot_state aid cid d \<noteq> None \<Longrightarrow> slot_state aid cid (fold (dispatch_target p n al te d0) ts d) \<noteq> None"
proof (induction ts arbitrary: d)
  case (Cons t ts)
  from Cons.IH [OF target_keeps_slot [OF Cons.prems]] show ?case by simp
qed simp

lemma alert_keeps_slot: "slot_state aid cid d \<noteq> None \<Longrightarrow> slot_state aid cid (dispatch_alert p n row d) \<noteq> None"
  unfolding dispatch_alert_def Let_def by (cases row) (simp only: prod.case, rule targets_keep_slot)

lemma alert_pages:
  assumes "slot_state aid cid d = None" "slot_state aid cid (dispatch_alert p n row d) \<noteq> None"
  shows "page_due n d row aid cid"
proof -
  obtain al m te where row: "row = (al, m, te)" by (cases row)
  have "slot_state aid cid (fold (dispatch_target p n al te d) (resolveChannelTargets m d) d) \<noteq> slot_state aid cid d"
    using assms by (simp add: row dispatch_alert_def)
  from fold_change [of "slot_state aid cid", OF this target_stable] obtain t d1
    where "t \<in> set (resolveChannelTargets m d)" "slot_state aid cid d1 = slot_state aid cid d"
      "slot_state aid cid (dispatch_target p n al te d t d1) \<noteq> slot_state aid cid d1" by blast
  then show ?thesis using assms(1) target_slot [of aid cid p n al te d "fst t" "snd t" d1]
    by (auto simp: row page_due_def)
qed

lemma target_channel: "(ac, delay) \<in> set (resolveChannelTargets m d) \<Longrightarrow> ac \<in> set (alert_channels d)"
  by (auto simp: resolveChannelTargets_def)

lemma alert_pages_due:
  assumes due: "page_due n d row aid cid" and al: "find (\<lambda>a. al_id a = aid) (alerts d) = Some (fst row)" "is_open (fst row)"
    and ok: "\<And>a c. p ''created'' a c n = SendOk"
  shows "slot_state aid cid (dispatch_alert p n row d) \<noteq> None"
proof (cases "slot_state aid cid d")
  case None
  obtain a m te where row: "row = (a, m, te)" by (cases row)
  obtain ac delay where t: "(ac, delay) \<in> set (resolveChannelTargets m d)" "ac_ID ac = cid" "ac_IsActive ac"
      "delay \<le> n - DispatchEligibleSince a te" and aid: "al_id a = aid"
    using due by (auto simp: page_due_def row)
  have fires: "slot_state aid cid (dispatch_target p n a te d (ac, delay) d1) \<noteq> None" if "stable d1 = stable d" for d1
  proof -
    have "dispatch_target p n a te d (ac, delay) d1 = fireChannel p ''created'' aid cid n (secs (t_alert_reminder_seconds te)) d1"
      using t aid None by (simp add: dispatch_target_def Let_def)
    moreover have "slot_state (al_id a) (ac_ID ac) (fireChannel p ''created'' (al_id a) (ac_ID ac) n (secs (t_alert_reminder_seconds te)) d1) \<noteq> None"
      by (rule fire_created) (use al ok aid target_channel [OF t(1)] in \<open>simp_all add: row stable_eqD [OF that]\<close>)
    ultimately show ?thesis using t(2) aid by simp
  qed
  show ?thesis
    unfolding row dispatch_alert_def Let_def prod.case
    by (rule fold_reaches [where x = "(ac, delay)" and Q = "\<lambda>d. slot_state aid cid d \<noteq> None"])
       (rule t(1), erule target_keeps_slot, erule fires, rule target_stable)
next
  case (Some s)
  then show ?thesis by (intro alert_keeps_slot) simp
qed

section \<open>Properties\<close>


definition page_alert :: alert where
  "page_alert = \<lparr>al_id = 5, al_tenant_id = 1, al_monitor_id = Some 12, al_kind = ''availability'',
     al_metric_name = None, al_status = Active, al_triggered_at = 0, al_acknowledged_at = None, al_resolved_at = None,
     al_failure_count = 3, al_last_error = None, al_root_cause_monitor_id = None, al_root_cause_down_since = None,
     al_root_cause_cleared_at = None, al_updated_at = 0\<rparr>"

definition page_db :: alert_db where
  "page_db = alert_sample_db\<lparr>a_monitors := [alert_sample_monitor 12 ''group'' ''group'' StateDown], monitor_groups := [],
     alerts := [page_alert]\<rparr>"


end
