(* ===== verification/Availability.thy ===== *)
theory Availability
  imports System AlertRouting
begin

text \<open>
  Availability reports (\<open>shared/analytics/timeline.go\<close>, S-U1 to S-U6): the state timeline integrated
  over buckets. The query computes with PostgreSQL multiranges; a multirange is the set of the
  instants in it, at the resolution of a timestamp, so that \<open>range_agg\<close>, \<open>-\<close> and \<open>*\<close> are union,
  difference and intersection and its length is the number of instants. A length is therefore in
  microseconds where the code has seconds; the percentages computed from lengths are floating point
  and not modelled.
\<close>

section \<open>Results\<close>

record TimeRange =
  tr_Start :: time
  tr_End :: time

text \<open>An inverted span has no length.\<close>

definition Seconds :: "TimeRange \<Rightarrow> int" where
  "Seconds r = (if tr_End r > tr_Start r then tr_End r - tr_Start r else 0)"

record StateSeconds =
  ss_Available :: int
  ss_UnplannedDown :: int
  ss_PlannedDown :: int
  ss_Paused :: int
  ss_Unknown :: int
  ss_Window :: int

definition Observed :: "StateSeconds \<Rightarrow> int" where
  "Observed s = ss_Available s + ss_UnplannedDown s + ss_PlannedDown s"

definition Eligible :: "StateSeconds \<Rightarrow> int" where
  "Eligible s = ss_Available s + ss_UnplannedDown s"

definition Untracked :: "StateSeconds \<Rightarrow> int" where
  "Untracked s = (let u = ss_Window s - Observed s - ss_Paused s - ss_Unknown s in if u < 0 then 0 else u)"

record SerialSeconds =
  sr_Available :: int
  sr_Down :: int
  sr_Excluded :: int
  sr_Window :: int

record TimelineResult =
  tl_Buckets :: "TimeRange list"
  tl_PerMonitor :: "(uuid \<times> StateSeconds list) list"
  tl_Serial :: "SerialSeconds list"
  tl_TimelineStart :: "uuid \<rightharpoonup> time"

definition dedupeUUIDs :: "uuid list \<Rightarrow> uuid list" where
  "dedupeUUIDs ids = rev (remdups (rev (filter (\<lambda>i. i \<noteq> 0) ids)))"

section \<open>Multiranges\<close>

datatype cls = Avail | Down | Paused | Unknown

definition class_of :: "bool \<Rightarrow> state_interval \<Rightarrow> cls" where
  "class_of degradedDown i =
     (if si_state i = StateDown \<or> si_state i = StateDegraded \<and> degradedDown then Down
      else if si_state i \<in> {StateUp, StateSuspect, StateDegraded} then Avail
      else if si_reason i = ''pause'' then Paused
      else Unknown)"

definition ended :: "time \<Rightarrow> state_interval \<Rightarrow> time" where
  "ended now i = (case si_ended_at i of None \<Rightarrow> now | Some e \<Rightarrow> e)"

definition clip :: "time \<Rightarrow> TimeRange \<Rightarrow> state_interval \<Rightarrow> int set" where
  "clip now b i = {max (si_started_at i) (tr_Start b)..<min (ended now i) (tr_End b)}"

definition win :: "TimeRange \<Rightarrow> int set" where
  "win b = {tr_Start b..<tr_End b}"

definition per_state :: "time \<Rightarrow> bool \<Rightarrow> uuid \<Rightarrow> db \<Rightarrow> TimeRange \<Rightarrow> uuid \<Rightarrow> cls \<Rightarrow> int set" where
  "per_state now degradedDown tid d b mid c =
     \<Union> (set (map (clip now b) (filter (\<lambda>i. si_tenant_id i = tid \<and> si_monitor_id i = mid \<and>
        class_of degradedDown i = c) (state_intervals d))))"

text \<open>The maintenance windows that reach the monitor, directly or through one of its groups.\<close>

definition maint :: "uuid \<Rightarrow> alert_db \<Rightarrow> TimeRange \<Rightarrow> uuid \<Rightarrow> int set" where
  "maint tid a b mid =
     \<Union> (set (map (\<lambda>mw. {max (mw_starts_at mw) (tr_Start b)..<min (mw_ends_at mw) (tr_End b)})
        (filter (\<lambda>mw. mw_tenant_id mw = tid \<and>
           (\<exists>(w, target) \<in> set (maintenance_window_monitors a). w = mw_id mw \<and>
              (target = mid \<or> target \<in> set (groups_of mid a)))) (maintenance_windows a))))"

definition unplanned :: "time \<Rightarrow> bool \<Rightarrow> uuid \<Rightarrow> db \<Rightarrow> alert_db \<Rightarrow> TimeRange \<Rightarrow> uuid \<Rightarrow> int set" where
  "unplanned now dd tid d a b mid = per_state now dd tid d b mid Down - maint tid a b mid"

definition planned :: "time \<Rightarrow> bool \<Rightarrow> uuid \<Rightarrow> db \<Rightarrow> alert_db \<Rightarrow> TimeRange \<Rightarrow> uuid \<Rightarrow> int set" where
  "planned now dd tid d a b mid = per_state now dd tid d b mid Down \<inter> maint tid a b mid"

definition secondsOf :: "int set \<Rightarrow> int" where
  "secondsOf x = int (card x)"

section \<open>The integration\<close>

definition split_row :: "time \<Rightarrow> bool \<Rightarrow> uuid \<Rightarrow> db \<Rightarrow> alert_db \<Rightarrow> TimeRange \<Rightarrow> uuid \<Rightarrow> StateSeconds" where
  "split_row now dd tid d a b mid =
     \<lparr>ss_Available = secondsOf (per_state now dd tid d b mid Avail),
      ss_UnplannedDown = secondsOf (unplanned now dd tid d a b mid),
      ss_PlannedDown = secondsOf (planned now dd tid d a b mid),
      ss_Paused = secondsOf (per_state now dd tid d b mid Paused),
      ss_Unknown = secondsOf (per_state now dd tid d b mid Unknown),
      ss_Window = Seconds b\<rparr>"

definition serial_down :: "time \<Rightarrow> bool \<Rightarrow> uuid \<Rightarrow> db \<Rightarrow> alert_db \<Rightarrow> TimeRange \<Rightarrow> uuid list \<Rightarrow> int set" where
  "serial_down now dd tid d a b mids = \<Union> (set (map (unplanned now dd tid d a b) mids))"

definition serial_excluded :: "time \<Rightarrow> bool \<Rightarrow> uuid \<Rightarrow> db \<Rightarrow> alert_db \<Rightarrow> TimeRange \<Rightarrow> uuid list \<Rightarrow> int set" where
  "serial_excluded now dd tid d a b mids =
     \<Union> (set (map (\<lambda>mid. win b - per_state now dd tid d b mid Avail - unplanned now dd tid d a b mid) mids))"

definition serial_row :: "time \<Rightarrow> bool \<Rightarrow> uuid \<Rightarrow> db \<Rightarrow> alert_db \<Rightarrow> TimeRange \<Rightarrow> uuid list \<Rightarrow> SerialSeconds" where
  "serial_row now dd tid d a b mids =
     (let down = serial_down now dd tid d a b mids; excluded = serial_excluded now dd tid d a b mids in
      \<lparr>sr_Available = secondsOf (win b - down - (excluded - down)), sr_Down = secondsOf down,
       sr_Excluded = secondsOf (excluded - down), sr_Window = Seconds b\<rparr>)"

text \<open>The earliest interval of each requested monitor that has one.\<close>

definition TimelineStart :: "uuid \<Rightarrow> uuid list \<Rightarrow> db \<Rightarrow> uuid \<rightharpoonup> time" where
  "TimelineStart tid mids d mid =
     (let starts = map si_started_at (filter (\<lambda>i. si_tenant_id i = tid \<and> si_monitor_id i = mid) (state_intervals d)) in
      if mid \<in> set mids \<and> starts \<noteq> [] then Some (Min (set starts)) else None)"

datatype report_error = EmptyBucket nat

definition IntegrateTimeline ::
  "time \<Rightarrow> uuid \<Rightarrow> uuid list \<Rightarrow> TimeRange list \<Rightarrow> bool \<Rightarrow> db \<Rightarrow> alert_db \<Rightarrow> report_error + TimelineResult" where
  "IntegrateTimeline now tid monitorIDs buckets dd d a =
     (let mids = dedupeUUIDs monitorIDs in
      if mids = [] \<or> buckets = [] then
        Inr \<lparr>tl_Buckets = buckets,
             tl_PerMonitor = map (\<lambda>mid. (mid, map (\<lambda>b. \<lparr>ss_Available = 0, ss_UnplannedDown = 0, ss_PlannedDown = 0,
               ss_Paused = 0, ss_Unknown = 0, ss_Window = Seconds b\<rparr>) buckets)) mids,
             tl_Serial = map (\<lambda>b. \<lparr>sr_Available = 0, sr_Down = 0, sr_Excluded = 0, sr_Window = Seconds b\<rparr>) buckets,
             tl_TimelineStart = Map.empty\<rparr>
      else (case find (\<lambda>(i, b). tr_End b \<le> tr_Start b) (enumerate 0 buckets) of
          Some (i, _) \<Rightarrow> Inl (EmptyBucket i)
        | None \<Rightarrow>
            Inr \<lparr>tl_Buckets = buckets,
                 tl_PerMonitor = map (\<lambda>mid. (mid, map (\<lambda>b. split_row now dd tid d a b mid) buckets)) mids,
                 tl_Serial = map (\<lambda>b. serial_row now dd tid d a b mids) buckets,
                 tl_TimelineStart = TimelineStart tid mids d\<rparr>))"

section \<open>Instants\<close>

definition timeline_of :: "uuid \<Rightarrow> uuid \<Rightarrow> db \<Rightarrow> state_interval list" where
  "timeline_of tid mid d = filter (\<lambda>i. si_tenant_id i = tid \<and> si_monitor_id i = mid) (state_intervals d)"

text \<open>At an instant of the bucket, the interval the database attributes it to.\<close>

definition at_instant :: "time \<Rightarrow> state_interval list \<Rightarrow> time \<Rightarrow> state_interval option" where
  "at_instant now ivs t = find (\<lambda>i. si_started_at i \<le> t \<and> t < ended now i) ivs"

lemma finite_parts [simp]:
  "finite (win b)" "finite (per_state now dd tid d b mid c)" "finite (maint tid a b mid)"
  "finite (unplanned now dd tid d a b mid)" "finite (planned now dd tid d a b mid)"
  by (auto simp: win_def per_state_def clip_def maint_def unplanned_def planned_def)

lemma per_state_win: "per_state now dd tid d b mid c \<subseteq> win b"
  by (auto simp: per_state_def clip_def win_def)

lemma secondsOf_win: "secondsOf (win b) = Seconds b"
  by (simp add: secondsOf_def win_def Seconds_def)

text \<open>In a well-formed timeline no two intervals share an instant.\<close>

lemma one_interval:
  assumes "timeline_ok ivs" "i \<in> set ivs" "j \<in> set ivs"
    "si_started_at i \<le> t" "t < ended now i" "si_started_at j \<le> t" "t < ended now j"
  shows "i = j"
proof -
  have cov: "covers k t" if "k \<in> set ivs" "si_started_at k \<le> t" "t < ended now k" for k
    using that by (auto simp: covers_def ended_def split: option.splits)
  have "length (filter (\<lambda>i. covers i t) ivs) \<le> 1" using timeline_covers [OF assms(1), of t] by simp
  moreover have "i \<in> set (filter (\<lambda>i. covers i t) ivs)" "j \<in> set (filter (\<lambda>i. covers i t) ivs)"
    using cov assms by simp_all
  ultimately show ?thesis by (cases "filter (\<lambda>i. covers i t) ivs") auto
qed

lemma per_state_instants:
  assumes "timeline_ok (timeline_of tid mid d)"
  shows "per_state now dd tid d b mid c =
    {t \<in> win b. \<exists>i. at_instant now (timeline_of tid mid d) t = Some i \<and> class_of dd i = c}"
proof -
  have "at_instant now (timeline_of tid mid d) t = Some i \<longleftrightarrow>
      i \<in> set (timeline_of tid mid d) \<and> si_started_at i \<le> t \<and> t < ended now i" for t i
  proof
    assume "at_instant now (timeline_of tid mid d) t = Some i"
    from find_SomeD [OF this [unfolded at_instant_def]]
    show "i \<in> set (timeline_of tid mid d) \<and> si_started_at i \<le> t \<and> t < ended now i" by blast
  next
    assume i: "i \<in> set (timeline_of tid mid d) \<and> si_started_at i \<le> t \<and> t < ended now i"
    then have "at_instant now (timeline_of tid mid d) t \<noteq> None"
      by (auto simp: at_instant_def find_None_iff)
    then obtain j where j: "at_instant now (timeline_of tid mid d) t = Some j" by blast
    from find_SomeD [OF this [unfolded at_instant_def]] i one_interval [OF assms]
    have "j = i" by blast
    with j show "at_instant now (timeline_of tid mid d) t = Some i" by simp
  qed
  then show ?thesis
    by (auto simp: per_state_def clip_def win_def timeline_of_def)
qed

section \<open>Properties\<close>

lemma secondsOf_disjoint: "finite A \<Longrightarrow> finite B \<Longrightarrow> A \<inter> B = {} \<Longrightarrow> secondsOf (A \<union> B) = secondsOf A + secondsOf B"
  by (simp add: secondsOf_def card_Un_disjoint)

lemma secondsOf_mono: "finite B \<Longrightarrow> A \<subseteq> B \<Longrightarrow> secondsOf A \<le> secondsOf B"
  by (simp add: secondsOf_def card_mono)

text \<open>The instants of the bucket by class, with the instants no interval covers.\<close>

definition class_instants :: "time \<Rightarrow> bool \<Rightarrow> state_interval list \<Rightarrow> TimeRange \<Rightarrow> cls option \<Rightarrow> int set" where
  "class_instants now dd ivs b c = {t \<in> win b. map_option (class_of dd) (at_instant now ivs t) = c}"

lemma finite_class_instants [simp]: "finite (class_instants now dd ivs b c)"
  by (simp add: class_instants_def)

lemma class_instants_partition:
  "secondsOf (class_instants now dd ivs b (Some Avail)) + secondsOf (class_instants now dd ivs b (Some Down)) +
   secondsOf (class_instants now dd ivs b (Some Paused)) + secondsOf (class_instants now dd ivs b (Some Unknown)) +
   secondsOf (class_instants now dd ivs b None) = Seconds b"
proof -
  let ?C = "class_instants now dd ivs b"
  have "win b = ?C (Some Avail) \<union> ?C (Some Down) \<union> ?C (Some Paused) \<union> ?C (Some Unknown) \<union> ?C None"
  proof -
    have "c = Some Avail \<or> c = Some Down \<or> c = Some Paused \<or> c = Some Unknown \<or> c = None" for c
      by (cases c) (simp, metis cls.exhaust)
    then show ?thesis unfolding class_instants_def by blast
  qed
  moreover have "?C c \<inter> ?C c' = {}" if "c \<noteq> c'" for c c' using that by (auto simp: class_instants_def)
  ultimately show ?thesis
    by (simp add: secondsOf_win [symmetric] secondsOf_disjoint Int_Un_distrib2)
qed

lemma availability_partitions_timeline:
  assumes "timeline_ok (timeline_of tid mid d)"
  shows "let s = split_row now dd tid d a b mid; C = class_instants now dd (timeline_of tid mid d) b in
    ss_Available s = secondsOf (C (Some Avail)) \<and>
    ss_UnplannedDown s + ss_PlannedDown s = secondsOf (C (Some Down)) \<and>
    ss_PlannedDown s = secondsOf (C (Some Down) \<inter> maint tid a b mid) \<and>
    ss_Paused s = secondsOf (C (Some Paused)) \<and> ss_Unknown s = secondsOf (C (Some Unknown)) \<and>
    Untracked s = secondsOf (C None) \<and>
    ss_Available s + ss_UnplannedDown s + ss_PlannedDown s + ss_Paused s + ss_Unknown s + Untracked s = ss_Window s"
proof -
  let ?C = "class_instants now dd (timeline_of tid mid d) b"
  have per: "per_state now dd tid d b mid c = ?C (Some c)" for c
    unfolding per_state_instants [OF assms] class_instants_def by auto
  have down: "secondsOf (?C (Some Down) - maint tid a b mid) + secondsOf (?C (Some Down) \<inter> maint tid a b mid) = secondsOf (?C (Some Down))"
    by (subst secondsOf_disjoint [symmetric]) (auto simp: Un_Diff_Int)
  have nn: "0 \<le> secondsOf (?C None)" by (simp add: secondsOf_def)
  show ?thesis
    using down nn class_instants_partition [of now dd "timeline_of tid mid d" b]
    unfolding Let_def split_row_def unplanned_def planned_def per Untracked_def Observed_def
    by simp
qed

text \<open>The instants of the bucket at which the monitor is in an interval with a property.\<close>

definition instants :: "time \<Rightarrow> state_interval list \<Rightarrow> TimeRange \<Rightarrow> (state_interval \<Rightarrow> bool) \<Rightarrow> int set" where
  "instants now ivs b p = {t \<in> win b. \<exists>i. at_instant now ivs t = Some i \<and> p i}"

lemma class_instants_by_state:
  "class_instants now dd ivs b (Some Avail) =
     instants now ivs b (\<lambda>i. si_state i \<in> {StateUp, StateSuspect} \<or> si_state i = StateDegraded \<and> \<not> dd)"
  "class_instants now dd ivs b (Some Down) =
     instants now ivs b (\<lambda>i. si_state i = StateDown \<or> si_state i = StateDegraded \<and> dd)"
  "class_instants now dd ivs b (Some Paused) =
     instants now ivs b (\<lambda>i. si_state i = StateUnknown \<and> si_reason i = ''pause'')"
  "class_instants now dd ivs b (Some Unknown) =
     instants now ivs b (\<lambda>i. si_state i = StateUnknown \<and> si_reason i \<noteq> ''pause'')"
  "class_instants now dd ivs b None = win b - instants now ivs b (\<lambda>_. True)"
proof -
  have "class_of dd i = Avail \<longleftrightarrow> si_state i \<in> {StateUp, StateSuspect} \<or> si_state i = StateDegraded \<and> \<not> dd"
    "class_of dd i = Down \<longleftrightarrow> si_state i = StateDown \<or> si_state i = StateDegraded \<and> dd"
    "class_of dd i = Paused \<longleftrightarrow> si_state i = StateUnknown \<and> si_reason i = ''pause''"
    "class_of dd i = Unknown \<longleftrightarrow> si_state i = StateUnknown \<and> si_reason i \<noteq> ''pause''" for i
    by (cases "si_state i"; simp add: class_of_def)+
  then show "class_instants now dd ivs b (Some Avail) =
      instants now ivs b (\<lambda>i. si_state i \<in> {StateUp, StateSuspect} \<or> si_state i = StateDegraded \<and> \<not> dd)"
    "class_instants now dd ivs b (Some Down) =
      instants now ivs b (\<lambda>i. si_state i = StateDown \<or> si_state i = StateDegraded \<and> dd)"
    "class_instants now dd ivs b (Some Paused) =
      instants now ivs b (\<lambda>i. si_state i = StateUnknown \<and> si_reason i = ''pause'')"
    "class_instants now dd ivs b (Some Unknown) =
      instants now ivs b (\<lambda>i. si_state i = StateUnknown \<and> si_reason i \<noteq> ''pause'')"
    unfolding class_instants_def instants_def by auto
  show "class_instants now dd ivs b None = win b - instants now ivs b (\<lambda>_. True)"
    unfolding class_instants_def instants_def by auto
qed

text \<open>
  C10. Every instant is counted once. In every database the system can reach, and for a monitor whose
  intervals are its tenant's, a report gives each instant of a bucket to exactly one class: time
  with the monitor up, suspect or degraded is available (degraded is down where the report says
  so), down time is planned inside the maintenance windows that reach the monitor and unplanned
  outside them, unknown time is paused if a pause opened it, and what no interval covers is
  untracked; so the classes add up to the window.
\<close>

theorem availability_partitions:
  assumes "\<forall>i \<in> set (monitor_timeline mid (run (empty_db ts) txs)). si_tenant_id i = tid"
  shows "let d = run (empty_db ts) txs; s = split_row now dd tid d a b mid;
      at = instants now (monitor_timeline mid d) b;
      down = at (\<lambda>i. si_state i = StateDown \<or> si_state i = StateDegraded \<and> dd) in
    ss_Available s = secondsOf (at (\<lambda>i. si_state i \<in> {StateUp, StateSuspect} \<or> si_state i = StateDegraded \<and> \<not> dd)) \<and>
    ss_UnplannedDown s + ss_PlannedDown s = secondsOf down \<and>
    ss_PlannedDown s = secondsOf (down \<inter> maint tid a b mid) \<and>
    ss_Paused s = secondsOf (at (\<lambda>i. si_state i = StateUnknown \<and> si_reason i = ''pause'')) \<and>
    ss_Unknown s = secondsOf (at (\<lambda>i. si_state i = StateUnknown \<and> si_reason i \<noteq> ''pause'')) \<and>
    Untracked s = secondsOf (win b - at (\<lambda>_. True)) \<and>
    ss_Available s + ss_UnplannedDown s + ss_PlannedDown s + ss_Paused s + ss_Unknown s + Untracked s = ss_Window s"
proof -
  let ?d = "run (empty_db ts) txs"
  have eq: "timeline_of tid mid ?d = monitor_timeline mid ?d"
    using assms unfolding timeline_of_def monitor_timeline_def by (intro filter_cong) auto
  have ok: "timeline_ok (monitor_timeline mid ?d)"
    by (rule store_okD(1)) (use run_ok in \<open>simp add: system_ok_def\<close>)
  from availability_partitions_timeline [of tid mid ?d now dd a b, unfolded eq, OF ok]
  show ?thesis unfolding Let_def class_instants_by_state by blast
qed

lemma split_rows_of:
  assumes "IntegrateTimeline now tid ids buckets dd d a = Inr r" "dedupeUUIDs ids \<noteq> []" "buckets \<noteq> []"
  shows "tl_PerMonitor r = map (\<lambda>mid. (mid, map (\<lambda>b. split_row now dd tid d a b mid) buckets)) (dedupeUUIDs ids)"
    "tl_Serial r = map (\<lambda>b. serial_row now dd tid d a b (dedupeUUIDs ids)) buckets"
  using assms by (auto simp: IntegrateTimeline_def Let_def split: option.splits)

lemma serial_row_bounds:
  assumes "mid \<in> set mids"
  shows "sr_Available (serial_row now dd tid d a b mids) \<le> ss_Available (split_row now dd tid d a b mid)"
    "ss_UnplannedDown (split_row now dd tid d a b mid) \<le> sr_Down (serial_row now dd tid d a b mids)"
proof -
  have "win b - serial_down now dd tid d a b mids - (serial_excluded now dd tid d a b mids - serial_down now dd tid d a b mids)
      \<subseteq> per_state now dd tid d b mid Avail"
    using assms by (auto simp: serial_down_def serial_excluded_def)
  then show "sr_Available (serial_row now dd tid d a b mids) \<le> ss_Available (split_row now dd tid d a b mid)"
    by (simp add: serial_row_def split_row_def Let_def secondsOf_mono)
  have "unplanned now dd tid d a b mid \<subseteq> serial_down now dd tid d a b mids" using assms by (auto simp: serial_down_def)
  moreover have "finite (serial_down now dd tid d a b mids)" by (simp add: serial_down_def)
  ultimately show "ss_UnplannedDown (split_row now dd tid d a b mid) \<le> sr_Down (serial_row now dd tid d a b mids)"
    by (simp add: serial_row_def split_row_def Let_def secondsOf_mono)
qed

lemma serial_row_sum:
  "sr_Available (serial_row now dd tid d a b mids) + sr_Down (serial_row now dd tid d a b mids) +
   sr_Excluded (serial_row now dd tid d a b mids) = sr_Window (serial_row now dd tid d a b mids)"
proof -
  let ?D = "serial_down now dd tid d a b mids" and ?E = "serial_excluded now dd tid d a b mids"
  have sub: "?D \<subseteq> win b" "?E \<subseteq> win b"
    using per_state_win by (fastforce simp: serial_down_def serial_excluded_def unplanned_def)+
  then have fin: "finite ?D" "finite ?E" using finite_parts(1) finite_subset by blast+
  have "win b = (win b - ?D - (?E - ?D)) \<union> (?D \<union> (?E - ?D))" using sub by blast
  also have "secondsOf \<dots> = secondsOf (win b - ?D - (?E - ?D)) + (secondsOf ?D + secondsOf (?E - ?D))"
    using fin by (subst secondsOf_disjoint, simp, simp, blast, subst secondsOf_disjoint [of ?D]) auto
  finally show ?thesis by (simp add: serial_row_def Let_def secondsOf_win)
qed

lemma card_union_le: "int (card (\<Union> (set (map f xs)))) \<le> sum_list (map (\<lambda>x. int (card (f x))) xs)"
proof (induction xs)
  case (Cons x xs)
  have "card (f x \<union> \<Union> (set (map f xs))) \<le> card (f x) + card (\<Union> (set (map f xs)))" by (rule card_Un_le)
  with Cons show ?case by simp
qed simp



section \<open>Witnesses\<close>

abbreviation sample_report_db :: db where
  "sample_report_db \<equiv> run (empty_db [1]) [CreateMonitor (\<lambda>_. True) 0 (sample_monitor 7 2 1), MarkUnknown 900 7]"

lemma sample_intervals:
  "state_intervals sample_report_db =
     [\<lparr>si_tenant_id = 1, si_monitor_id = 7, si_state = StateUnknown, si_reason = ''created'', si_started_at = 0, si_ended_at = None\<rparr>]"
  by (simp add: run_def empty_db_def Create_def new_monitor_row_def sample_monitor_def RecordIntervalTx_def
    insert_interval_def find_monitor_def IntervalReasons_def Let_def markMonitorUnknown_def eligible_def)

theorem availability_partitions_witness:
  "let s = split_row 1000 False 1 sample_report_db alert_sample_db \<lparr>tr_Start = 0, tr_End = 2000\<rparr> 7 in
     ss_Unknown s = 1000 \<and> Untracked s = 1000 \<and>
     ss_Available s + ss_UnplannedDown s + ss_PlannedDown s + ss_Paused s + ss_Unknown s + Untracked s = 2000"
proof -
  let ?b = "\<lparr>tr_Start = 0, tr_End = 2000\<rparr>" and ?d = sample_report_db
  have tl: "monitor_timeline 7 ?d =
     [\<lparr>si_tenant_id = 1, si_monitor_id = 7, si_state = StateUnknown, si_reason = ''created'', si_started_at = 0, si_ended_at = None\<rparr>]"
    unfolding monitor_timeline_def sample_intervals by simp
  have all: "\<forall>i \<in> set (monitor_timeline 7 ?d). si_tenant_id i = 1" unfolding tl by simp
  let ?s = "split_row 1000 False 1 ?d alert_sample_db ?b 7"
  let ?at = "instants 1000 (monitor_timeline 7 ?d) ?b"
  have "?at (\<lambda>i. si_state i = StateUnknown \<and> si_reason i \<noteq> ''pause'') = {0..<1000}" "win ?b - ?at (\<lambda>_. True) = {1000..<2000}"
    unfolding tl by (auto simp: instants_def win_def at_instant_def ended_def)
  then have C: "secondsOf (?at (\<lambda>i. si_state i = StateUnknown \<and> si_reason i \<noteq> ''pause'')) = 1000"
    "secondsOf (win ?b - ?at (\<lambda>_. True)) = 1000"
    by (simp_all add: secondsOf_def)
  have w: "ss_Window ?s = 2000" by (simp add: split_row_def Seconds_def)
  from availability_partitions [OF all, of 1000 False alert_sample_db ?b] show ?thesis
    unfolding Let_def C w by blast
qed

text \<open>Two monitors, one down for the second half of the bucket.\<close>

definition two_monitors :: db where
  "two_monitors = sample_db\<lparr>state_intervals :=
     map (\<lambda>(m, st, s, e). \<lparr>si_tenant_id = 1, si_monitor_id = m, si_state = st, si_reason = ''evidence'', si_started_at = s, si_ended_at = e\<rparr>)
       [(7, StateUp, 0, Some 50), (7, StateDown, 50, None), (8, StateUp, 0, None)]\<rparr>"


end
