(* ===== verification/GoStrings.thy ===== *)
theory GoStrings
  imports Prelude "HOL-Library.Sublist"
begin

text \<open>
  The functions of Go's \<open>strings\<close>, \<open>bytes\<close> and \<open>strconv\<close> packages the SIP code calls, on strings of
  octets (a character is one byte of the Go string), with the laws a parser over them needs.
\<close>

abbreviation (input) CR :: char where "CR \<equiv> CHR 0x0D"
abbreviation (input) LF :: char where "LF \<equiv> CHR 0x0A"
abbreviation (input) HT :: char where "HT \<equiv> CHR 0x09"
abbreviation (input) NUL :: char where "NUL \<equiv> CHR 0x00"

section \<open>Space\<close>

text \<open>
  The UTF-8 encodings of the runes \<open>unicode.IsSpace\<close> accepts. A string starts (ends) with a white rune
  exactly when one of them is a prefix (suffix): decoding from either end finds it.
\<close>

definition space_encodings :: "string list" where
  "space_encodings =
    [[CHR 0x09], [CHR 0x0A], [CHR 0x0B], [CHR 0x0C], [CHR 0x0D], [CHR 0x20],
     [CHR 0xC2, CHR 0x85], [CHR 0xC2, CHR 0xA0], [CHR 0xE1, CHR 0x9A, CHR 0x80],
     [CHR 0xE2, CHR 0x80, CHR 0x80], [CHR 0xE2, CHR 0x80, CHR 0x81], [CHR 0xE2, CHR 0x80, CHR 0x82],
     [CHR 0xE2, CHR 0x80, CHR 0x83], [CHR 0xE2, CHR 0x80, CHR 0x84], [CHR 0xE2, CHR 0x80, CHR 0x85],
     [CHR 0xE2, CHR 0x80, CHR 0x86], [CHR 0xE2, CHR 0x80, CHR 0x87], [CHR 0xE2, CHR 0x80, CHR 0x88],
     [CHR 0xE2, CHR 0x80, CHR 0x89], [CHR 0xE2, CHR 0x80, CHR 0x8A], [CHR 0xE2, CHR 0x80, CHR 0xA8],
     [CHR 0xE2, CHR 0x80, CHR 0xA9], [CHR 0xE2, CHR 0x80, CHR 0xAF], [CHR 0xE2, CHR 0x81, CHR 0x9F],
     [CHR 0xE3, CHR 0x80, CHR 0x80]]"

text \<open>Removes encodings from the front as long as there is one.\<close>

function trim_with :: "string list \<Rightarrow> string \<Rightarrow> string" where
  "trim_with encs s =
     (case find (\<lambda>e. e \<noteq> [] \<and> prefix e s) encs of None \<Rightarrow> s | Some e \<Rightarrow> trim_with encs (drop (length e) s))"
  by pat_completeness auto
termination
proof (relation "measure (\<lambda>(_, s). length s)", simp)
  fix encs and s e :: string
  assume "find (\<lambda>e. e \<noteq> [] \<and> prefix e s) encs = Some e"
  then have "e \<noteq> []" "prefix e s" by (auto simp: find_Some_iff)
  then show "((encs, drop (length e) s), encs, s) \<in> measure (\<lambda>(_, s). length s)"
    by (auto simp: prefix_def)
qed

declare trim_with.simps [simp del]

definition TrimSpace :: "string \<Rightarrow> string" where
  "TrimSpace s = rev (trim_with (map rev space_encodings) (rev (trim_with space_encodings s)))"

text \<open>No encoding begins the string; none begins or ends it.\<close>

definition clear_of :: "string list \<Rightarrow> string \<Rightarrow> bool" where
  "clear_of encs s \<longleftrightarrow> (\<forall>e \<in> set encs. e \<noteq> [] \<longrightarrow> \<not> prefix e s)"

definition trimmed :: "string \<Rightarrow> bool" where
  "trimmed s \<longleftrightarrow> clear_of space_encodings s \<and> clear_of (map rev space_encodings) (rev s)"

lemma trim_with_clear: "clear_of encs (trim_with encs s)"
proof (induction encs s rule: trim_with.induct)
  case (1 encs s)
  show ?case
  proof (cases "find (\<lambda>e. e \<noteq> [] \<and> prefix e s) encs")
    case None
    then have "trim_with encs s = s" by (simp add: trim_with.simps [of encs s])
    with None show ?thesis by (auto simp: clear_of_def find_None_iff)
  next
    case (Some e)
    from 1 [OF Some] show ?thesis unfolding trim_with.simps [of encs s] Some by simp
  qed
qed

lemma trim_with_id: "clear_of encs s \<Longrightarrow> trim_with encs s = s"
  by (subst trim_with.simps) (auto simp: clear_of_def find_None_iff split: option.split dest: find_SomeD)

lemma trim_with_suffix: "\<exists>p. s = p @ trim_with encs s"
proof (induction encs s rule: trim_with.induct)
  case (1 encs s)
  show ?case
  proof (cases "find (\<lambda>e. e \<noteq> [] \<and> prefix e s) encs")
    case None
    then show ?thesis by (simp add: trim_with.simps [of encs s])
  next
    case (Some e)
    from 1 [OF Some] obtain p where "drop (length e) s = p @ trim_with encs (drop (length e) s)" by blast
    then have "s = (take (length e) s @ p) @ trim_with encs (drop (length e) s)"
      by (metis append_assoc append_take_drop_id)
    moreover have "trim_with encs s = trim_with encs (drop (length e) s)"
      unfolding trim_with.simps [of encs s] Some by simp
    ultimately show ?thesis by metis
  qed
qed

lemma clear_of_prefix: "clear_of encs s \<Longrightarrow> prefix t s \<Longrightarrow> clear_of encs t"
  by (auto simp: clear_of_def intro: prefix_order.trans)

lemma TrimSpace_infix: "\<exists>p q. s = p @ TrimSpace s @ q"
proof -
  obtain p where p: "s = p @ trim_with space_encodings s" using trim_with_suffix by blast
  obtain q where "rev (trim_with space_encodings s) = q @ trim_with (map rev space_encodings) (rev (trim_with space_encodings s))"
    using trim_with_suffix by blast
  then have "trim_with space_encodings s = TrimSpace s @ rev q"
    unfolding TrimSpace_def by (metis rev_append rev_rev_ident)
  with p show ?thesis by metis
qed

lemma TrimSpace_set: "set (TrimSpace s) \<subseteq> set s"
proof -
  obtain p q where "s = p @ TrimSpace s @ q" using TrimSpace_infix by blast
  then have "set s = set p \<union> set (TrimSpace s) \<union> set q" by (metis set_append sup_assoc)
  then show ?thesis by blast
qed

lemma trimmed_TrimSpace: "trimmed (TrimSpace s)"
proof -
  let ?l = "trim_with space_encodings s"
  obtain q where "rev ?l = q @ trim_with (map rev space_encodings) (rev ?l)" using trim_with_suffix by blast
  then have "?l = TrimSpace s @ rev q" unfolding TrimSpace_def by (metis rev_append rev_rev_ident)
  then have "prefix (TrimSpace s) ?l" by (metis prefixI)
  with trim_with_clear have "clear_of space_encodings (TrimSpace s)" by (rule clear_of_prefix)
  moreover have "clear_of (map rev space_encodings) (rev (TrimSpace s))" by (simp add: TrimSpace_def trim_with_clear)
  ultimately show ?thesis by (simp add: trimmed_def)
qed

lemma TrimSpace_trimmed: "trimmed s \<Longrightarrow> TrimSpace s = s"
  by (simp add: trimmed_def TrimSpace_def trim_with_id)

lemma TrimSpace_blank: "trimmed s \<Longrightarrow> TrimSpace (CHR '' '' # s) = s"
proof -
  assume "trimmed s"
  have "trim_with space_encodings (CHR '' '' # s) = trim_with space_encodings s"
    by (subst trim_with.simps) (simp add: space_encodings_def)
  with \<open>trimmed s\<close> show ?thesis by (simp add: trimmed_def TrimSpace_def trim_with_id)
qed


section \<open>Searching and splitting\<close>

text \<open>\<open>Index\<close>: where the first occurrence of a pattern begins.\<close>

fun Index :: "string \<Rightarrow> string \<Rightarrow> nat option" where
  "Index pat [] = (if pat = [] then Some 0 else None)"
| "Index pat (c # s) = (if prefix pat (c # s) then Some 0 else map_option Suc (Index pat s))"

definition Cut :: "char \<Rightarrow> string \<Rightarrow> string \<times> string \<times> bool" where
  "Cut c s = (takeWhile (\<lambda>x. x \<noteq> c) s, drop 1 (dropWhile (\<lambda>x. x \<noteq> c) s), c \<in> set s)"

fun Split :: "char \<Rightarrow> string \<Rightarrow> string list" where
  "Split c [] = [[]]"
| "Split c (x # xs) = (if x = c then [] # Split c xs else (x # hd (Split c xs)) # tl (Split c xs))"

fun SplitN :: "char \<Rightarrow> nat \<Rightarrow> string \<Rightarrow> string list" where
  "SplitN c 0 s = []"
| "SplitN c (Suc 0) s = [s]"
| "SplitN c (Suc (Suc n)) s = (let (a, b, found) = Cut c s in if found then a # SplitN c (Suc n) b else [a])"

text \<open>\<open>ReplaceAll(s, "\r\n", "\n")\<close>.\<close>

fun crlf_to_lf :: "string \<Rightarrow> string" where
  "crlf_to_lf (x # y # s) = (if x = CR \<and> y = LF then LF # crlf_to_lf s else x # crlf_to_lf (y # s))"
| "crlf_to_lf s = s"

lemma Index_found: "c \<notin> set a \<Longrightarrow> Index (c # p) (a @ c # p @ b) = Some (length a)"
  by (induction a) auto

lemma Cut_found: "c \<notin> set a \<Longrightarrow> Cut c (a @ c # b) = (a, b, True)"
  by (induction a) (auto simp: Cut_def)

lemma Cut_none: "c \<notin> set s \<Longrightarrow> Cut c s = (s, [], False)"
  by (induction s) (auto simp: Cut_def)

lemma Cut_parts:
  assumes "Cut c s = (a, b, found)"
  shows "c \<notin> set a" "found \<Longrightarrow> s = a @ c # b" "\<not> found \<Longrightarrow> a = s \<and> b = []"
proof -
  have "a = takeWhile (\<lambda>x. x \<noteq> c) s" "b = drop 1 (dropWhile (\<lambda>x. x \<noteq> c) s)" "found \<longleftrightarrow> c \<in> set s"
    using assms by (auto simp: Cut_def)
  then show "c \<notin> set a" "found \<Longrightarrow> s = a @ c # b" "\<not> found \<Longrightarrow> a = s \<and> b = []"
    using Cut_found [of c] Cut_none [of c s] assms
    by (auto dest: set_takeWhileD split_list_first)
qed

lemma Split_not_Nil [simp]: "Split c s \<noteq> []"
  by (induction s) auto

lemma Split_none: "c \<notin> set s \<Longrightarrow> Split c s = [s]"
  by (induction s) auto

lemma Split_append: "c \<notin> set a \<Longrightarrow> Split c (a @ c # b) = a # Split c b"
  by (induction a) auto

lemma Split_set: "x \<in> set (Split c s) \<Longrightarrow> c \<notin> set x \<and> set x \<subseteq> set s"
proof (induction s arbitrary: x)
  case (Cons y s)
  have hd: "hd (Split c s) \<in> set (Split c s)" by simp
  from Cons.prems consider "x = []" | "x \<in> set (Split c s)" | "y \<noteq> c" "x = y # hd (Split c s)"
    by (auto split: if_splits dest: list.set_sel(2) [OF Split_not_Nil])
  then show ?case
  proof cases
    case 3
    with Cons.IH [OF hd] show ?thesis by auto
  qed (use Cons.IH in auto)
qed simp

lemma SplitN_line: "c \<notin> set a \<Longrightarrow> c \<notin> set b \<Longrightarrow> SplitN c 3 (a @ c # b @ c # r) = [a, b, r]"
  by (simp add: numeral_3_eq_3 Cut_found)

lemma crlf_to_lf_line:
  assumes "CR \<notin> set l"
  shows "crlf_to_lf (l @ CR # LF # r) = l @ LF # crlf_to_lf r"
  using assms
proof (induction l)
  case (Cons x l)
  then show ?case by (cases l) auto
qed simp

lemma crlf_to_lf_none: "CR \<notin> set s \<Longrightarrow> crlf_to_lf s = s"
  by (induction s rule: crlf_to_lf.induct) auto

lemma crlf_to_lf_set: "set (crlf_to_lf s) \<subseteq> set s"
  by (induction s rule: crlf_to_lf.induct) auto

section \<open>Letters\<close>

text \<open>\<open>ToLower\<close> on the letters of ASCII, which is all of it for the header names it is called on.\<close>

definition lower_char :: "char \<Rightarrow> char" where
  "lower_char c = (if 65 \<le> (of_char c :: nat) \<and> (of_char c :: nat) \<le> 90 then char_of ((of_char c :: nat) + 32) else c)"

definition ToLower :: "string \<Rightarrow> string" where
  "ToLower s = map lower_char s"

text \<open>
  \<open>EqualFold\<close> against an ASCII string: besides the letters of ASCII, simple case folding takes the
  long s (U+017F) to s and the Kelvin sign (U+212A) to k.
\<close>

fun fold_case :: "string \<Rightarrow> string" where
  "fold_case [] = []"
| "fold_case (x # s) =
     (if x = CHR 0xC5 \<and> s \<noteq> [] \<and> hd s = CHR 0xBF then CHR ''s'' # fold_case (tl s)
      else if x = CHR 0xE2 \<and> take 2 s = [CHR 0x84, CHR 0xAA] then CHR ''k'' # fold_case (drop 2 s)
      else lower_char x # fold_case s)"

definition EqualFold :: "string \<Rightarrow> string \<Rightarrow> bool" where
  "EqualFold s t \<longleftrightarrow> fold_case s = fold_case t"

section \<open>Numbers\<close>

definition is_digit :: "char \<Rightarrow> bool" where
  "is_digit c \<longleftrightarrow> 48 \<le> (of_char c :: nat) \<and> (of_char c :: nat) \<le> 57"

definition digits_value :: "string \<Rightarrow> nat" where
  "digits_value s = foldl (\<lambda>n c. n * 10 + (of_char c - 48)) 0 s"

text \<open>\<open>ParseUint(s, 10, 31)\<close>: one or more digits and nothing else, at most 31 bits.\<close>

definition ParseUint31 :: "string \<Rightarrow> nat option" where
  "ParseUint31 s = (if s \<noteq> [] \<and> list_all is_digit s \<and> digits_value s < 2 ^ 31 then Some (digits_value s) else None)"

text \<open>\<open>Atoi\<close>: an optional sign, digits, the range of a 64-bit int.\<close>

definition Atoi :: "string \<Rightarrow> int option" where
  "Atoi s =
     (let (neg, ds) = (case s of [] \<Rightarrow> (False, []) | c # r \<Rightarrow> if c = CHR ''-'' then (True, r) else if c = CHR ''+'' then (False, r) else (False, s));
          n = (if neg then - int (digits_value ds) else int (digits_value ds)) in
      if ds \<noteq> [] \<and> list_all is_digit ds \<and> - (2 ^ 63) \<le> n \<and> n < 2 ^ 63 then Some n else None)"

text \<open>The verb \<open>%d\<close>.\<close>

fun dec :: "nat \<Rightarrow> string" where
  "dec n = (if n < 10 then [char_of (48 + n)] else dec (n div 10) @ [char_of (48 + n mod 10)])"

declare dec.simps [simp del]

definition show_int :: "int \<Rightarrow> string" where
  "show_int n = (if n < 0 then CHR ''-'' # dec (nat (- n)) else dec (nat n))"

lemma dec_value: "digits_value (dec n) = n"
proof (induction n rule: dec.induct)
  case (1 n)
  show ?case
  proof (cases "n < 10")
    case True
    then show ?thesis by (simp add: dec.simps [of n] digits_value_def)
  next
    case False
    then have "digits_value (dec n) = digits_value (dec (n div 10)) * 10 + n mod 10"
      by (simp add: dec.simps [of n] digits_value_def)
    with 1 False show ?thesis by simp
  qed
qed

lemma dec_digits: "list_all is_digit (dec n)" "dec n \<noteq> []"
proof -
  have "list_all is_digit (dec n) \<and> dec n \<noteq> []"
  proof (induction n rule: dec.induct)
    case (1 n)
    have "is_digit (char_of (48 + n mod 10))" "n < 10 \<Longrightarrow> is_digit (char_of (48 + n))" by (simp_all add: is_digit_def)
    with 1 show ?case by (simp add: dec.simps [of n])
  qed
  then show "list_all is_digit (dec n)" "dec n \<noteq> []" by simp_all
qed

lemma ParseUint31_dec: "n < 2 ^ 31 \<Longrightarrow> ParseUint31 (dec n) = Some n"
  by (simp add: ParseUint31_def dec_digits dec_value)

lemma Atoi_digits:
  assumes "s \<noteq> []" "list_all is_digit s" "digits_value s < 2 ^ 63"
  shows "Atoi s = Some (int (digits_value s))"
proof -
  obtain c r where c: "s = c # r" using assms(1) by (cases s) auto
  with assms(2) have "is_digit c" by simp
  then have "c \<noteq> CHR ''-''" "c \<noteq> CHR ''+''" by (auto simp: is_digit_def)
  moreover have "int (digits_value s) < 2 ^ 63" using assms(3) by simp
  ultimately show ?thesis using c assms(2) by (simp add: Atoi_def)
qed

lemma Atoi_dec: "n < 2 ^ 63 \<Longrightarrow> Atoi (dec n) = Some (int n)"
  using Atoi_digits [of "dec n"] dec_digits [of n] by (simp add: dec_value)

lemma dec_length: "n < 10 ^ Suc k \<Longrightarrow> length (dec n) \<le> Suc k"
proof (induction k arbitrary: n)
  case (Suc k)
  then have "n div 10 < 10 ^ Suc k" by simp
  with Suc.IH [of "n div 10"] show ?case by (simp add: dec.simps [of n])
qed (simp add: dec.simps)

lemma digits_value_zeros: "digits_value (replicate k CHR ''0'' @ ds) = digits_value ds"
  by (induction k) (simp_all add: digits_value_def)

text \<open>Visible ASCII: nothing to trim, and the digits are of it.\<close>

definition visible :: "char \<Rightarrow> bool" where
  "visible c \<longleftrightarrow> 32 < (of_char c :: nat) \<and> (of_char c :: nat) < 128"

lemma visible_trimmed:
  assumes "list_all visible s"
  shows "trimmed s"
proof -
  have front: "clear_of space_encodings t" if "list_all visible t" for t
    using that by (cases t) (auto simp: clear_of_def space_encodings_def visible_def)
  have rear: "clear_of (map rev space_encodings) t" if "list_all visible t" for t
    using that by (cases t) (auto simp: clear_of_def space_encodings_def visible_def)
  from assms have "list_all visible (rev s)" by (simp add: list_all_iff)
  with front [OF assms] rear show ?thesis by (simp add: trimmed_def)
qed

lemma digit_visible: "is_digit c \<Longrightarrow> visible c"
  by (simp add: is_digit_def visible_def)

lemma dec_visible: "list_all visible (dec n)"
  using dec_digits(1) [of n] by (auto simp: list_all_iff digit_visible)


section \<open>Words\<close>

text \<open>\<open>Fields\<close>: the words between runs of space.\<close>

fun word_of :: "string \<Rightarrow> string" where
  "word_of [] = []"
| "word_of (c # s) = (if clear_of space_encodings (c # s) then c # word_of s else [])"

lemma word_of_progress: "clear_of space_encodings s \<Longrightarrow> s \<noteq> [] \<Longrightarrow> word_of s \<noteq> []"
  by (cases s) auto

lemma trim_with_length: "length (trim_with encs s) \<le> length s"
  using trim_with_suffix [of s encs] by (metis length_append le_add2)

function Fields :: "string \<Rightarrow> string list" where
  "Fields s =
     (let t = trim_with space_encodings s in
      if t = [] then [] else word_of t # Fields (drop (length (word_of t)) t))"
  by pat_completeness auto
termination
proof (relation "measure length", simp)
  fix s t
  assume t: "t = trim_with space_encodings s" "t \<noteq> []"
  then have "word_of t \<noteq> []" using trim_with_clear word_of_progress by blast
  then have "0 < length (word_of t)" "0 < length t" using t by simp_all
  moreover have "length t \<le> length s" using t trim_with_length by simp
  ultimately have "length t - length (word_of t) < length s" by linarith
  then show "(drop (length (word_of t)) t, s) \<in> measure length" by simp
qed

declare Fields.simps [simp del]

text \<open>
  \<open>ToUpper\<close>. On ASCII it maps the letters; what Unicode's tables do to a string with other runes is
  the argument \<open>up\<close>.
\<close>

definition upper_char :: "char \<Rightarrow> char" where
  "upper_char c = (if 97 \<le> (of_char c :: nat) \<and> (of_char c :: nat) \<le> 122 then char_of ((of_char c :: nat) - 32) else c)"

definition ToUpper :: "(string \<Rightarrow> string) \<Rightarrow> string \<Rightarrow> string" where
  "ToUpper up s = (if list_all (\<lambda>c. (of_char c :: nat) < 128) s then map upper_char s else up s)"

text \<open>\<open>hex.EncodeToString\<close>.\<close>

definition hex_digit :: "nat \<Rightarrow> char" where
  "hex_digit n = (if n < 10 then char_of (48 + n) else char_of (87 + n))"

definition hex_encode :: "8 word list \<Rightarrow> string" where
  "hex_encode bs = concat (map (\<lambda>b. [hex_digit (unat b div 16), hex_digit (unat b mod 16)]) bs)"

end
