(* ===== verification/Calendar.thy ===== *)
theory Calendar
  imports GoStrings
begin

text \<open>
  Of Go's \<open>time\<close> package what \<open>shared/analytics/period.go\<close> uses: dates and instants in a location. A
  date is its day number (day 0 is 1 January 1970), which stands for year, month and day; \<open>month_of\<close>
  reads the month off, counted from January of year 0. A location is the function \<open>lookup\<close> of
  \<open>time.Location\<close>: the offset in force at a Unix second and the span it is in force for; the time
  zone database behind it is the argument \<open>loc\<close>.
\<close>

section \<open>Dates\<close>

definition leap :: "int \<Rightarrow> bool" where
  "leap y \<longleftrightarrow> y mod 4 = 0 \<and> (y mod 100 \<noteq> 0 \<or> y mod 400 = 0)"

definition leaps_before :: "int \<Rightarrow> int" where
  "leaps_before y = (y + 3) div 4 - (y + 99) div 100 + (y + 399) div 400"

definition days_before :: "int \<Rightarrow> int" where
  "days_before m = (if m \<le> 0 then 0 else if m = 1 then 31 else if m = 2 then 59 else if m = 3 then 90 else if m = 4 then 120
     else if m = 5 then 151 else if m = 6 then 181 else if m = 7 then 212 else if m = 8 then 243 else if m = 9 then 273
     else if m = 10 then 304 else 334)"

text \<open>The number of the first day of month \<open>m\<close> (0 is January) of a year.\<close>

definition first_of :: "int \<Rightarrow> int \<Rightarrow> int" where
  "first_of y m = 365 * y + leaps_before y + days_before m + (if leap y \<and> 2 \<le> m then 1 else 0) - 719528"

definition month_start :: "int \<Rightarrow> int" where
  "month_start k = first_of (k div 12) (k mod 12)"

lemma div_step:
  fixes y c :: int
  assumes "0 < c"
  shows "(y + c) div c = (y + (c - 1)) div c + (if y mod c = 0 then 1 else 0)"
proof -
  define q r where "q = y div c" and "r = y mod c"
  have y: "y = c * q + r" "0 \<le> r" "r < c" using assms by (simp_all add: q_def r_def)
  have "(y + c) div c = q + 1" using assms div_add_self2 [of c y] by (simp add: q_def)
  moreover have "(y + (c - 1)) div c = (if r = 0 then q else q + 1)"
  proof (cases "r = 0")
    case True
    have "(c * q + (c - 1)) div c = q" using assms by (intro int_div_pos_eq [of _ c q "c - 1"]) simp_all
    with True y(1) show ?thesis by simp
  next
    case False
    have "y + (c - 1) = c * (q + 1) + (r - 1)" using y(1) by (simp add: algebra_simps)
    moreover have "(c * (q + 1) + (r - 1)) div c = q + 1" using False y assms by (intro int_div_pos_eq [of _ c "q + 1" "r - 1"]) simp_all
    ultimately have "(y + (c - 1)) div c = q + 1" by (simp only:)
    with False show ?thesis by simp
  qed
  ultimately show ?thesis by (simp add: r_def)
qed

lemma mod_dvd:
  fixes y c d :: int
  assumes "c dvd d" "y mod d = 0"
  shows "y mod c = 0"
  using assms dvd_trans [of c d y] by (simp add: mod_eq_0_iff_dvd)

lemma mod_divisor: "(y :: int) mod 400 = 0 \<Longrightarrow> y mod 100 = 0" "y mod 100 = 0 \<Longrightarrow> y mod 4 = 0"
proof -
  have c: "(100 :: int) dvd 400" and f: "(4 :: int) dvd 100" by simp_all
  show "y mod 400 = 0 \<Longrightarrow> y mod 100 = 0" by (rule mod_dvd [OF c])
  show "y mod 100 = 0 \<Longrightarrow> y mod 4 = 0" by (rule mod_dvd [OF f])
qed

lemma count_step:
  fixes a b c a' b' c' :: int
  assumes "a' = a + (if P then 1 else 0)" "b' = b + (if Q then 1 else 0)" "c' = c + (if R then 1 else 0)" "R \<Longrightarrow> Q" "Q \<Longrightarrow> P"
  shows "a' - b' + c' = a - b + c + (if P \<and> (\<not> Q \<or> R) then 1 else 0)"
  unfolding assms(1-3) using assms(4,5) by (cases P; cases Q; cases R) simp_all

lemma leaps_step: "leaps_before (y + 1) = leaps_before y + (if leap y then 1 else 0)"
proof -
  have shift: "y + 1 + 3 = y + 4" "y + 1 + 99 = y + 100" "y + 1 + 399 = y + 400" by simp_all
  have less: "(4::int) - 1 = 3" "(100::int) - 1 = 99" "(400::int) - 1 = 399" by simp_all
  have pos: "(0::int) < 4" "(0::int) < 100" "(0::int) < 400" by simp_all
  show ?thesis unfolding leaps_before_def leap_def shift
    by (rule count_step [OF div_step [OF pos(1), of y, unfolded less] div_step [OF pos(2), of y, unfolded less]
        div_step [OF pos(3), of y, unfolded less] mod_divisor])
qed

lemma first_of_step:
  assumes "0 \<le> m" "m \<le> 10"
  shows "first_of y m + 28 \<le> first_of y (m + 1)" "first_of y (m + 1) \<le> first_of y m + 31"
proof -
  have "m = 0 \<or> m = 1 \<or> m = 2 \<or> m = 3 \<or> m = 4 \<or> m = 5 \<or> m = 6 \<or> m = 7 \<or> m = 8 \<or> m = 9 \<or> m = 10" using assms by arith
  then show "first_of y m + 28 \<le> first_of y (m + 1)" "first_of y (m + 1) \<le> first_of y m + 31"
    by (elim disjE; simp add: first_of_def days_before_def)+
qed

lemma first_of_next: "first_of (y + 1) 0 = first_of y 11 + 31"
  by (simp add: first_of_def leaps_step days_before_def)

lemma month_start_step: "month_start k + 28 \<le> month_start (k + 1) \<and> month_start (k + 1) \<le> month_start k + 31"
proof -
  define y m where "y = k div 12" and "m = k mod 12"
  have k: "k = 12 * y + m" "0 \<le> m" "m < 12" by (simp_all add: y_def m_def)
  show ?thesis
  proof (cases "m = 11")
    case True
    then have "k + 1 = 12 * (y + 1) + 0" using k(1) by simp
    then have "(k + 1) div 12 = y + 1" "(k + 1) mod 12 = 0" by simp_all
    with True show ?thesis by (simp add: month_start_def first_of_next y_def [symmetric] m_def [symmetric])
  next
    case False
    have "k + 1 = 12 * y + (m + 1)" using k(1) by simp
    then have "(k + 1) div 12 = y" "(k + 1) mod 12 = m + 1"
      using k False by (intro int_div_pos_eq [of _ 12 y "m + 1"] int_mod_pos_eq [of _ 12 y "m + 1"]; simp)+
    with first_of_step [of m y] k False show ?thesis by (simp add: month_start_def y_def [symmetric] m_def [symmetric])
  qed
qed

lemma month_start_ahead: "month_start k + 28 * int n \<le> month_start (k + int n) \<and> month_start (k + int n) \<le> month_start k + 31 * int n"
proof (induction n)
  case (Suc n)
  with month_start_step [of "k + int n"] show ?case by (simp add: algebra_simps)
qed simp

lemma month_start_less: "k < l \<Longrightarrow> month_start k < month_start l"
  using month_start_ahead [of k "nat (l - k)"] by simp

lemma month_start_zero: "month_start 0 = - 719528"
  by (simp add: month_start_def first_of_def leaps_before_def days_before_def leap_def)

text \<open>The month a day is in: the months from an estimate on, until the next one begins later.\<close>

function month_from :: "int \<Rightarrow> int \<Rightarrow> int" where
  "month_from n k = (if n < month_start (k + 1) then k else month_from n (k + 1))"
  by pat_completeness auto
termination
proof (relation "measure (\<lambda>(n, k). nat (n + 1 - month_start k))", simp)
  fix n k
  assume "\<not> n < month_start (k + 1)"
  with month_start_step [of k] show "((n, k + 1), n, k) \<in> measure (\<lambda>(n, k). nat (n + 1 - month_start k))" by simp
qed

declare month_from.simps [simp del]

definition month_of :: "int \<Rightarrow> int" where
  "month_of n = month_from n (if 0 \<le> n + 719528 then (n + 719528) div 31 else (n + 719528) div 28)"

definition day_of_month :: "int \<Rightarrow> int" where
  "day_of_month n = n - month_start (month_of n) + 1"

lemma month_from_spec: "month_start k \<le> n \<Longrightarrow> month_start (month_from n k) \<le> n \<and> n < month_start (month_from n k + 1)"
proof (induction n k rule: month_from.induct)
  case (1 n k)
  then show ?case by (cases "n < month_start (k + 1)") (simp_all add: month_from.simps [of n k])
qed

lemma month_of_spec: "month_start (month_of n) \<le> n" "n < month_start (month_of n + 1)"
proof -
  let ?d = "n + 719528"
  have "month_start (if 0 \<le> ?d then ?d div 31 else ?d div 28) \<le> n"
  proof (cases "0 \<le> ?d")
    case True
    have "month_start (0 + int (nat (?d div 31))) \<le> month_start 0 + 31 * int (nat (?d div 31))" using month_start_ahead by blast
    moreover have "0 \<le> ?d div 31" "31 * (?d div 31) \<le> ?d" using True by simp_all
    ultimately show ?thesis using True month_start_zero by simp
  next
    case False
    have "month_start (?d div 28) + 28 * int (nat (- (?d div 28))) \<le> month_start (?d div 28 + int (nat (- (?d div 28))))"
      using month_start_ahead by blast
    moreover have "?d div 28 \<le> 0" "28 * (?d div 28) \<le> ?d" using False by (simp_all add: div_nonpos_pos_le0)
    ultimately show ?thesis using False month_start_zero by simp
  qed
  then show "month_start (month_of n) \<le> n" "n < month_start (month_of n + 1)"
    using month_from_spec unfolding month_of_def by blast+
qed

lemma month_of_unique: "month_start k \<le> n \<Longrightarrow> n < month_start (k + 1) \<Longrightarrow> month_of n = k"
  using month_of_spec [of n] month_start_less [of "month_of n + 1" k] month_start_less [of "k + 1" "month_of n"]
  by (cases "month_of n + 1 \<le> k"; cases "k + 1 \<le> month_of n") (auto simp: le_less)

text \<open>\<open>Weekday\<close>, with Monday 0, and \<open>ISOWeek\<close>: the year of the week's Thursday and the week in it.\<close>

definition weekday :: "int \<Rightarrow> int" where
  "weekday n = (n + 3) mod 7"

definition ISOWeek :: "int \<Rightarrow> int \<times> int" where
  "ISOWeek n = (let th = n - weekday n + 3; y = month_of th div 12 in (y, (th - month_start (12 * y)) div 7 + 1))"

section \<open>Instants\<close>

text \<open>An end of a span that is absent is Go's \<open>alpha\<close> or \<open>omega\<close>.\<close>

record zone =
  z_offset :: int
  z_start :: "int option"
  z_end :: "int option"

type_synonym timezone = "int \<Rightarrow> zone"

definition in_zone :: "zone \<Rightarrow> int \<Rightarrow> bool" where
  "in_zone z s \<longleftrightarrow> (case z_start z of None \<Rightarrow> True | Some a \<Rightarrow> a \<le> s) \<and> (case z_end z of None \<Rightarrow> True | Some b \<Rightarrow> s < b)"

text \<open>
  \<open>time.Date\<close> from the seconds a local clock shows since 1970: the offset is looked up as if they were
  UTC, and once more if the result is outside that offset's span.
\<close>

definition from_local :: "timezone \<Rightarrow> int \<Rightarrow> int" where
  "from_local loc u =
     (let off = z_offset (loc u) in
      if off = 0 then u
      else if in_zone (loc u) (u - off) then u - off
      else u - z_offset (loc (u - off)))"

definition to_local :: "timezone \<Rightarrow> int \<Rightarrow> int" where
  "to_local loc s = s + z_offset (loc s)"

definition local_day :: "timezone \<Rightarrow> time \<Rightarrow> int" where
  "local_day loc t = to_local loc (t div 1000000) div 86400"

text \<open>\<open>Date(y, m, d, 0, 0, 0, 0, loc)\<close> of the day with a number.\<close>

definition midnight :: "timezone \<Rightarrow> int \<Rightarrow> time" where
  "midnight loc n = secs (from_local loc (86400 * n))"

text \<open>
  \<open>AddDate\<close> with months: the same day of the month and the same clock, months later; a day past the
  end of that month runs into the next.
\<close>

definition AddMonths :: "timezone \<Rightarrow> int \<Rightarrow> time \<Rightarrow> time" where
  "AddMonths loc k t =
     (let l = to_local loc (t div 1000000); n = l div 86400;
          n' = month_start (month_of n + k) + day_of_month n - 1 in
      secs (from_local loc (86400 * n' + l mod 86400)) + t mod 1000000)"

definition AddDays :: "timezone \<Rightarrow> int \<Rightarrow> time \<Rightarrow> time" where
  "AddDays loc k t = secs (from_local loc (to_local loc (t div 1000000) + 86400 * k)) + t mod 1000000"

end
