(* ===== verification/Period.thy ===== *)
theory Period
  imports Calendar Availability
begin

text \<open>
  Reporting periods (\<open>shared/analytics/period.go\<close>, S-U7): calendar weeks, months, quarters and custom
  ranges of days in a location, their keys, and the days of a span.
\<close>

section \<open>Formatting\<close>

text \<open>A number padded with zeros, as \<open>Format\<close> and \<open>%02d\<close> write it.\<close>

definition pad :: "nat \<Rightarrow> int \<Rightarrow> string" where
  "pad w n = (let ds = dec (nat (abs n)) in (if n < 0 then ''-'' else '''') @ replicate (w - length ds) (CHR ''0'') @ ds)"

definition format_month :: "int \<Rightarrow> string" where
  "format_month n = pad 4 (month_of n div 12) @ ''-'' @ pad 2 (month_of n mod 12 + 1)"

definition format_day :: "int \<Rightarrow> string" where
  "format_day n = format_month n @ ''-'' @ pad 2 (day_of_month n)"

text \<open>The layout 2006-01: four digits, a hyphen, two digits that are a month.\<close>

definition parse_month :: "string \<Rightarrow> (int \<times> int) option" where
  "parse_month key =
     (if length key = 7 \<and> list_all is_digit (take 4 key) \<and> key ! 4 = CHR ''-'' \<and> list_all is_digit (drop 5 key) \<and>
         1 \<le> digits_value (drop 5 key) \<and> digits_value (drop 5 key) \<le> 12
      then Some (int (digits_value (take 4 key)), int (digits_value (drop 5 key))) else None)"

text \<open>The layout 2006-01-02: the number of a day the month has.\<close>

definition parse_day :: "string \<Rightarrow> int option" where
  "parse_day s =
     (case parse_month (take 7 s) of None \<Rightarrow> None | Some (y, m) \<Rightarrow>
        let k = 12 * y + m - 1; d = int (digits_value (drop 8 s)) in
        if length s = 10 \<and> s ! 7 = CHR ''-'' \<and> list_all is_digit (drop 8 s) \<and> 1 \<le> d \<and> month_start k + d \<le> month_start (k + 1)
        then Some (month_start k + d - 1) else None)"

section \<open>Periods\<close>

datatype PeriodKind = PeriodWeekly | PeriodMonthly | PeriodQuarterly | PeriodUnknown string

definition Valid :: "PeriodKind \<Rightarrow> bool" where
  "Valid k \<longleftrightarrow> k \<in> {PeriodWeekly, PeriodMonthly, PeriodQuarterly}"

record Period =
  pd_Kind :: PeriodKind
  pd_Key :: string
  pd_Start :: time
  pd_End :: time

datatype period_error = UnknownKind | BadMonth | BadQuarter | BadWeek | NoSuchWeek | BadFrom | BadTo | ToBeforeFrom

definition Range :: "Period \<Rightarrow> TimeRange" where
  "Range p = \<lparr>tr_Start = pd_Start p, tr_End = pd_End p\<rparr>"

definition monthPeriod :: "timezone \<Rightarrow> int \<Rightarrow> int \<Rightarrow> Period" where
  "monthPeriod loc y m =
     (let start = midnight loc (month_start (12 * y + m - 1)) in
      \<lparr>pd_Kind = PeriodMonthly, pd_Key = format_month (local_day loc start), pd_Start = start, pd_End = AddMonths loc 1 start\<rparr>)"

definition quarterPeriod :: "timezone \<Rightarrow> int \<Rightarrow> int \<Rightarrow> Period" where
  "quarterPeriod loc y q =
     (let start = midnight loc (month_start (12 * y + (q - 1) * 3)) in
      \<lparr>pd_Kind = PeriodQuarterly, pd_Key = show_int y @ ''-Q'' @ show_int q, pd_Start = start, pd_End = AddMonths loc 3 start\<rparr>)"

definition weekPeriod :: "timezone \<Rightarrow> int \<Rightarrow> int \<Rightarrow> Period" where
  "weekPeriod loc y w =
     (let jan4 = month_start (12 * y) + 3;
          offset = weekday (local_day loc (midnight loc jan4));
          start = midnight loc (jan4 - offset + (w - 1) * 7) in
      \<lparr>pd_Kind = PeriodWeekly, pd_Key = show_int y @ ''-W'' @ pad 2 w, pd_Start = start, pd_End = AddDays loc 7 start\<rparr>)"

definition PeriodContaining :: "PeriodKind \<Rightarrow> timezone \<Rightarrow> time \<Rightarrow> period_error + Period" where
  "PeriodContaining kind loc t =
     (let k = month_of (local_day loc t) in
      case kind of
        PeriodMonthly \<Rightarrow> Inr (monthPeriod loc (k div 12) (k mod 12 + 1))
      | PeriodQuarterly \<Rightarrow> Inr (quarterPeriod loc (k div 12) (k mod 12 div 3 + 1))
      | PeriodWeekly \<Rightarrow> (case ISOWeek (local_day loc t) of (y, w) \<Rightarrow> Inr (weekPeriod loc y w))
      | PeriodUnknown _ \<Rightarrow> Inl UnknownKind)"

definition splitKey :: "string \<Rightarrow> string \<Rightarrow> (int \<times> int) option" where
  "splitKey key sep =
     (case Index sep key of None \<Rightarrow> None | Some i \<Rightarrow>
        (case (Atoi (take i key), Atoi (drop (i + length sep) key)) of
           (Some y, Some n) \<Rightarrow> if y < 1970 \<or> y > 9999 then None else Some (y, n)
         | _ \<Rightarrow> None))"

definition ParsePeriod :: "PeriodKind \<Rightarrow> timezone \<Rightarrow> string \<Rightarrow> period_error + Period" where
  "ParsePeriod kind loc key0 =
     (let key = TrimSpace key0 in
      case kind of
        PeriodMonthly \<Rightarrow>
          (case parse_month key of None \<Rightarrow> Inl BadMonth
           | Some (y, m) \<Rightarrow>
               let k = month_of (local_day loc (midnight loc (month_start (12 * y + m - 1)))) in
               Inr (monthPeriod loc (k div 12) (k mod 12 + 1)))
      | PeriodQuarterly \<Rightarrow>
          (case splitKey key ''-Q'' of None \<Rightarrow> Inl BadQuarter
           | Some (y, q) \<Rightarrow> if q < 1 \<or> q > 4 then Inl BadQuarter else Inr (quarterPeriod loc y q))
      | PeriodWeekly \<Rightarrow>
          (case splitKey key ''-W'' of None \<Rightarrow> Inl BadWeek
           | Some (y, w) \<Rightarrow>
               if w < 1 \<or> w > 53 then Inl BadWeek
               else
                 let p = weekPeriod loc y w in
                 if ISOWeek (local_day loc (pd_Start p)) \<noteq> (y, w) then Inl NoSuchWeek else Inr p)
      | PeriodUnknown _ \<Rightarrow> Inl UnknownKind)"

definition CustomPeriod :: "timezone \<Rightarrow> string \<Rightarrow> string \<Rightarrow> period_error + Period" where
  "CustomPeriod loc from0 to0 =
     (case parse_day (TrimSpace from0) of None \<Rightarrow> Inl BadFrom
      | Some fd \<Rightarrow>
          (case parse_day (TrimSpace to0) of None \<Rightarrow> Inl BadTo
           | Some td \<Rightarrow>
               let f = midnight loc fd; t = midnight loc td in
               if t < f then Inl ToBeforeFrom
               else Inr \<lparr>pd_Kind = PeriodUnknown '''', pd_Key = format_day (local_day loc f) @ ''..'' @ format_day (local_day loc t),
                         pd_Start = f, pd_End = midnight loc (local_day loc t + 1)\<rparr>))"

text \<open>The zero \<open>Period\<close>, which a caller that drops the error is left with; its times are Go's year 1.\<close>

definition zero_period :: Period where
  "zero_period = \<lparr>pd_Kind = PeriodUnknown '''', pd_Key = '''', pd_Start = secs (86400 * month_start 12), pd_End = secs (86400 * month_start 12)\<rparr>"

definition Previous :: "timezone \<Rightarrow> Period \<Rightarrow> Period" where
  "Previous loc p = (case PeriodContaining (pd_Kind p) loc (pd_Start p - secs 1) of Inl _ \<Rightarrow> zero_period | Inr q \<Rightarrow> q)"

definition Next :: "timezone \<Rightarrow> Period \<Rightarrow> Period" where
  "Next loc p = (case PeriodContaining (pd_Kind p) loc (pd_End p) of Inl _ \<Rightarrow> zero_period | Inr q \<Rightarrow> q)"

section \<open>Days\<close>

text \<open>The loop of \<open>DayBuckets\<close>, which may not end: \<open>None\<close> then.\<close>

partial_function (option) day_loop :: "timezone \<Rightarrow> time \<Rightarrow> time \<Rightarrow> time \<Rightarrow> TimeRange list \<Rightarrow> TimeRange list option" where
  "day_loop loc start stop day out =
     (if day < stop then
        let nxt = midnight loc (local_day loc day + 1); s = max day start; e = min nxt stop in
        day_loop loc start stop nxt (if s < e then out @ [\<lparr>tr_Start = s, tr_End = e\<rparr>] else out)
      else Some out)"

definition DayBuckets :: "timezone \<Rightarrow> time \<Rightarrow> time \<Rightarrow> TimeRange list option" where
  "DayBuckets loc start stop = day_loop loc start stop (midnight loc (local_day loc start)) []"

section \<open>Locations whose days begin at midnight\<close>

text \<open>
  Every date has an instant at which its clock shows midnight, and every instant lies between the
  midnight of its date and that of the next. It holds of a zone whose clocks change at any other time
  of day.
\<close>

definition whole_days :: "timezone \<Rightarrow> bool" where
  "whole_days loc \<longleftrightarrow>
     (\<forall>n. to_local loc (from_local loc (86400 * n)) = 86400 * n) \<and>
     (\<forall>s. from_local loc (86400 * (to_local loc s div 86400)) \<le> s \<and> s < from_local loc (86400 * (to_local loc s div 86400 + 1)))"

lemma local_day_secs: "local_day loc (secs s) = to_local loc s div 86400"
  by (simp add: local_day_def)

lemma local_day_midnight: "whole_days loc \<Longrightarrow> local_day loc (midnight loc n) = n"
  unfolding midnight_def local_day_secs by (simp add: whole_days_def)

lemma midnight_bounds:
  assumes "whole_days loc"
  shows "midnight loc (local_day loc t) \<le> t" "t < midnight loc (local_day loc t + 1)"
proof -
  let ?s = "t div 1000000" and ?n = "to_local loc (t div 1000000) div 86400"
  from assms have "from_local loc (86400 * ?n) \<le> ?s" "?s < from_local loc (86400 * (?n + 1))"
    unfolding whole_days_def by blast+
  then show "midnight loc (local_day loc t) \<le> t" "t < midnight loc (local_day loc t + 1)"
    unfolding midnight_def local_day_def by linarith+
qed

lemma midnight_step: "whole_days loc \<Longrightarrow> midnight loc n < midnight loc (n + 1)"
  using midnight_bounds(2) [of loc "midnight loc n"] by (simp add: local_day_midnight)

lemma midnight_mono: "whole_days loc \<Longrightarrow> n \<le> m \<Longrightarrow> midnight loc n \<le> midnight loc m"
proof -
  assume w: "whole_days loc" and "n \<le> m"
  have "midnight loc n \<le> midnight loc (n + int k)" for k
  proof (induction k)
    case (Suc k)
    with midnight_step [OF w, of "n + int k"] show ?case by (simp add: add.assoc add.commute [of 1])
  qed simp
  from this [of "nat (m - n)"] \<open>n \<le> m\<close> show ?thesis by simp
qed

lemma local_day_unique:
  assumes "whole_days loc" "midnight loc n \<le> t" "t < midnight loc (n + 1)"
  shows "local_day loc t = n"
proof (rule ccontr)
  assume "local_day loc t \<noteq> n"
  then consider "local_day loc t + 1 \<le> n" | "n + 1 \<le> local_day loc t" by linarith
  then show False
    using midnight_bounds [OF assms(1), of t] midnight_mono [OF assms(1)] assms(2,3) by cases fastforce+
qed

end
