(* ===== verification/PeriodFacts.thy ===== *)
theory PeriodFacts
  imports Period
begin

text \<open>
  What holds of the reporting periods of \<open>shared/analytics/period.go\<close>: the daily buckets of a span, and
  a span whose buckets are never returned; periods of a kind one after another; keys read back. The
  laws are for a location with \<open>whole_days\<close>, New York being one; Santiago is one that has not.
\<close>

section \<open>The days of a span\<close>

text \<open>Consecutive ranges that cover a span, none of them empty.\<close>

fun tiles :: "time \<Rightarrow> time \<Rightarrow> TimeRange list \<Rightarrow> bool" where
  "tiles a b [] \<longleftrightarrow> a = b"
| "tiles a b (r # rs) \<longleftrightarrow> tr_Start r = a \<and> a < tr_End r \<and> tiles (tr_End r) b rs"

definition day_bucket :: "timezone \<Rightarrow> time \<Rightarrow> time \<Rightarrow> int \<Rightarrow> TimeRange" where
  "day_bucket loc start stop n = \<lparr>tr_Start = max (midnight loc n) start, tr_End = min (midnight loc (n + 1)) stop\<rparr>"

lemma midnight_before: "whole_days loc \<Longrightarrow> midnight loc n \<le> t \<longleftrightarrow> n \<le> local_day loc t"
  using midnight_bounds [of loc t] midnight_mono [of loc n "local_day loc t"] midnight_mono [of loc "local_day loc t + 1" n] by fastforce

lemma day_loop_days:
  assumes w: "whole_days loc" and le: "start < stop" "local_day loc start \<le> n"
  shows "day_loop loc start stop (midnight loc n) out =
    Some (out @ map (day_bucket loc start stop) [n..local_day loc (stop - 1)])"
  using le(2)
proof (induction "nat (local_day loc (stop - 1) + 1 - n)" arbitrary: n out rule: less_induct)
  case less
  have reach: "midnight loc n < stop \<longleftrightarrow> n \<le> local_day loc (stop - 1)" using midnight_before [OF w, of n "stop - 1"] by auto
  show ?case
  proof (cases "n \<le> local_day loc (stop - 1)")
    case False
    with reach show ?thesis by (subst day_loop.simps) simp
  next
    case True
    have "start < midnight loc (n + 1)"
      using midnight_bounds(2) [OF w, of start] midnight_mono [OF w, of "local_day loc start + 1" "n + 1"] less.prems by simp
    with True reach le(1) midnight_step [OF w, of n]
    have "max (midnight loc n) start < min (midnight loc (n + 1)) stop" by simp
    with True reach have "day_loop loc start stop (midnight loc n) out =
        day_loop loc start stop (midnight loc (n + 1)) (out @ [day_bucket loc start stop n])"
      by (subst day_loop.simps) (simp add: local_day_midnight [OF w] day_bucket_def Let_def)
    also have "\<dots> = Some ((out @ [day_bucket loc start stop n]) @ map (day_bucket loc start stop) [n + 1..local_day loc (stop - 1)])"
      using True less.prems by (intro less.hyps) auto
    finally show ?thesis using True by (simp add: upto_rec1)
  qed
qed

lemma day_buckets_tile:
  assumes w: "whole_days loc" and n: "midnight loc n \<le> a" "start \<le> a" "a = max (midnight loc n) start" "n \<le> local_day loc (stop - 1)"
    "start < midnight loc (n + 1)" "start < stop"
  shows "tiles a stop (map (day_bucket loc start stop) [n..local_day loc (stop - 1)])"
  using n
proof (induction "nat (local_day loc (stop - 1) - n)" arbitrary: n a rule: less_induct)
  case less
  let ?N = "local_day loc (stop - 1)"
  have "midnight loc n < stop" using midnight_before [OF w, of n "stop - 1"] less.prems(4) by simp
  with less.prems midnight_step [OF w, of n] have lt: "a < min (midnight loc (n + 1)) stop" by simp
  show ?case
  proof (cases "n = ?N")
    case True
    have "stop \<le> midnight loc (?N + 1)" using midnight_bounds(2) [OF w, of "stop - 1"] by simp
    with True lt less.prems(3) show ?thesis by (simp add: day_bucket_def)
  next
    case False
    with less.prems(4) have next_day: "n + 1 \<le> ?N" by simp
    then have "midnight loc (n + 1) < stop" using midnight_before [OF w, of "n + 1" "stop - 1"] by simp
    moreover from next_day have "tiles (midnight loc (n + 1)) stop (map (day_bucket loc start stop) [n + 1..?N])"
      using less.prems midnight_step [OF w, of "n + 1"] by (intro less.hyps) auto
    ultimately show ?thesis using less.prems lt by (simp add: upto_rec1 day_bucket_def)
  qed
qed

text \<open>C12. Where days begin at midnight, the daily buckets of a report are one per calendar day of its
  span, in order, each inside its day, and together they cover the span without gap or overlap: no
  second is counted on two days, none is lost.\<close>

theorem DayBuckets_tile:
  assumes "whole_days loc" "start < stop"
  shows "\<exists>bs. DayBuckets loc start stop = Some bs \<and> tiles start stop bs \<and>
    bs = map (day_bucket loc start stop) [local_day loc start..local_day loc (stop - 1)]"
proof -
  have "local_day loc start \<le> local_day loc (stop - 1)"
    using midnight_before [OF assms(1), of "local_day loc start" "stop - 1"] midnight_bounds(1) [OF assms(1), of start] assms(2) by simp
  with assms midnight_bounds [OF assms(1), of start]
  have "tiles start stop (map (day_bucket loc start stop) [local_day loc start..local_day loc (stop - 1)])"
    by (intro day_buckets_tile) simp_all
  moreover have "DayBuckets loc start stop = Some ([] @ map (day_bucket loc start stop) [local_day loc start..local_day loc (stop - 1)])"
    unfolding DayBuckets_def using assms by (intro day_loop_days) simp_all
  ultimately show ?thesis by simp
qed

text \<open>New York around 8 March 2026, whose clocks go from 02:00 to 03:00.\<close>

definition new_york :: timezone where
  "new_york s = (if s < 1772953200 then \<lparr>z_offset = - 18000, z_start = None, z_end = Some 1772953200\<rparr>
     else \<lparr>z_offset = - 14400, z_start = Some 1772953200, z_end = None\<rparr>)"

lemma new_york_midnight:
  "from_local new_york (86400 * n) = 86400 * n + (if n \<le> 20520 then 18000 else 14400)"
  by (simp add: from_local_def new_york_def in_zone_def Let_def) linarith?

lemma new_york_local: "to_local new_york s = s - (if s < 1772953200 then 18000 else 14400)"
  by (simp add: to_local_def new_york_def)

lemma new_york_days: "whole_days new_york"
proof -
  have "to_local new_york (from_local new_york (86400 * n)) = 86400 * n" for n
    unfolding new_york_midnight new_york_local by auto
  moreover have "from_local new_york (86400 * (to_local new_york s div 86400)) \<le> s \<and>
      s < from_local new_york (86400 * (to_local new_york s div 86400 + 1))" for s
  proof (cases "s < 1772953200")
    case True
    define n where "n = (s - 18000) div 86400"
    have "86400 * n \<le> s - 18000" "s - 18000 < 86400 * (n + 1)"
      using div_mult_mod_eq [of "s - 18000" 86400] pos_mod_bound [of 86400 "s - 18000"] pos_mod_sign [of 86400 "s - 18000"]
      unfolding n_def by (simp_all add: algebra_simps)
    with True show ?thesis unfolding new_york_midnight new_york_local by (simp add: n_def [symmetric])
  next
    case False
    define n where "n = (s - 14400) div 86400"
    have "86400 * n \<le> s - 14400" "s - 14400 < 86400 * (n + 1)"
      using div_mult_mod_eq [of "s - 14400" 86400] pos_mod_bound [of 86400 "s - 14400"] pos_mod_sign [of 86400 "s - 14400"]
      unfolding n_def by (simp_all add: algebra_simps)
    with False show ?thesis unfolding new_york_midnight new_york_local by (simp add: n_def [symmetric])
  qed
  ultimately show ?thesis unfolding whole_days_def by blast
qed

theorem DayBuckets_tile_witness:
  "\<exists>bs. DayBuckets new_york (secs 1772946000) (secs 1773115200) = Some bs \<and>
     tiles (secs 1772946000) (secs 1773115200) bs \<and>
     bs = [\<lparr>tr_Start = secs 1772946000, tr_End = secs 1773028800\<rparr>, \<lparr>tr_Start = secs 1773028800, tr_End = secs 1773115200\<rparr>]"
proof -
  have "local_day new_york (secs 1772946000) = 20520" "local_day new_york (secs 1773115200 - 1) = 20521"
    by (simp_all add: local_day_def new_york_local)
  moreover have "[20520..20521] = [20520, 20521::int]" by (simp add: upto_rec1)
  moreover have "secs 1772946000 < secs (1773115200 :: int)" by simp
  moreover have "midnight new_york 20520 = secs 1772946000" "midnight new_york 20521 = secs 1773028800"
      "midnight new_york (20521 + 1) = secs 1773115200"
    using new_york_midnight [of 20520] new_york_midnight [of 20521] new_york_midnight [of 20522] by (simp_all add: midnight_def)
  ultimately show ?thesis using DayBuckets_tile [OF new_york_days, of "secs 1772946000" "secs 1773115200"]
    by (simp add: day_bucket_def)
qed

section \<open>A day whose midnight does not exist\<close>

text \<open>
  Santiago in 2026, whose clocks go back on 5 April and forward on 6 September, at midnight: the
  clock shows 23:59:59 on the 5th and then 01:00:00 on the 6th.
\<close>

definition santiago :: timezone where
  "santiago s =
     (if s < 1775358000 then \<lparr>z_offset = - 10800, z_start = None, z_end = Some 1775358000\<rparr>
      else if s < 1788667200 then \<lparr>z_offset = - 14400, z_start = Some 1775358000, z_end = Some 1788667200\<rparr>
      else \<lparr>z_offset = - 10800, z_start = Some 1788667200, z_end = None\<rparr>)"

lemma santiago_stuck: "midnight santiago (local_day santiago (secs 1788663600) + 1) = secs 1788663600"
  by (simp add: midnight_def local_day_def to_local_def from_local_def santiago_def in_zone_def)

text \<open>A loop whose day is the midnight of its own next date runs forever.\<close>

lemma day_loop_stuck:
  assumes "midnight loc (local_day loc day + 1) = day" "day < stop"
  shows "day_loop loc start stop day out = None"
proof -
  have "midnight loc (local_day loc day + 1) = day \<longrightarrow> \<not> day < stop" if "day_loop loc start stop day out = Some r" for r
    using that
  proof (rule day_loop.raw_induct [rotated, where P = "\<lambda>loc start stop day out r. midnight loc (local_day loc day + 1) = day \<longrightarrow> \<not> day < stop"])
    fix f loc start stop day out r
    assume "\<And>loc start stop day out r. f loc start stop day out = Some r \<Longrightarrow> midnight loc (local_day loc day + 1) = day \<longrightarrow> \<not> day < stop"
      "(if day < stop then let nxt = midnight loc (local_day loc day + 1); s = max day start; e = min nxt stop in
          f loc start stop nxt (if s < e then out @ [\<lparr>tr_Start = s, tr_End = e\<rparr>] else out)
        else Some out) = Some r"
    then show "midnight loc (local_day loc day + 1) = day \<longrightarrow> \<not> day < stop" by (metis (full_types))
  qed
  with assms show ?thesis by (cases "day_loop loc start stop day out") auto
qed

lemmas month_start_defs = month_start_def first_of_def leaps_before_def days_before_def leap_def

lemma september_2026: "month_start 24320 = 20697" "month_start 24321 = 20727"
  by (simp_all add: month_start_defs)

lemma santiago_next:
  "midnight santiago (local_day santiago (secs 1788235200) + 1) = secs 1788321600"
  "midnight santiago (local_day santiago (secs 1788321600) + 1) = secs 1788408000"
  "midnight santiago (local_day santiago (secs 1788408000) + 1) = secs 1788494400"
  "midnight santiago (local_day santiago (secs 1788494400) + 1) = secs 1788580800"
  "midnight santiago (local_day santiago (secs 1788580800) + 1) = secs 1788663600"
  by (simp_all add: midnight_def local_day_def to_local_def from_local_def santiago_def in_zone_def)

lemma day_loop_hangs:
  "(\<And>out. day_loop loc start stop nxt out = None) \<Longrightarrow> midnight loc (local_day loc day + 1) = nxt \<Longrightarrow> day < stop \<Longrightarrow>
     day_loop loc start stop day out = None"
  by (subst day_loop.simps) (auto simp: Let_def)

lemma santiago_hangs:
  assumes "secs 1788663600 < stop"
  shows "day_loop santiago start stop (secs 1788235200) out = None"
proof -
  have before: "day < stop" if "day \<le> secs 1788663600" for day using assms that by simp
  have d5: "day_loop santiago start stop (secs 1788580800) out = None" for out
    by (rule day_loop_hangs [OF day_loop_stuck [OF santiago_stuck assms] santiago_next(5) before]) simp
  have d4: "day_loop santiago start stop (secs 1788494400) out = None" for out
    by (rule day_loop_hangs [OF d5 santiago_next(4) before]) simp
  have d3: "day_loop santiago start stop (secs 1788408000) out = None" for out
    by (rule day_loop_hangs [OF d4 santiago_next(3) before]) simp
  have d2: "day_loop santiago start stop (secs 1788321600) out = None" for out
    by (rule day_loop_hangs [OF d3 santiago_next(2) before]) simp
  show ?thesis by (rule day_loop_hangs [OF d2 santiago_next(1) before]) simp
qed

lemma santiago_september: "month_of (local_day santiago (secs 1789000000)) = 24320"
  "midnight santiago 20697 = secs 1788235200" "local_day santiago (secs 1788235200) = 20697"
  "AddMonths santiago 1 (secs 1788235200) = secs 1790823600"
proof -
  have "local_day santiago (secs 1789000000) = 20705" by (simp add: local_day_def to_local_def santiago_def)
  then show "month_of (local_day santiago (secs 1789000000)) = 24320"
    by (simp add: month_of_unique [of 24320] september_2026)
  show "midnight santiago 20697 = secs 1788235200"
    by (simp add: midnight_def from_local_def santiago_def in_zone_def)
  show day: "local_day santiago (secs 1788235200) = 20697"
    by (simp add: local_day_def to_local_def santiago_def)
  have "month_of 20697 = 24320" by (simp add: month_of_unique [of 24320] september_2026)
  then show "AddMonths santiago 1 (secs 1788235200) = secs 1790823600"
    by (simp add: AddMonths_def Let_def to_local_def santiago_def day_of_month_def september_2026 from_local_def in_zone_def)
qed

text \<open>C15. In a zone that skips midnight the daily buckets of a month are never returned: in Santiago the
  clock goes from 23:59:59 on 5 September 2026 to 01:00:00, so the midnight after the 5th is 23:00 on
  the 5th itself, whose next midnight it is again, and the loop of \<open>DayBuckets\<close> stands still. The
  report on September 2026 of an SLA with that time zone does not come back.\<close>

theorem DayBuckets_never_returns:
  "\<exists>p. PeriodContaining PeriodMonthly santiago (secs 1789000000) = Inr p \<and> pd_Start p = secs 1788235200 \<and>
     pd_End p = secs 1790823600 \<and> DayBuckets santiago (pd_Start p) (pd_End p) = None"
proof -
  have "month_start (12 * 2026 + 9 - 1) = 20697" using september_2026 by simp
  then have "\<exists>p. PeriodContaining PeriodMonthly santiago (secs 1789000000) = Inr p \<and> pd_Start p = secs 1788235200 \<and> pd_End p = secs 1790823600"
    by (simp add: PeriodContaining_def santiago_september [simplified] monthPeriod_def)
  moreover have "DayBuckets santiago (secs 1788235200) (secs 1790823600) = None"
    unfolding DayBuckets_def santiago_september by (rule santiago_hangs) simp
  ultimately show ?thesis by metis
qed

section \<open>Periods one after another\<close>

text \<open>The first day of the period of a kind that a day is in, and the first day of the next.\<close>

definition period_days :: "PeriodKind \<Rightarrow> int \<Rightarrow> int \<times> int" where
  "period_days kind n =
     (case kind of
        PeriodMonthly \<Rightarrow> (month_start (month_of n), month_start (month_of n + 1))
      | PeriodQuarterly \<Rightarrow> let q = 3 * (month_of n div 3) in (month_start q, month_start (q + 3))
      | PeriodWeekly \<Rightarrow> (n - weekday n, n - weekday n + 7)
      | PeriodUnknown _ \<Rightarrow> (n, n))"

lemma month_start_mono: "k \<le> l \<Longrightarrow> month_start k \<le> month_start l"
  using month_start_less [of k l] by (cases "k = l") auto

lemma month_of_start: "month_of (month_start k) = k" "month_of (month_start k - 1) = k - 1"
  using month_start_less [of k "k + 1"] month_start_less [of "k - 1" k] by (simp_all add: month_of_unique)

lemma period_days_contain: "Valid kind \<Longrightarrow> fst (period_days kind n) \<le> n \<and> n < snd (period_days kind n)"
proof (cases kind)
  case PeriodMonthly
  then show ?thesis using month_of_spec [of n] by (simp add: period_days_def)
next
  case PeriodQuarterly
  have "3 * (month_of n div 3) \<le> month_of n" "month_of n + 1 \<le> 3 * (month_of n div 3) + 3" by linarith+
  with PeriodQuarterly show ?thesis
    using month_of_spec [of n] month_start_mono [of "3 * (month_of n div 3)" "month_of n"]
      month_start_mono [of "month_of n + 1" "3 * (month_of n div 3) + 3"] by (simp add: period_days_def Let_def)
next
  case PeriodWeekly
  have "0 \<le> weekday n" "weekday n < 7" by (simp_all add: weekday_def)
  with PeriodWeekly show ?thesis by (simp add: period_days_def)
qed (simp add: Valid_def)

lemma monday: "weekday (n - weekday n + 7) = 0" "weekday (n - weekday n - 1) = 6" "weekday (n - weekday n) = 0"
proof -
  define q r where "q = (n + 3) div 7" and "r = (n + 3) mod 7"
  have "7 * q + r = n + 3" unfolding q_def r_def by (rule mult_div_mod_eq)
  then have n: "n - r + 3 = 7 * q" by linarith
  have "n - r + 7 + 3 = 7 * (q + 1) + 0" "n - r - 1 + 3 = 7 * (q - 1) + 6" using n by simp_all
  with n have "(n - r + 7 + 3) mod 7 = 0" "(n - r - 1 + 3) mod 7 = 6" "(n - r + 3) mod 7 = 0"
    by (simp_all only: mod_mult_self4 mod_mult_self2 mod_mult_self1 mod_mult_self3) simp_all
  then show "weekday (n - weekday n + 7) = 0" "weekday (n - weekday n - 1) = 6" "weekday (n - weekday n) = 0" by (simp_all add: weekday_def r_def)
qed

lemma period_days_adjacent:
  assumes "Valid kind"
  shows "fst (period_days kind (snd (period_days kind n))) = snd (period_days kind n)"
    "snd (period_days kind (fst (period_days kind n) - 1)) = fst (period_days kind n)"
proof -
  show "fst (period_days kind (snd (period_days kind n))) = snd (period_days kind n)"
    using assms monday(1) [of n]
    by (cases kind) (auto simp: period_days_def month_of_start Let_def Valid_def)
  have "(3 * q - 1) div 3 = q - 1" for q :: int by (intro int_div_pos_eq [of _ 3 "q - 1" 2]) simp_all
  then show "snd (period_days kind (fst (period_days kind n) - 1)) = fst (period_days kind n)"
    using assms monday(2) [of n]
    by (cases kind) (auto simp: period_days_def month_of_start Let_def Valid_def)
qed

lemma to_local_midnight: "whole_days loc \<Longrightarrow> to_local loc (midnight loc n div 1000000) = 86400 * n"
  by (simp add: midnight_def whole_days_def)

lemma AddMonths_midnight:
  assumes "whole_days loc"
  shows "AddMonths loc k (midnight loc (month_start j)) = midnight loc (month_start (j + k))"
  by (simp add: AddMonths_def Let_def to_local_midnight [OF assms] day_of_month_def month_of_start) (simp add: midnight_def)

lemma AddDays_midnight:
  assumes "whole_days loc"
  shows "AddDays loc k (midnight loc n) = midnight loc (n + k)"
  by (simp add: AddDays_def to_local_midnight [OF assms]) (simp add: midnight_def algebra_simps)

lemma monthPeriod_days:
  assumes "whole_days loc"
  shows "monthPeriod loc (k div 12) (k mod 12 + 1) =
    \<lparr>pd_Kind = PeriodMonthly, pd_Key = format_month (month_start k), pd_Start = midnight loc (month_start k), pd_End = midnight loc (month_start (k + 1))\<rparr>"
  by (simp add: monthPeriod_def Let_def local_day_midnight [OF assms] AddMonths_midnight [OF assms])

lemma quarterPeriod_days:
  assumes "whole_days loc"
  shows "quarterPeriod loc (k div 12) (k mod 12 div 3 + 1) =
    \<lparr>pd_Kind = PeriodQuarterly, pd_Key = show_int (k div 12) @ ''-Q'' @ show_int (k mod 12 div 3 + 1),
     pd_Start = midnight loc (month_start (3 * (k div 3))), pd_End = midnight loc (month_start (3 * (k div 3) + 3))\<rparr>"
proof -
  have "k div 3 = 4 * (k div 12) + k mod 12 div 3"
  proof -
    have split: "k = 3 * (4 * a + c) + d" if "12 * a + b = k" "3 * c + d = b" for a b c d :: int using that by (simp add: distrib_left)
    show ?thesis by (rule int_div_pos_eq [OF split [OF mult_div_mod_eq mult_div_mod_eq]]) simp_all
  qed
  then have "12 * (k div 12) + (k mod 12 div 3) * 3 = 3 * (k div 3)" by simp
  then show ?thesis by (simp add: quarterPeriod_def Let_def AddMonths_midnight [OF assms])
qed

text \<open>The Monday of an ISO week, counted from the week of 4 January, is the Monday before the day.\<close>

lemma ISOWeek_monday:
  assumes "ISOWeek n = (y, w)"
  shows "month_start (12 * y) + 3 - weekday (month_start (12 * y) + 3) + (w - 1) * 7 = n - weekday n"
proof -
  let ?J = "month_start (12 * y)" and ?th = "n - weekday n + 3"
  have y: "y = month_of ?th div 12" and w: "w - 1 = (?th - ?J) div 7" using assms by (auto simp: ISOWeek_def Let_def)
  define q r s f where "q = (?J + 6) div 7" and "r = (?J + 6) mod 7" and "s = (n + 3) div 7" and "f = (?th - ?J) mod 7"
  have "7 * q + r = ?J + 6" unfolding q_def r_def by (rule mult_div_mod_eq)
  moreover have "7 * s + weekday n = n + 3" unfolding s_def weekday_def by (rule mult_div_mod_eq)
  moreover have "7 * (w - 1) + f = ?th - ?J" unfolding w f_def by (rule mult_div_mod_eq)
  moreover have "0 \<le> r" "r < 7" "0 \<le> f" "f < 7" by (simp_all add: r_def f_def)
  moreover have "weekday (?J + 3) = r" by (simp add: weekday_def r_def add.assoc)
  ultimately show ?thesis by presburger
qed

lemma weekPeriod_days:
  assumes "whole_days loc" "ISOWeek n = (y, w)"
  shows "weekPeriod loc y w =
    \<lparr>pd_Kind = PeriodWeekly, pd_Key = show_int y @ ''-W'' @ pad 2 w, pd_Start = midnight loc (n - weekday n), pd_End = midnight loc (n - weekday n + 7)\<rparr>"
  unfolding weekPeriod_def Let_def local_day_midnight [OF assms(1)] ISOWeek_monday [OF assms(2)] AddDays_midnight [OF assms(1)] ..

lemma PeriodContaining_days:
  assumes "whole_days loc" "PeriodContaining kind loc t = Inr p"
  shows "Valid kind" "pd_Kind p = kind"
    "pd_Start p = midnight loc (fst (period_days kind (local_day loc t)))"
    "pd_End p = midnight loc (snd (period_days kind (local_day loc t)))"
proof -
  have "Valid kind \<and> pd_Kind p = kind \<and> pd_Start p = midnight loc (fst (period_days kind (local_day loc t))) \<and>
      pd_End p = midnight loc (snd (period_days kind (local_day loc t)))"
    using assms(2)
    by (cases kind)
      (auto simp: PeriodContaining_def Let_def Valid_def monthPeriod_days [OF assms(1)] quarterPeriod_days [OF assms(1)]
        weekPeriod_days [OF assms(1)] period_days_def split: prod.splits)
  then show "Valid kind" "pd_Kind p = kind"
    "pd_Start p = midnight loc (fst (period_days kind (local_day loc t)))"
    "pd_End p = midnight loc (snd (period_days kind (local_day loc t)))" by blast+
qed

lemma PeriodContaining_Valid: "Valid kind \<Longrightarrow> \<exists>p. PeriodContaining kind loc t = Inr p"
  by (cases kind) (auto simp: PeriodContaining_def Let_def Valid_def split: prod.splits)

lemma local_day_second_before:
  assumes "whole_days loc"
  shows "local_day loc (midnight loc n - secs 1) = n - 1"
proof (rule local_day_unique [OF assms])
  have "from_local loc (86400 * (n - 1)) < from_local loc (86400 * (n - 1 + 1))"
    using midnight_step [OF assms, of "n - 1"] by (simp add: midnight_def)
  then show "midnight loc (n - 1) \<le> midnight loc n - secs 1" by (simp add: midnight_def)
qed simp

lemma Next_eq: "Valid (pd_Kind p) \<Longrightarrow> PeriodContaining (pd_Kind p) loc (pd_End p) = Inr (Next loc p)"
  using PeriodContaining_Valid [of "pd_Kind p" loc "pd_End p"] by (auto simp: Next_def)

lemma Previous_eq: "Valid (pd_Kind p) \<Longrightarrow> PeriodContaining (pd_Kind p) loc (pd_Start p - secs 1) = Inr (Previous loc p)"
  using PeriodContaining_Valid [of "pd_Kind p" loc "pd_Start p - secs 1"] by (auto simp: Previous_def)

text \<open>C13. Where days begin at midnight, calendar periods cover time without gap or overlap, across changes
  of the clock too: the period an instant is in starts no later than the instant and ends after it, the
  previous period ends where it starts, and the next starts where it ends.\<close>

theorem periods_tile:
  assumes "whole_days loc" "PeriodContaining kind loc t = Inr p"
  shows "pd_Start p \<le> t \<and> t < pd_End p \<and> pd_End (Previous loc p) = pd_Start p \<and> pd_Start (Next loc p) = pd_End p"
proof -
  let ?n = "local_day loc t"
  note pd = PeriodContaining_days [OF assms]
  have inside: "fst (period_days kind ?n) \<le> ?n" "?n < snd (period_days kind ?n)"
    using period_days_contain [OF pd(1)] by simp_all
  from inside(1) have "pd_Start p \<le> t" using midnight_before [OF assms(1)] pd(3) by simp
  moreover have "t < pd_End p" using inside(2) midnight_before [OF assms(1), of "snd (period_days kind ?n)" t] pd(4) by simp
  moreover have "Valid (pd_Kind p)" using pd(1,2) by simp
  note adj = Next_eq [OF this, of loc] Previous_eq [OF this, of loc]
  have "pd_Start (Next loc p) = pd_End p"
    using PeriodContaining_days(3) [OF assms(1) adj(1)] period_days_adjacent(1) [OF pd(1)]
    by (simp add: pd(2,4) local_day_midnight [OF assms(1)])
  moreover have "pd_End (Previous loc p) = pd_Start p"
    using PeriodContaining_days(4) [OF assms(1) adj(2)] period_days_adjacent(2) [OF pd(1)]
    by (simp add: pd(2,3) local_day_second_before [OF assms(1), simplified])
  ultimately show ?thesis by blast
qed

lemma new_york_march:
  "PeriodContaining PeriodMonthly new_york (secs 1773000000) =
     Inr \<lparr>pd_Kind = PeriodMonthly, pd_Key = format_month 20513, pd_Start = secs 1772341200, pd_End = secs 1775016000\<rparr>"
proof -
  have "local_day new_york (secs 1773000000) = 20520" by (simp add: local_day_def new_york_local)
  moreover have months: "month_start 24314 = 20513" "month_start 24315 = 20544" by (simp_all add: month_start_defs)
  moreover have "month_of 20520 = 24314" by (simp add: month_of_unique [of 24314] months)
  moreover have "midnight new_york 20513 = secs 1772341200" "midnight new_york 20544 = secs 1775016000"
    using new_york_midnight [of 20513] new_york_midnight [of 20544] by (simp_all add: midnight_def)
  ultimately show ?thesis
    by (simp add: PeriodContaining_def Let_def monthPeriod_days [OF new_york_days] del: minus_mod_eq_mult_div)
qed

theorem periods_tile_witness:
  "secs 1772341200 \<le> secs (1773000000 :: int) \<and> secs (1773000000 :: int) < secs 1775016000 \<and>
   pd_End (Previous new_york \<lparr>pd_Kind = PeriodMonthly, pd_Key = format_month 20513, pd_Start = secs 1772341200, pd_End = secs 1775016000\<rparr>) = secs 1772341200"
  using periods_tile [OF new_york_days new_york_march] by simp

section \<open>Keys\<close>

lemma pad_digits:
  assumes "0 \<le> n" "nat n < 10 ^ Suc k"
  shows "length (pad (Suc k) n) = Suc k" "list_all is_digit (pad (Suc k) n)" "digits_value (pad (Suc k) n) = nat n"
proof -
  have "pad (Suc k) n = replicate (Suc k - length (dec (nat n))) CHR ''0'' @ dec (nat n)"
    using assms(1) by (simp add: pad_def Let_def)
  moreover have "is_digit CHR ''0''" by (simp add: is_digit_def)
  ultimately show "length (pad (Suc k) n) = Suc k" "list_all is_digit (pad (Suc k) n)" "digits_value (pad (Suc k) n) = nat n"
    using dec_length [OF assms(2)] dec_digits(1) [of "nat n"]
    by (simp_all add: dec_value digits_value_zeros list_all_iff set_replicate_conv_if del: replicate_Suc)
qed

lemma pad_two: "1 \<le> n \<Longrightarrow> n < 100 \<Longrightarrow>
    length (pad 2 n) = 2 \<and> list_all is_digit (pad 2 n) \<and> digits_value (pad 2 n) = nat n"
  using pad_digits [of n "Suc 0"] by (simp add: numeral_2_eq_2 nat_less_iff)

lemma pad_four: "0 \<le> n \<Longrightarrow> n \<le> 9999 \<Longrightarrow>
    length (pad 4 n) = 4 \<and> list_all is_digit (pad 4 n) \<and> digits_value (pad 4 n) = nat n"
proof -
  assume "0 \<le> n" "n \<le> 9999"
  moreover have "(10 :: nat) ^ Suc 3 = 10000" "Suc 3 = 4" by simp_all
  ultimately show ?thesis using pad_digits [of n 3] by (simp only: nat_less_iff of_nat_numeral)
qed

lemma parse_format_month:
  assumes "0 \<le> y" "y \<le> 9999" "1 \<le> m" "m \<le> 12"
  shows "parse_month (pad 4 y @ ''-'' @ pad 2 m) = Some (y, m)"
  using pad_four [of y] pad_two [of m] assms by (simp add: parse_month_def nth_append nat_le_iff le_nat_iff)

lemma splitKey_found:
  assumes "1970 \<le> y" "y \<le> 9999" "sep = CHR ''-'' # s" "ds \<noteq> []" "list_all is_digit ds" "digits_value ds < 100"
  shows "splitKey (show_int y @ sep @ ds) sep = Some (y, int (digits_value ds))"
proof -
  have "CHR ''-'' \<notin> set (dec (nat y))" using dec_digits(1) [of "nat y"] by (auto simp: list_all_iff is_digit_def)
  then have "Index sep (show_int y @ sep @ ds) = Some (length (show_int y))"
    using assms Index_found [of "CHR ''-''" "dec (nat y)" s ds] by (simp add: show_int_def)
  moreover have "Atoi (show_int y) = Some y" using assms(1,2) Atoi_dec [of "nat y"] by (simp add: show_int_def)
  moreover have "digits_value ds < 2 ^ 63" using assms(6) by simp
  ultimately show ?thesis using assms(1,2,4,5) by (simp add: splitKey_def Atoi_digits)
qed

lemma key_trimmed:
  assumes "list_all visible s"
  shows "TrimSpace s = s"
  using TrimSpace_trimmed [OF visible_trimmed [OF assms]] .

lemma visible_digits: "list_all is_digit s \<Longrightarrow> list_all visible s"
  by (auto simp: list_all_iff digit_visible)

lemma visible_show_int: "0 \<le> n \<Longrightarrow> list_all visible (show_int n)"
  by (simp add: show_int_def dec_visible)

lemma visible_signs: "visible CHR ''-''" "visible CHR ''Q''" "visible CHR ''W''"
  by (simp_all add: visible_def)

lemma month_start_range: "0 \<le> month_start k \<Longrightarrow> 23640 \<le> k" "n < month_start 120000 \<Longrightarrow> month_of n < 120000" "0 \<le> n \<Longrightarrow> 23640 \<le> month_of n"
proof -
  have epoch: "month_start 23640 = 0" by (simp add: month_start_defs)
  show "0 \<le> month_start k \<Longrightarrow> 23640 \<le> k" using month_start_less [of k 23640] epoch by fastforce
  show "n < month_start 120000 \<Longrightarrow> month_of n < 120000"
    using month_of_spec(1) [of n] month_start_mono [of 120000 "month_of n"] by fastforce
  show "0 \<le> n \<Longrightarrow> 23640 \<le> month_of n"
    using month_of_spec(2) [of n] month_start_mono [of "month_of n + 1" 23640] epoch by fastforce
qed

lemma year_length: "month_start (12 * y + 12) \<le> month_start (12 * y) + 366"
proof -
  have "12 * y + 12 = 12 * (y + 1)" by simp
  then have "(12 * y + 12) div 12 = y + 1" "(12 * y + 12) mod 12 = 0" by (simp_all only:) simp_all
  then show ?thesis by (simp add: month_start_def first_of_next) (simp add: first_of_def days_before_def)
qed

lemma ISOWeek_range:
  assumes "ISOWeek n = (y, w)"
  shows "1 \<le> w" "w \<le> 53"
proof -
  let ?th = "n - weekday n + 3"
  have y: "y = month_of ?th div 12" and w: "w = (?th - month_start (12 * y)) div 7 + 1" using assms by (auto simp: ISOWeek_def Let_def)
  have "12 * y \<le> month_of ?th" "month_of ?th + 1 \<le> 12 * y + 12" unfolding y by linarith+
  then have "month_start (12 * y) \<le> ?th" "?th < month_start (12 * y) + 366"
    using month_start_mono [of "12 * y" "month_of ?th"] month_start_mono [of "month_of ?th + 1" "12 * y + 12"]
      month_of_spec [of ?th] year_length [of y] by linarith+
  then show "1 \<le> w" "w \<le> 53" unfolding w by linarith+
qed

lemma ISOWeek_of_monday: "ISOWeek (n - weekday n) = ISOWeek n"
  by (simp add: ISOWeek_def monday(3))

lemma ISOWeek_year:
  assumes "ISOWeek n = (y, w)" "0 \<le> n - weekday n" "n - weekday n + 7 \<le> month_start 120000"
  shows "1970 \<le> y" "y \<le> 9999"
proof -
  have y: "y = month_of (n - weekday n + 3) div 12" using assms(1) by (auto simp: ISOWeek_def Let_def)
  have "23640 \<le> month_of (n - weekday n + 3)" "month_of (n - weekday n + 3) < 120000"
    using assms(2,3) by (simp_all add: month_start_range)
  then show "1970 \<le> y" "y \<le> 9999" unfolding y by simp_all
qed

lemma month_year: "23640 \<le> k \<Longrightarrow> k < 120000 \<Longrightarrow> 1970 \<le> k div 12 \<and> k div 12 \<le> (9999 :: int)"
  by linarith

text \<open>Each kind of key read back.\<close>

lemma ParsePeriod_month:
  assumes "whole_days loc" "23640 \<le> k" "k < 120000"
  shows "ParsePeriod PeriodMonthly loc (format_month (month_start k)) = Inr (monthPeriod loc (k div 12) (k mod 12 + 1))"
proof -
  have m: "1 \<le> k mod 12 + 1" "k mod 12 + 1 \<le> 12" using pos_mod_bound [of 12 k] by simp_all
  let ?key = "pad 4 (k div 12) @ ''-'' @ pad 2 (k mod 12 + 1)"
  have "list_all visible ?key"
    using pad_four [of "k div 12"] pad_two [of "k mod 12 + 1"] month_year [OF assms(2,3)] m
    by (simp add: visible_digits visible_signs)
  then have trim: "TrimSpace ?key = ?key" by (rule key_trimmed)
  have key: "parse_month ?key = Some (k div 12, k mod 12 + 1)"
    using month_year [OF assms(2,3)] m by (intro parse_format_month) simp_all
  have "12 * (k div 12) + (k mod 12 + 1) - 1 = k" using mult_div_mod_eq [of 12 k] by linarith
  then show ?thesis
    unfolding ParsePeriod_def format_month_def month_of_start Let_def trim key
    by (simp add: local_day_midnight [OF assms(1)] month_of_start)
qed

lemma ParsePeriod_quarter:
  assumes "1970 \<le> y" "y \<le> 9999" "1 \<le> q" "q \<le> 4"
  shows "ParsePeriod PeriodQuarterly loc (show_int y @ ''-Q'' @ show_int q) = Inr (quarterPeriod loc y q)"
proof -
  have "TrimSpace (show_int y @ ''-Q'' @ show_int q) = show_int y @ ''-Q'' @ show_int q"
    using assms by (intro key_trimmed) (simp add: visible_show_int visible_signs)
  moreover have "splitKey (show_int y @ ''-Q'' @ show_int q) ''-Q'' = Some (y, q)"
    using splitKey_found [of y "''-Q''" "''Q''" "show_int q"] assms dec_digits [of "nat q"] by (simp add: show_int_def dec_value)
  ultimately show ?thesis using assms by (simp add: ParsePeriod_def)
qed

lemma ParsePeriod_week:
  assumes "whole_days loc" "ISOWeek n = (y, w)" "1970 \<le> y" "y \<le> 9999"
  shows "ParsePeriod PeriodWeekly loc (show_int y @ ''-W'' @ pad 2 w) = Inr (weekPeriod loc y w)"
proof -
  note w = ISOWeek_range [OF assms(2)]
  then have pad: "length (pad 2 w) = 2 \<and> list_all is_digit (pad 2 w) \<and> digits_value (pad 2 w) = nat w" by (intro pad_two) simp_all
  have "TrimSpace (show_int y @ ''-W'' @ pad 2 w) = show_int y @ ''-W'' @ pad 2 w"
    using assms(3) pad by (intro key_trimmed) (simp add: visible_show_int visible_signs visible_digits)
  moreover have "splitKey (show_int y @ ''-W'' @ pad 2 w) ''-W'' = Some (y, w)"
    using splitKey_found [of y "''-W''" "''W''" "pad 2 w"] assms(3,4) pad w by (cases "pad 2 w") auto
  moreover have "ISOWeek (local_day loc (pd_Start (weekPeriod loc y w))) = (y, w)"
    by (simp add: weekPeriod_days [OF assms(1,2)] local_day_midnight [OF assms(1)] ISOWeek_of_monday assms(2))
  ultimately show ?thesis using w by (simp add: ParsePeriod_def Let_def)
qed

text \<open>C14. A period's key stands for it: where days begin at midnight, parsing the key of the period an
  instant is in gives that very period, for weeks, months and quarters that lie in the years 1970 to
  9999. So the keys by which reports are asked for, and the previous and next keys a report carries,
  name the periods they were made from.\<close>

theorem period_key_roundtrip:
  assumes "whole_days loc" "PeriodContaining kind loc t = Inr p"
    and range: "0 \<le> local_day loc (pd_Start p)" "local_day loc (pd_End p) \<le> month_start 120000"
  shows "ParsePeriod kind loc (pd_Key p) = Inr p"
proof -
  let ?n = "local_day loc t"
  let ?k = "month_of ?n"
  note pd = PeriodContaining_days [OF assms(1,2)]
  have first_day: "0 \<le> fst (period_days kind ?n)" and last_day: "snd (period_days kind ?n) \<le> month_start 120000"
    using range by (simp_all add: pd(3,4) local_day_midnight [OF assms(1)])
  have inside: "fst (period_days kind ?n) \<le> ?n" "?n < snd (period_days kind ?n)"
    using period_days_contain [OF pd(1)] by simp_all
  from first_day inside(1) have "0 \<le> ?n" by linarith
  then have k: "23640 \<le> ?k" by (rule month_start_range)
  from last_day inside(2) have "?n < month_start 120000" by linarith
  then have k': "?k < 120000" by (rule month_start_range)
  show ?thesis
  proof (cases kind)
    case PeriodMonthly
    with assms(2) have "p = monthPeriod loc (?k div 12) (?k mod 12 + 1)" by (simp add: PeriodContaining_def Let_def)
    then show ?thesis using PeriodMonthly ParsePeriod_month [OF assms(1) k k'] by (simp add: monthPeriod_days [OF assms(1)])
  next
    case PeriodQuarterly
    with assms(2) have p: "p = quarterPeriod loc (?k div 12) (?k mod 12 div 3 + 1)" by (simp add: PeriodContaining_def Let_def)
    have "1 \<le> ?k mod 12 div 3 + 1" "?k mod 12 div 3 + 1 \<le> 4" by linarith+
    from ParsePeriod_quarter [OF _ _ this] month_year [OF k k']
    show ?thesis unfolding PeriodQuarterly p by (simp add: quarterPeriod_def Let_def)
  next
    case PeriodWeekly
    obtain y w where iso: "ISOWeek ?n = (y, w)" by (cases "ISOWeek ?n") auto
    with PeriodWeekly assms(2) have "p = weekPeriod loc y w" by (simp add: PeriodContaining_def Let_def)
    moreover have "1970 \<le> y" "y \<le> 9999"
      using ISOWeek_year [OF iso] first_day last_day PeriodWeekly by (simp_all add: period_days_def)
    ultimately show ?thesis using PeriodWeekly ParsePeriod_week [OF assms(1) iso] by (simp add: weekPeriod_days [OF assms(1) iso])
  qed (use pd(1) in \<open>simp add: Valid_def\<close>)
qed

lemma march_key: "format_month 20513 = ''2026-03''"
proof -
  have "month_start 24314 = 20513" "month_start 24315 = 20544" by (simp_all add: month_start_defs)
  then have "month_of 20513 = 24314" by (simp add: month_of_unique [of 24314])
  then show ?thesis by (simp add: format_month_def pad_def dec.simps Let_def char_of_def bit_0)
qed

theorem period_key_roundtrip_witness:
  "ParsePeriod PeriodMonthly new_york ''2026-03'' =
     Inr \<lparr>pd_Kind = PeriodMonthly, pd_Key = ''2026-03'', pd_Start = secs 1772341200, pd_End = secs 1775016000\<rparr>"
proof -
  have "local_day new_york (secs 1772341200) = 20513" "local_day new_york (secs 1775016000) = 20544"
    by (simp_all add: local_day_def new_york_local)
  moreover have "month_start 120000 = 2932897" by (simp add: month_start_defs)
  ultimately show ?thesis using period_key_roundtrip [OF new_york_days new_york_march] by (simp add: march_key)
qed

text \<open>
  Asuncion in 2023, whose clocks go forward at midnight of 1 October: the October that begins at 23:00 on
  30 September has September's key.
\<close>

definition asuncion :: timezone where
  "asuncion s = (if s < 1696132800 then \<lparr>z_offset = - 14400, z_start = None, z_end = Some 1696132800\<rparr>
     else \<lparr>z_offset = - 10800, z_start = Some 1696132800, z_end = None\<rparr>)"

lemma october_has_septembers_key: "pd_Key (monthPeriod asuncion 2023 10) = ''2023-09''"
proof -
  have months: "month_start 24284 = 19601" "month_start 24285 = 19631" by (simp_all add: month_start_defs)
  then have "month_of 19630 = 24284" by (simp add: month_of_unique [of 24284])
  then have key: "format_month 19630 = ''2023-09''" by (simp add: format_month_def pad_def dec.simps Let_def char_of_def bit_0)
  have "12 * 2023 + 10 - 1 = (24285 :: int)" by simp
  moreover have "local_day asuncion (midnight asuncion 19631) = 19630"
    by (simp add: midnight_def from_local_def asuncion_def in_zone_def local_day_def to_local_def)
  ultimately show ?thesis unfolding monthPeriod_def Let_def by (simp only: months key Period.select_convs)
qed

end
