(* ===== verification/Dependencies.thy ===== *)
theory Dependencies
  imports AlertLifecycle
begin

text \<open>
  The dependency graph (\<open>api/internal/services/dependencies/service.go\<close>): an edge \<open>(m, u)\<close> says that
  monitor \<open>m\<close> depends on \<open>u\<close>. The service keeps the graph acyclic, which the schema does not ask for,
  by a recursive query before each insert; the alerter walks the graph upwards for the root cause of
  an outage (\<open>rootCause\<close>). An operation is one transaction: on an error nothing of it stays.
\<close>

section \<open>The service\<close>

datatype dep_error = ErrDependencyCycle | ErrMonitorNotFound

text \<open>The loop over the requested targets: refuses the monitor itself and drops repetitions.\<close>

fun dedupe_targets :: "uuid \<Rightarrow> uuid list \<Rightarrow> uuid list \<Rightarrow> dep_error + uuid list" where
  "dedupe_targets mid seen [] = Inr seen"
| "dedupe_targets mid seen (i # ids) =
     (if i = mid then Inl ErrDependencyCycle
      else dedupe_targets mid (if i \<in> set seen then seen else seen @ [i]) ids)"

text \<open>The number of live monitors of the tenant among the identifiers.\<close>

definition count_live :: "uuid \<Rightarrow> uuid list \<Rightarrow> alert_db \<Rightarrow> nat" where
  "count_live tid ids d = length (filter (\<lambda>m. m_id m \<in> set ids \<and> m_tenant_id m = tid \<and> m_deleted_at m = None) (a_monitors d))"

text \<open>
  The recursive query: what a monitor depends on, directly or not. The recursion adds rows until none
  is new; a path that repeats no edge is at most as long as there are edges.
\<close>

definition expand_upstream :: "alert_db \<Rightarrow> uuid list \<Rightarrow> uuid list" where
  "expand_upstream d ids = remdups (ids @ concat (map (depends_on d) ids))"

definition all_upstream :: "alert_db \<Rightarrow> uuid \<Rightarrow> uuid list" where
  "all_upstream d mid = (expand_upstream d ^^ length (monitor_dependencies d)) (remdups (depends_on d mid))"

definition insert_dependency :: "uuid \<Rightarrow> uuid \<Rightarrow> alert_db \<Rightarrow> alert_db" where
  "insert_dependency mid u d =
     (if (mid, u) \<in> set (monitor_dependencies d) then d
      else d\<lparr>monitor_dependencies := monitor_dependencies d @ [(mid, u)]\<rparr>)"

fun insert_dependencies :: "uuid \<Rightarrow> uuid list \<Rightarrow> alert_db \<Rightarrow> dep_error + alert_db" where
  "insert_dependencies mid [] d = Inr d"
| "insert_dependencies mid (u # us) d =
     (if mid \<in> set (all_upstream d u) then Inl ErrDependencyCycle
      else insert_dependencies mid us (insert_dependency mid u d))"

definition SetDependencies :: "uuid \<Rightarrow> uuid \<Rightarrow> uuid list \<Rightarrow> alert_db \<Rightarrow> dep_error + alert_db" where
  "SetDependencies tid mid ids d =
     bindE (dedupe_targets mid [] ids) (\<lambda>deduped.
       if count_live tid [mid] d = 0 then Inl ErrMonitorNotFound
       else if deduped \<noteq> [] \<and> count_live tid deduped d \<noteq> length deduped then Inl ErrMonitorNotFound
       else insert_dependencies mid deduped
              (d\<lparr>monitor_dependencies := sql_delete (\<lambda>e. fst e = mid) (monitor_dependencies d)\<rparr>))"

definition AddDependency :: "uuid \<Rightarrow> uuid \<Rightarrow> uuid \<Rightarrow> alert_db \<Rightarrow> dep_error + alert_db" where
  "AddDependency tid mid u d =
     (if mid = u then Inl ErrDependencyCycle
      else if count_live tid [mid, u] d \<noteq> 2 then Inl ErrMonitorNotFound
      else if mid \<in> set (all_upstream d u) then Inl ErrDependencyCycle
      else Inr (insert_dependency mid u d))"

definition RemoveDependency :: "uuid \<Rightarrow> uuid \<Rightarrow> uuid \<Rightarrow> alert_db \<Rightarrow> alert_db" where
  "RemoveDependency tid mid u d =
     d\<lparr>monitor_dependencies := sql_delete (\<lambda>e. e = (mid, u) \<and>
        list_ex (\<lambda>m. m_id m = mid \<and> m_tenant_id m = tid) (a_monitors d)) (monitor_dependencies d)\<rparr>"

section \<open>Reachability\<close>

text \<open>The graph as a relation.\<close>

definition edges :: "alert_db \<Rightarrow> uuid rel" where
  "edges d = set (monitor_dependencies d)"

lemma finite_edges [simp]: "finite (edges d)"
  by (simp add: edges_def)

lemma set_depends_on: "set (depends_on d mid) = edges d `` {mid}"
  by (force simp: depends_on_def edges_def)

lemma set_expand_upstream: "set (expand_upstream d ids) = set ids \<union> edges d `` set ids"
  by (auto simp: expand_upstream_def set_depends_on)

lemma expand_upstream_iterate:
  "set ((expand_upstream d ^^ n) ids) = (\<Union>k\<le>n. (edges d ^^ k) `` set ids)"
proof (induction n)
  case (Suc n)
  have "edges d `` (\<Union>k\<le>n. (edges d ^^ k) `` set ids) = (\<Union>k\<le>n. (edges d ^^ Suc k) `` set ids)"
    by (auto simp: Image_def relcomp_unfold)
  moreover have "(\<Union>k\<le>n. (edges d ^^ k) `` set ids) \<union> (\<Union>k\<le>n. (edges d ^^ Suc k) `` set ids) =
      (\<Union>k\<le>Suc n. (edges d ^^ k) `` set ids)" (is "?l = ?r")
  proof
    show "?l \<subseteq> ?r" by fastforce
    have "(edges d ^^ k) `` set ids \<subseteq> ?l" if "k \<le> Suc n" for k
      using that by (cases k) (auto simp del: relpow.simps)
    then show "?r \<subseteq> ?l" by blast
  qed
  ultimately show ?case by (simp add: set_expand_upstream Suc.IH del: relpow.simps)
qed simp

lemma relpow_Image_shift: "(R ^^ k) `` (R `` A) = (R ^^ Suc k) `` A"
  by (simp add: relcomp_Image [symmetric] relpow_commute)

lemma set_all_upstream: "set (all_upstream d mid) = (edges d)\<^sup>+ `` {mid}"
proof -
  let ?n = "length (monitor_dependencies d)"
  have "set (all_upstream d mid) = (\<Union>k\<le>?n. (edges d ^^ k) `` (edges d `` {mid}))"
    by (simp add: all_upstream_def expand_upstream_iterate set_depends_on)
  also have "\<dots> = (\<Union>k\<le>?n. (edges d ^^ Suc k) `` {mid})"
    by (simp only: relpow_Image_shift)
  also have "\<dots> = (edges d)\<^sup>+ `` {mid}" (is "?l = ?r")
  proof
    show "?l \<subseteq> ?r" using trancl_power [of _ "edges d"] by (auto simp del: relpow.simps)
    have "card (edges d) \<le> ?n" by (simp add: edges_def card_length)
    then have "(edges d)\<^sup>+ \<subseteq> (\<Union>k\<in>{k. 0 < k \<and> k \<le> ?n}. edges d ^^ k)"
      unfolding trancl_finite_eq_relpow [OF finite_edges] by fastforce
    moreover have "(\<Union>k\<in>{k. 0 < k \<and> k \<le> ?n}. edges d ^^ k) \<subseteq> (\<Union>k\<le>?n. edges d ^^ Suc k)"
    proof
      fix p
      assume "p \<in> (\<Union>k\<in>{k. 0 < k \<and> k \<le> ?n}. edges d ^^ k)"
      then obtain k where "0 < k" "k \<le> ?n" "p \<in> edges d ^^ k" by auto
      moreover then obtain j where "k = Suc j" by (cases k) auto
      ultimately show "p \<in> (\<Union>k\<le>?n. edges d ^^ Suc k)" by (auto simp del: relpow.simps)
    qed
    ultimately show "?r \<subseteq> ?l" by (auto simp del: relpow.simps)
  qed
  finally show ?thesis .
qed


section \<open>What the service does to the graph\<close>

lemma edges_insert [simp]: "edges (insert_dependency mid u d) = insert (mid, u) (edges d)"
  by (auto simp: insert_dependency_def edges_def)

lemma insert_dependency_rest [simp]:
  "a_monitors (insert_dependency mid u d) = a_monitors d"
  "(insert_dependency mid u d)\<lparr>monitor_dependencies := e\<rparr> = d\<lparr>monitor_dependencies := e\<rparr>"
  by (simp_all add: insert_dependency_def)

definition live_in :: "uuid \<Rightarrow> alert_db \<Rightarrow> uuid \<Rightarrow> bool" where
  "live_in tid d i \<longleftrightarrow> (\<exists>m \<in> set (a_monitors d). m_id m = i \<and> m_tenant_id m = tid \<and> m_deleted_at m = None)"

lemma count_live_card:
  assumes "distinct (map m_id (a_monitors d))"
  shows "count_live tid ids d = card {i \<in> set ids. live_in tid d i}"
proof -
  let ?ms = "filter (\<lambda>m. m_id m \<in> set ids \<and> m_tenant_id m = tid \<and> m_deleted_at m = None) (a_monitors d)"
  have "set (map m_id ?ms) = {i \<in> set ids. live_in tid d i}" by (auto simp: live_in_def)
  moreover have "card (set (map m_id ?ms)) = length (map m_id ?ms)"
    by (rule distinct_card) (rule distinct_map_filter [OF assms])
  ultimately show ?thesis by (simp add: count_live_def)
qed

lemma count_live_all:
  assumes "distinct (map m_id (a_monitors d))" "distinct ids"
  shows "count_live tid ids d = length ids \<longleftrightarrow> (\<forall>i \<in> set ids. live_in tid d i)"
proof -
  have "card {i \<in> set ids. live_in tid d i} = card (set ids) \<longleftrightarrow> {i \<in> set ids. live_in tid d i} = set ids"
    using card_subset_eq [of "set ids" "{i \<in> set ids. live_in tid d i}"] by auto
  then show ?thesis using assms by (auto simp: count_live_card distinct_card)
qed

lemma dedupe_targets_result:
  "dedupe_targets mid seen ids = (if mid \<in> set ids then Inl ErrDependencyCycle
     else Inr (seen @ rev (remdups (rev (filter (\<lambda>i. i \<notin> set seen) ids)))))"
proof (induction ids arbitrary: seen)
  case (Cons i ids)
  have "rev (remdups (xs @ [x])) = x # rev (remdups (filter (\<lambda>y. y \<noteq> x) xs))" for x :: uuid and xs
    by (induction xs) auto
  moreover have "filter (\<lambda>y. y \<noteq> i) (rev (filter (\<lambda>j. j \<notin> set seen) ids)) = rev (filter (\<lambda>j. j \<noteq> i \<and> j \<notin> set seen) ids)"
    by (simp add: rev_filter conj_commute)
  ultimately show ?case by (simp add: Cons.IH)
qed simp

lemma dedupe_targets_cases:
  obtains (self) "mid \<in> set ids" "dedupe_targets mid [] ids = Inl ErrDependencyCycle"
    | (ok) us where "mid \<notin> set ids" "dedupe_targets mid [] ids = Inr us" "set us = set ids" "distinct us"
  by (cases "mid \<in> set ids") (auto simp: dedupe_targets_result)

text \<open>An insert is refused exactly when it would close a cycle.\<close>

lemma acyclic_insert_edge:
  assumes "mid \<noteq> u"
  shows "acyclic (insert (mid, u) (edges d)) \<longleftrightarrow> acyclic (edges d) \<and> mid \<notin> set (all_upstream d u)"
  using assms by (auto simp: acyclic_insert set_all_upstream rtrancl_eq_or_trancl)

lemma insert_dependencies_spec:
  assumes "acyclic (edges d)" "mid \<notin> set us"
  shows "case insert_dependencies mid us d of
      Inr d' \<Rightarrow> edges d' = edges d \<union> {mid} \<times> set us \<and> acyclic (edges d') \<and>
        (\<exists>es. d' = d\<lparr>monitor_dependencies := es\<rparr>)
    | Inl e \<Rightarrow> e = ErrDependencyCycle \<and> \<not> acyclic (edges d \<union> {mid} \<times> set us)"
  using assms
proof (induction us arbitrary: d)
  case (Cons u us)
  let ?d = "insert_dependency mid u d"
  have split: "edges d \<union> {mid} \<times> set (u # us) = insert (mid, u) (edges d) \<union> {mid} \<times> set us" by auto
  have step: "acyclic (insert (mid, u) (edges d)) \<longleftrightarrow> mid \<notin> set (all_upstream d u)"
    using acyclic_insert_edge [of mid u d] Cons.prems by auto
  show ?case
  proof (cases "mid \<in> set (all_upstream d u)")
    case True
    then have "\<not> acyclic (insert (mid, u) (edges d) \<union> {mid} \<times> set us)"
      using step acyclic_subset [OF _ Un_upper1] by blast
    with True show ?thesis unfolding split by simp
  next
    case False
    with Cons.IH [of ?d] Cons.prems step False show ?thesis
      unfolding split by (auto split: sum.splits)
  qed
next
  case Nil
  then show ?case by (auto intro: exI [of _ "monitor_dependencies d"])
qed


text \<open>The graph a request asks for.\<close>

definition requested :: "uuid \<Rightarrow> uuid list \<Rightarrow> alert_db \<Rightarrow> uuid rel" where
  "requested mid ids d = {e \<in> edges d. fst e \<noteq> mid} \<union> {mid} \<times> set ids"

lemma not_acyclic_self: "(x, x) \<in> r \<Longrightarrow> \<not> acyclic r"
  by (auto simp: acyclic_def)

lemma requested_eq:
  "edges (d\<lparr>monitor_dependencies := sql_delete (\<lambda>e. fst e = mid) (monitor_dependencies d)\<rparr>) \<union> {mid} \<times> set ids = requested mid ids d"
  by (auto simp: edges_def requested_def)

lemma SetDependencies_spec:
  assumes acyc: "acyclic (edges d)" and ids: "distinct (map m_id (a_monitors d))"
  shows "case SetDependencies tid mid ids d of
      Inr d' \<Rightarrow> (\<forall>i \<in> insert mid (set ids). live_in tid d i) \<and> acyclic (requested mid ids d) \<and>
        edges d' = requested mid ids d \<and> (\<exists>es. d' = d\<lparr>monitor_dependencies := es\<rparr>)
    | Inl ErrMonitorNotFound \<Rightarrow> \<not> (\<forall>i \<in> insert mid (set ids). live_in tid d i)
    | Inl ErrDependencyCycle \<Rightarrow> \<not> acyclic (requested mid ids d)"
proof (cases rule: dedupe_targets_cases [of mid ids])
  case self
  then have "(mid, mid) \<in> requested mid ids d" by (simp add: requested_def)
  with self show ?thesis by (simp add: SetDependencies_def not_acyclic_self)
next
  case (ok us)
  let ?d = "d\<lparr>monitor_dependencies := sql_delete (\<lambda>e. fst e = mid) (monitor_dependencies d)\<rparr>"
  have mid_live: "count_live tid [mid] d = 0 \<longleftrightarrow> \<not> live_in tid d mid"
    using count_live_card [OF ids, of tid "[mid]"] by auto
  have us_live: "count_live tid us d = length us \<longleftrightarrow> (\<forall>i \<in> set ids. live_in tid d i)"
    using count_live_all [OF ids ok(4)] ok(3) by simp
  have eq: "edges ?d \<union> {mid} \<times> set us = requested mid ids d"
    using requested_eq ok(3) by simp
  have "acyclic (edges ?d)" using acyc by (rule acyclic_subset) (auto simp: edges_def)
  from insert_dependencies_spec [OF this, of mid us] ok(1,3)
  have spec: "case insert_dependencies mid us ?d of
      Inr d' \<Rightarrow> edges d' = requested mid ids d \<and> acyclic (requested mid ids d) \<and> (\<exists>es. d' = d\<lparr>monitor_dependencies := es\<rparr>)
    | Inl e \<Rightarrow> e = ErrDependencyCycle \<and> \<not> acyclic (requested mid ids d)"
    unfolding eq by (cases "insert_dependencies mid us ?d") auto
  have "us = [] \<Longrightarrow> set ids = {}" using ok(3) by simp
  then have set: "SetDependencies tid mid ids d =
      (if \<forall>i \<in> insert mid (set ids). live_in tid d i then insert_dependencies mid us ?d else Inl ErrMonitorNotFound)"
    unfolding SetDependencies_def ok(2) bindE_simps mid_live us_live by auto
  show ?thesis
  proof (cases "\<forall>i \<in> insert mid (set ids). live_in tid d i")
    case True
    show ?thesis
    proof (cases "insert_dependencies mid us ?d")
      case (Inl e)
      with spec have "e = ErrDependencyCycle" "\<not> acyclic (requested mid ids d)" by simp_all
      then show ?thesis unfolding set if_P [OF True] Inl by simp
    next
      case (Inr d')
      with spec True show ?thesis unfolding set if_P [OF True] Inr by simp
    qed
  next
    case False
    then show ?thesis unfolding set if_not_P [OF False] by simp
  qed
qed


section \<open>Runs of the service\<close>

datatype dep_op =
    OpSet uuid uuid "uuid list"
  | OpAdd uuid uuid uuid
  | OpRemove uuid uuid uuid

text \<open>A failed transaction leaves the database as it was.\<close>

definition dep_execute :: "alert_db \<Rightarrow> dep_op \<Rightarrow> alert_db" where
  "dep_execute d op =
     (case op of
        OpSet tid mid ids \<Rightarrow> (case SetDependencies tid mid ids d of Inl _ \<Rightarrow> d | Inr d' \<Rightarrow> d')
      | OpAdd tid mid u \<Rightarrow> (case AddDependency tid mid u d of Inl _ \<Rightarrow> d | Inr d' \<Rightarrow> d')
      | OpRemove tid mid u \<Rightarrow> RemoveDependency tid mid u d)"

definition same_tenant :: "alert_db \<Rightarrow> uuid \<times> uuid \<Rightarrow> bool" where
  "same_tenant d e \<longleftrightarrow> (\<exists>m \<in> set (a_monitors d). \<exists>n \<in> set (a_monitors d).
     e = (m_id m, m_id n) \<and> m_tenant_id m = m_tenant_id n)"

definition graph_ok :: "alert_monitor list \<Rightarrow> alert_db \<Rightarrow> bool" where
  "graph_ok ms d \<longleftrightarrow> a_monitors d = ms \<and> distinct (map m_id ms) \<and> acyclic (edges d) \<and> (\<forall>e \<in> edges d. same_tenant d e)"

lemma same_tenant_live: "live_in tid d a \<Longrightarrow> live_in tid d b \<Longrightarrow> same_tenant d (a, b)"
  by (fastforce simp: live_in_def same_tenant_def)

lemma same_tenant_cong: "a_monitors d' = a_monitors d \<Longrightarrow> same_tenant d' e = same_tenant d e"
  by (simp add: same_tenant_def)

lemma AddDependency_ok:
  assumes "AddDependency tid mid u d = Inr d'" "distinct (map m_id (a_monitors d))" "acyclic (edges d)"
  shows "d' = insert_dependency mid u d" "acyclic (edges d')" "live_in tid d mid" "live_in tid d u"
proof -
  have "mid \<noteq> u" "count_live tid [mid, u] d = 2" "mid \<notin> set (all_upstream d u)" and d': "d' = insert_dependency mid u d"
    using assms(1) by (auto simp: AddDependency_def split: if_splits)
  then show "acyclic (edges d')" "live_in tid d mid" "live_in tid d u"
    using count_live_all [OF assms(2), of "[mid, u]" tid] assms(3) acyclic_insert_edge [of mid u d] by auto
  show "d' = insert_dependency mid u d" by (rule d')
qed

lemma RemoveDependency_edges:
  "edges (RemoveDependency tid mid u d) \<subseteq> edges d" "a_monitors (RemoveDependency tid mid u d) = a_monitors d"
  by (auto simp: RemoveDependency_def edges_def)

lemma graph_ok_smaller:
  "graph_ok ms d \<Longrightarrow> edges d' \<subseteq> edges d \<Longrightarrow> a_monitors d' = a_monitors d \<Longrightarrow> graph_ok ms d'"
  unfolding graph_ok_def using acyclic_subset same_tenant_cong by blast

lemma graph_ok_add:
  assumes ok: "graph_ok ms d" and e: "edges d' \<subseteq> edges d \<union> new" "acyclic (edges d')" and m: "a_monitors d' = a_monitors d"
    and new: "\<forall>e \<in> new. same_tenant d e"
  shows "graph_ok ms d'"
  using ok e new unfolding graph_ok_def same_tenant_cong [OF m] m by blast

lemma SetDependencies_ok:
  assumes "SetDependencies tid mid ids d = Inr d'" "graph_ok ms d"
  shows "graph_ok ms d'"
proof -
  from assms(2) have "acyclic (edges d)" "distinct (map m_id (a_monitors d))" by (auto simp: graph_ok_def)
  from SetDependencies_spec [OF this, of mid ids tid] assms(1)
  have r: "\<forall>i \<in> insert mid (set ids). live_in tid d i" "acyclic (requested mid ids d)"
      "edges d' = requested mid ids d" "\<exists>es. d' = d\<lparr>monitor_dependencies := es\<rparr>"
    by auto
  show ?thesis
  proof (rule graph_ok_add [OF assms(2)])
    show "edges d' \<subseteq> edges d \<union> {mid} \<times> set ids" using r(3) by (auto simp: requested_def)
    show "acyclic (edges d')" using r(2,3) by simp
    show "a_monitors d' = a_monitors d" using r(4) by auto
    show "\<forall>e \<in> {mid} \<times> set ids. same_tenant d e" using r(1) by (auto intro: same_tenant_live)
  qed
qed

lemma dep_execute_ok: "graph_ok ms d \<Longrightarrow> graph_ok ms (dep_execute d op)"
proof (cases op)
  case (OpAdd tid mid u)
  assume ok: "graph_ok ms d"
  show ?thesis
  proof (cases "AddDependency tid mid u d")
    case (Inr d')
    from ok have "distinct (map m_id (a_monitors d))" "acyclic (edges d)" by (auto simp: graph_ok_def)
    note add = AddDependency_ok [OF Inr this]
    have "graph_ok ms d'"
    proof (rule graph_ok_add [OF ok _ add(2)])
      show "edges d' \<subseteq> edges d \<union> {(mid, u)}" "a_monitors d' = a_monitors d" by (simp_all add: add(1))
      show "\<forall>e \<in> {(mid, u)}. same_tenant d e" using add(3,4) by (auto intro: same_tenant_live)
    qed
    then show ?thesis by (simp add: dep_execute_def OpAdd Inr)
  qed (simp add: dep_execute_def OpAdd ok)
next
  case (OpRemove tid mid u)
  assume "graph_ok ms d"
  then have "graph_ok ms (RemoveDependency tid mid u d)" by (rule graph_ok_smaller) (rule RemoveDependency_edges)+
  then show ?thesis by (simp add: dep_execute_def OpRemove)
qed (auto simp: dep_execute_def intro: SetDependencies_ok split: sum.splits)

interpretation dependencies: machine_run dep_execute "graph_ok ms" for ms
  by unfold_locales (rule dep_execute_ok)

text \<open>
  C16. The dependency graph stays acyclic. Whatever dependencies are set, added and removed, one
  transaction after another, a graph without cycles whose edges join monitors of one tenant stays
  one.
\<close>

theorem dependencies_stay_acyclic:
  assumes "acyclic (edges d)" "distinct (map m_id (a_monitors d))" "\<forall>e \<in> edges d. same_tenant d e"
  shows "acyclic (edges (foldl dep_execute d ops)) \<and> (\<forall>e \<in> edges (foldl dep_execute d ops). same_tenant d e)"
proof -
  have "graph_ok (a_monitors d) (foldl dep_execute d ops)"
    by (rule dependencies.run_inv) (use assms in \<open>simp add: graph_ok_def\<close>)
  then show ?thesis using same_tenant_cong unfolding graph_ok_def by blast
qed

text \<open>
  A set of dependencies is accepted exactly when it is sound. On an acyclic graph with unique
  monitor identifiers, \<open>SetDependencies\<close> succeeds exactly when the monitor and all targets are live
  monitors of the tenant and replacing the monitor's edges by the requested ones leaves the graph
  acyclic; it then leaves exactly that graph and changes nothing else. Otherwise it says what is
  wrong: \<open>ErrMonitorNotFound\<close> only for a missing monitor, \<open>ErrDependencyCycle\<close> only for a cycle.
\<close>

theorem SetDependencies_exact:
  assumes acyc: "acyclic (edges d)" and ids: "distinct (map m_id (a_monitors d))"
  shows "case SetDependencies tid mid ids d of
      Inr d' \<Rightarrow> (\<forall>i \<in> insert mid (set ids). live_in tid d i) \<and> acyclic (requested mid ids d) \<and>
        edges d' = requested mid ids d \<and> (\<exists>es. d' = d\<lparr>monitor_dependencies := es\<rparr>)
    | Inl ErrMonitorNotFound \<Rightarrow> \<not> (\<forall>i \<in> insert mid (set ids). live_in tid d i)
    | Inl ErrDependencyCycle \<Rightarrow> \<not> acyclic (requested mid ids d)"
  by (rule SetDependencies_spec [OF assms])


section \<open>The root cause\<close>

text \<open>The monitors an alert may be blamed on.\<close>

definition live_down :: "alert_monitor \<Rightarrow> bool" where
  "live_down m \<longleftrightarrow> m_current_state m = StateDown \<and> m_deleted_at m = None \<and> m_enabled m"

lemma set_upstream_from:
  "set (upstream_from d n depth ids) = {(i, depth + j) |i j. j < n \<and> i \<in> (edges d ^^ j) `` set ids}"
proof (induction n arbitrary: depth ids)
  case (Suc n)
  let ?next = "remdups (concat (map (depends_on d) ids))"
  have next_set: "set ?next = edges d `` set ids" by (auto simp: set_depends_on)
  have "set (upstream_from d (Suc n) depth ids) =
      {(i, depth) |i. i \<in> set ids} \<union> {(i, depth + 1 + j) |i j. j < n \<and> i \<in> (edges d ^^ Suc j) `` set ids}"
    unfolding upstream_from.simps set_append Suc.IH next_set relpow_Image_shift by auto
  also have "\<dots> = {(i, depth + j) |i j. j < Suc n \<and> i \<in> (edges d ^^ j) `` set ids}" (is "?l = ?r")
  proof
    have "(i, depth) \<in> ?r" if "i \<in> set ids" for i
      using that by (auto intro!: exI [of _ 0])
    moreover have "(i, depth + 1 + j) \<in> ?r" if "j < n" "i \<in> (edges d ^^ Suc j) `` set ids" for i j
      using that by (auto intro!: exI [of _ "Suc j"] simp del: relpow.simps)
    ultimately show "?l \<subseteq> ?r" by blast
    show "?r \<subseteq> ?l"
    proof
      fix p
      assume "p \<in> ?r"
      then obtain i j where "p = (i, depth + j)" "j < Suc n" "i \<in> (edges d ^^ j) `` set ids" by blast
      then show "p \<in> ?l" by (cases j) (auto simp del: relpow.simps simp: relpow.simps(1))
    qed
  qed
  finally show ?case .
qed simp

lemma set_upstream: "set (upstream d mid) = {(i, k). 0 < k \<and> k \<le> 25 \<and> (mid, i) \<in> edges d ^^ k}"
proof -
  have "set (upstream d mid) = {(i, 1 + j) |i j. j < 25 \<and> (mid, i) \<in> edges d ^^ Suc j}"
    unfolding upstream_def set_upstream_from set_remdups set_depends_on relpow_Image_shift by auto
  also have "\<dots> = {(i, k). 0 < k \<and> k \<le> 25 \<and> (mid, i) \<in> edges d ^^ k}" (is "?l = ?r")
  proof
    show "?l \<subseteq> ?r" by (auto simp del: relpow.simps)
    show "?r \<subseteq> ?l"
    proof
      fix p
      assume "p \<in> ?r"
      then obtain i k where p: "p = (i, k)" "0 < k" "k \<le> 25" "(mid, i) \<in> edges d ^^ k" by blast
      then obtain j where "k = Suc j" by (cases k) auto
      with p show "p \<in> ?l" by auto
    qed
  qed
  finally show ?thesis .
qed

text \<open>The candidates with their depths, and which of them is chosen.\<close>

definition candidates :: "alert_db \<Rightarrow> uuid \<Rightarrow> (alert_monitor \<times> nat) set" where
  "candidates d mid = {(m, k). m \<in> set (a_monitors d) \<and> live_down m \<and> m_id m \<noteq> mid \<and>
     0 < k \<and> k \<le> 25 \<and> (mid, m_id m) \<in> edges d ^^ k}"

lemma hd_sort_key_min:
  assumes "x # xs = sort_key f ys"
  shows "x \<in> set ys" "\<forall>y \<in> set ys. f x \<le> f y"
proof -
  have "set (x # xs) = set ys" "sorted (map f (x # xs))" unfolding assms by simp_all
  then show "x \<in> set ys" "\<forall>y \<in> set ys. f x \<le> f y" by (fastforce simp del: set_sort)+
qed

lemma rootCause_cases:
  obtains (none) "rootCause d mid = None" "candidates d mid = {}"
    | (some) m k where "rootCause d mid = Some m" "(m, k) \<in> candidates d mid" "\<forall>(m', k') \<in> candidates d mid. k' \<le> k"
proof -
  let ?rows = "concat (map (\<lambda>(u, depth). map (\<lambda>m. (m, depth)) (filter (\<lambda>m. m_id m = u \<and>
     m_current_state m = StateDown \<and> m_deleted_at m = None \<and> m_enabled m \<and> m_id m \<noteq> mid) (a_monitors d))) (upstream d mid))"
  let ?by_time = "sort_key (\<lambda>(m, depth). if m_last_state_change_at m = None then 1 else 0 :: nat)
     (sort_key (\<lambda>(m, depth). case m_last_state_change_at m of None \<Rightarrow> 0 | Some t \<Rightarrow> t) ?rows)"
  let ?by_depth = "sort_key (\<lambda>(m, depth). - int depth) ?by_time"
  have rows: "set ?rows = candidates d mid"
    using set_upstream [of d mid] by (force simp: candidates_def live_down_def)
  have rc: "rootCause d mid = (case ?by_depth of [] \<Rightarrow> None | (m, _) # _ \<Rightarrow> Some m)"
    by (simp add: rootCause_def Let_def)
  show thesis
  proof (cases ?by_depth)
    case Nil
    have "set ?by_depth = candidates d mid" unfolding set_sort by (rule rows)
    then have "candidates d mid = {}" unfolding Nil by simp
    with Nil show thesis by (intro none) (simp_all add: rc)
  next
    case (Cons x xs)
    obtain m k where x: "x = (m, k)" by (cases x)
    note min = hd_sort_key_min [OF Cons [symmetric]]
    have "(m, k) \<in> candidates d mid" using min(1) unfolding x set_sort rows .
    moreover have "\<forall>(m', k') \<in> candidates d mid. k' \<le> k" using min(2) unfolding x set_sort rows by auto
    ultimately show thesis using Cons by (intro some) (simp_all add: rc x)
  qed
qed


text \<open>A walk longer than the limit has a prefix of exactly the limit and one.\<close>

lemma relpow_prefix:
  fixes R :: "'a rel"
  shows "(x, z) \<in> R ^^ (j + k) \<Longrightarrow> \<exists>y. (x, y) \<in> R ^^ j"
  by (auto simp: relpow_add)

lemma relpow_stops:
  fixes R :: "'a rel"
  shows "(R ^^ j) `` {x} = {} \<Longrightarrow> (R ^^ (j + k)) `` {x} = {}"
  using relpow_prefix [of x _ j k R] by auto

lemma acyclic_relpow: "acyclic R \<Longrightarrow> 0 < k \<Longrightarrow> (x, x) \<notin> R ^^ k"
  unfolding acyclic_def trancl_power by blast

lemma candidates_reachable:
  assumes acyc: "acyclic (edges d)" and short: "(edges d ^^ 26) `` {mid} = {}"
  shows "(\<exists>k. (m, k) \<in> candidates d mid) \<longleftrightarrow> m \<in> set (a_monitors d) \<and> live_down m \<and> (mid, m_id m) \<in> (edges d)\<^sup>+"
    and "(m, k) \<in> candidates d mid \<Longrightarrow> m' \<in> set (a_monitors d) \<Longrightarrow> live_down m' \<Longrightarrow> (m_id m, m_id m') \<in> (edges d)\<^sup>+ \<Longrightarrow>
      \<exists>k' > k. (m', k') \<in> candidates d mid"
proof -
  have bound: "k \<le> 25" if "(mid, i) \<in> edges d ^^ k" for i k
  proof (rule ccontr)
    assume "\<not> k \<le> 25"
    then obtain j where "k = 26 + j" using le_Suc_ex [of 26 k] by auto
    with that relpow_prefix [of mid i 26 j "edges d"] short show False by (auto simp del: relpow.simps)
  qed
  have walk: "(m, k) \<in> candidates d mid" if "m \<in> set (a_monitors d)" "live_down m" "0 < k" "(mid, m_id m) \<in> edges d ^^ k" for m k
    using that bound [OF that(4)] acyclic_relpow [OF acyc that(3)] by (auto simp: candidates_def)
  show "(\<exists>k. (m, k) \<in> candidates d mid) \<longleftrightarrow> m \<in> set (a_monitors d) \<and> live_down m \<and> (mid, m_id m) \<in> (edges d)\<^sup>+"
    using walk by (auto simp: trancl_power candidates_def)
  assume "(m, k) \<in> candidates d mid" and m': "m' \<in> set (a_monitors d)" "live_down m'" "(m_id m, m_id m') \<in> (edges d)\<^sup>+"
  then obtain j where "0 < j" "(m_id m, m_id m') \<in> edges d ^^ j" "(mid, m_id m) \<in> edges d ^^ k"
    by (auto simp: trancl_power candidates_def)
  then have "(mid, m_id m') \<in> edges d ^^ (k + j)" by (auto simp: relpow_add)
  from walk [OF m'(1,2) _ this] \<open>0 < j\<close> show "\<exists>k' > k. (m', k') \<in> candidates d mid" by (auto intro: exI [of _ "k + j"])
qed

text \<open>
  The root cause is a root. On an acyclic graph with no chain of more than 25 dependencies above
  the monitor, the root cause of its outage is a live monitor that is down, that the monitor
  depends on directly or not, and that itself depends on nothing that is down; and there is none
  only if nothing the monitor depends on is down.
\<close>

theorem rootCause_is_a_root:
  assumes "acyclic (edges d)" "(edges d ^^ 26) `` {mid} = {}"
  shows "case rootCause d mid of
      Some m \<Rightarrow> m \<in> set (a_monitors d) \<and> live_down m \<and> (mid, m_id m) \<in> (edges d)\<^sup>+ \<and>
        (\<forall>m' \<in> set (a_monitors d). live_down m' \<longrightarrow> (m_id m, m_id m') \<notin> (edges d)\<^sup>+)
    | None \<Rightarrow> \<forall>m \<in> set (a_monitors d). live_down m \<longrightarrow> (mid, m_id m) \<notin> (edges d)\<^sup>+"
proof (cases rule: rootCause_cases [of d mid])
  case none
  then show ?thesis using candidates_reachable(1) [OF assms] by auto
next
  case (some m k)
  have "\<not> k' > k" if "(m', k') \<in> candidates d mid" for m' k' using some(3) that by auto
  then have "\<forall>m' \<in> set (a_monitors d). live_down m' \<longrightarrow> (m_id m, m_id m') \<notin> (edges d)\<^sup>+"
    using candidates_reachable(2) [OF assms some(2)] by blast
  then show ?thesis using candidates_reachable(1) [OF assms, of m] some(1,2) by auto
qed


section \<open>Witnesses\<close>

text \<open>Monitor 13 depends on 12, which depends on 11; 11 and 12 are down. Monitor 14 is a live bystander.\<close>

definition chain_db :: alert_db where
  "chain_db = alert_sample_db\<lparr>
     a_monitors := map (\<lambda>(i, st). alert_sample_monitor i ''http'' ''per_monitor'' st)
       [(11, StateDown), (12, StateDown), (13, StateUp), (14, StateUp)],
     monitor_dependencies := [(13, 12), (12, 11)]\<rparr>"

lemma edges_chain: "edges chain_db = {(13, 12), (12, 11)}"
  by (auto simp: edges_def chain_db_def)

lemma chain_ok:
  "acyclic (edges chain_db)" "distinct (map m_id (a_monitors chain_db))" "\<forall>e \<in> edges chain_db. same_tenant chain_db e"
proof -
  show "acyclic (edges chain_db)" unfolding edges_chain
    by (rule acyclicI_order [where f = "\<lambda>x :: uuid. x"]) auto
  show "distinct (map m_id (a_monitors chain_db))" by (simp add: chain_db_def alert_sample_defs)
  show "\<forall>e \<in> edges chain_db. same_tenant chain_db e"
    unfolding edges_chain by (simp add: same_tenant_def chain_db_def alert_sample_defs)
qed

theorem SetDependencies_exact_witness:
  "SetDependencies 1 11 [13] chain_db = Inl ErrDependencyCycle \<and> \<not> acyclic (requested 11 [13] chain_db) \<and>
   (\<exists>d'. SetDependencies 1 13 [14, 11] chain_db = Inr d' \<and> edges d' = {(12, 11), (13, 14), (13, 11)})"
proof -
  have "SetDependencies 1 11 [13] chain_db = Inl ErrDependencyCycle" by code_simp
  moreover from SetDependencies_exact [OF chain_ok(1,2), of 11 "[13]" 1] this
  have "\<not> acyclic (requested 11 [13] chain_db)" by simp
  moreover have "\<not> isl (SetDependencies 1 13 [14, 11] chain_db)" by code_simp
  then obtain d' where d': "SetDependencies 1 13 [14, 11] chain_db = Inr d'"
    by (cases "SetDependencies 1 13 [14, 11] chain_db") auto
  moreover from SetDependencies_exact [OF chain_ok(1,2), of 13 "[14, 11]" 1]
  have "edges d' = requested 13 [14, 11] chain_db" unfolding d' sum.case by (elim conjE)
  moreover have "requested 13 [14, 11] chain_db = {(12, 11), (13, 14), (13, 11)}"
    by (auto simp: requested_def edges_chain)
  ultimately show ?thesis by metis
qed

theorem dependencies_stay_acyclic_witness:
  "let d' = foldl dep_execute chain_db [OpAdd 1 11 13, OpAdd 1 13 14, OpRemove 1 13 12, OpSet 1 14 [11, 12]] in
     acyclic (edges d') \<and> (\<forall>e \<in> edges d'. same_tenant chain_db e) \<and> monitor_dependencies d' = [(12, 11), (13, 14), (14, 11), (14, 12)]"
proof -
  let ?ops = "[OpAdd 1 11 13, OpAdd 1 13 14, OpRemove 1 13 12, OpSet 1 14 [11, 12]]"
  have "monitor_dependencies (foldl dep_execute chain_db ?ops) = [(12, 11), (13, 14), (14, 11), (14, 12)]" by code_simp
  with dependencies_stay_acyclic [OF chain_ok, of ?ops] show ?thesis unfolding Let_def by blast
qed

theorem rootCause_is_a_root_witness:
  "\<exists>m. rootCause chain_db 13 = Some m \<and> m_id m = 11 \<and>
     (\<forall>m' \<in> set (a_monitors chain_db). live_down m' \<longrightarrow> (11, m_id m') \<notin> (edges chain_db)\<^sup>+)"
proof -
  have "(edges chain_db ^^ 3) `` {13} = {}"
    unfolding numeral_3_eq_3 relpow_Image_shift [symmetric] edges_chain by (auto simp: Image_def)
  then have "(edges chain_db ^^ (3 + 23)) `` {13} = {}" by (rule relpow_stops)
  moreover have "(3 + 23 :: nat) = 26" by simp
  ultimately have short: "(edges chain_db ^^ 26) `` {13} = {}" by (simp only:)
  have "map_option m_id (rootCause chain_db 13) = Some 11" by code_simp
  then obtain m where "rootCause chain_db 13 = Some m" "m_id m = 11" by auto
  with rootCause_is_a_root [OF chain_ok(1) short] show ?thesis by auto
qed

end
