(* ===== verification/Netguard.thy ===== *)
theory Netguard
  imports Bytes
begin

text \<open>
  The outbound-connection policy (\<open>shared/netguard/netguard.go\<close>): which resolved addresses a checker or
  a notification plugin may dial, and the stricter check for an address that a remote server chose.
  An address is Go's \<open>net.IP\<close>, a list of 4 or 16 octets; the empty list is \<open>nil\<close>. The methods of
  \<open>net.IP\<close> and \<open>net.IPNet\<close> the policy calls are modelled after the standard library. The literals
  of the range tables are written as octets.
\<close>

section \<open>Addresses\<close>

definition v4InV6Prefix :: bytes where
  "v4InV6Prefix = replicate 10 0 @ [0xff, 0xff]"

definition To4 :: "bytes \<Rightarrow> bytes" where
  "To4 ip = (if length ip = 4 then ip else if length ip = 16 \<and> take 12 ip = v4InV6Prefix then drop 12 ip else [])"

definition IPv4 :: "byte \<Rightarrow> byte \<Rightarrow> byte \<Rightarrow> byte \<Rightarrow> bytes" where
  "IPv4 a b c d = v4InV6Prefix @ [a, b, c, d]"

definition Equal :: "bytes \<Rightarrow> bytes \<Rightarrow> bool" where
  "Equal ip x \<longleftrightarrow>
     (if length ip = length x then ip = x
      else if length ip = 4 \<and> length x = 16 then take 12 x = v4InV6Prefix \<and> ip = drop 12 x
      else if length ip = 16 \<and> length x = 4 then take 12 ip = v4InV6Prefix \<and> drop 12 ip = x
      else False)"

definition IsUnspecified :: "bytes \<Rightarrow> bool" where
  "IsUnspecified ip \<longleftrightarrow> Equal ip (IPv4 0 0 0 0) \<or> Equal ip (replicate 16 0)"

definition IsLoopback :: "bytes \<Rightarrow> bool" where
  "IsLoopback ip \<longleftrightarrow> (if To4 ip \<noteq> [] then To4 ip ! 0 = 127 else Equal ip (replicate 15 0 @ [1]))"

definition IsMulticast :: "bytes \<Rightarrow> bool" where
  "IsMulticast ip \<longleftrightarrow> (if To4 ip \<noteq> [] then To4 ip ! 0 AND 0xf0 = 0xe0 else length ip = 16 \<and> ip ! 0 = 0xff)"

definition IsLinkLocalUnicast :: "bytes \<Rightarrow> bool" where
  "IsLinkLocalUnicast ip \<longleftrightarrow>
     (if To4 ip \<noteq> [] then To4 ip ! 0 = 169 \<and> To4 ip ! 1 = 254
      else length ip = 16 \<and> ip ! 0 = 0xfe \<and> ip ! 1 AND 0xc0 = 0x80)"

record IPNet =
  n_IP :: bytes
  n_Mask :: bytes

definition networkNumberAndMask :: "IPNet \<Rightarrow> bytes \<times> bytes" where
  "networkNumberAndMask n =
     (let ip = (if To4 (n_IP n) \<noteq> [] then To4 (n_IP n) else if length (n_IP n) = 16 then n_IP n else []) in
      if ip = [] then ([], [])
      else if length (n_Mask n) = 4 then (if length ip = 4 then (ip, n_Mask n) else ([], []))
      else if length (n_Mask n) = 16 then (ip, if length ip = 4 then drop 12 (n_Mask n) else n_Mask n)
      else ([], []))"

definition Contains :: "IPNet \<Rightarrow> bytes \<Rightarrow> bool" where
  "Contains n ip0 \<longleftrightarrow>
     (let (nn, m) = networkNumberAndMask n; ip = (if To4 ip0 \<noteq> [] then To4 ip0 else ip0) in
      length ip = length nn \<and> list_all (\<lambda>((x, k), y). x AND k = y AND k) (zip (zip nn m) ip))"

fun CIDRMask :: "nat \<Rightarrow> nat \<Rightarrow> bytes" where
  "CIDRMask n 0 = []"
| "CIDRMask n (Suc l) = (if n \<ge> 8 then 0xff # CIDRMask (n - 8) l else NOT (drop_bit n 0xff) # CIDRMask 0 l)"

text \<open>What \<open>net.ParseCIDR\<close> makes of an address and a prefix length.\<close>

definition cidr :: "bytes \<Rightarrow> nat \<Rightarrow> IPNet" where
  "cidr ip n = (let m = CIDRMask n (length ip) in \<lparr>n_IP = map2 (AND) ip m, n_Mask = m\<rparr>)"

section \<open>The policy\<close>

definition privateCIDRs :: "IPNet list" where
  "privateCIDRs =
    [cidr [10, 0, 0, 0] 8, cidr [172, 16, 0, 0] 12, cidr [192, 168, 0, 0] 16, cidr [127, 0, 0, 0] 8,
     cidr [169, 254, 0, 0] 16, cidr [100, 64, 0, 0] 10, cidr [192, 0, 0, 0] 24, cidr [192, 0, 2, 0] 24,
     cidr [198, 51, 100, 0] 24, cidr [203, 0, 113, 0] 24, cidr [224, 0, 0, 0] 4, cidr [240, 0, 0, 0] 4,
     cidr (replicate 15 0 @ [1]) 128, cidr (0xfc # replicate 15 0) 7, cidr (0xfe # 0x80 # replicate 14 0) 10]"

definition thisNetwork :: IPNet where "thisNetwork = cidr [0, 0, 0, 0] 8"

definition classE :: IPNet where "classE = cidr [240, 0, 0, 0] 4"

definition nat64WellKnown :: IPNet where
  "nat64WellKnown = cidr ([0x00, 0x64, 0xff, 0x9b] @ replicate 12 0) 96"

definition nat64LocalUse :: IPNet where
  "nat64LocalUse = cidr ([0x00, 0x64, 0xff, 0x9b, 0x00, 0x01] @ replicate 10 0) 48"

definition sixToFour :: IPNet where
  "sixToFour = cidr ([0x20, 0x02] @ replicate 14 0) 16"

definition serverChosenReservedCIDRs :: "IPNet list" where
  "serverChosenReservedCIDRs =
    [nat64LocalUse, cidr ([0x20, 0x01] @ replicate 14 0) 32, cidr ([0x20, 0x01, 0x0d, 0xb8] @ replicate 12 0) 32]"

definition IsPrivateOrReserved :: "bytes \<Rightarrow> bool" where
  "IsPrivateOrReserved ip \<longleftrightarrow> list_ex (\<lambda>n. Contains n ip) privateCIDRs"

text \<open>The list may hold nil pointers.\<close>

definition inCIDRs :: "IPNet option list \<Rightarrow> bytes \<Rightarrow> bool" where
  "inCIDRs cidrs ip \<longleftrightarrow> list_ex (\<lambda>n. case n of None \<Rightarrow> False | Some n \<Rightarrow> Contains n ip) cidrs"

record Policy =
  BlockPrivate :: bool
  AllowedCIDRs :: "IPNet option list"

definition Allows :: "Policy \<Rightarrow> bytes \<Rightarrow> bool" where
  "Allows p ip \<longleftrightarrow>
     (if ip = [] then False
      else if \<not> BlockPrivate p then True
      else if inCIDRs (AllowedCIDRs p) ip then True
      else if IsLoopback ip \<or> IsUnspecified ip \<or> IsMulticast ip then False
      else \<not> IsPrivateOrReserved ip)"

section \<open>Addresses a server chose\<close>

definition embeddedIPv4 :: "bytes \<Rightarrow> bytes" where
  "embeddedIPv4 ip =
     (if To4 ip \<noteq> [] then []
      else if Contains nat64WellKnown ip \<or> Contains nat64LocalUse ip then IPv4 (ip ! 12) (ip ! 13) (ip ! 14) (ip ! 15)
      else if Contains sixToFour ip then IPv4 (ip ! 2) (ip ! 3) (ip ! 4) (ip ! 5)
      else [])"

text \<open>A refusal is its reason; the empty string is none.\<close>

definition hardRefusal :: "bytes \<Rightarrow> string" where
  "hardRefusal ip =
     (if IsUnspecified ip \<or> Contains thisNetwork ip then ''unspecified''
      else if IsMulticast ip \<or> Contains classE ip then ''multicast''
      else if IsLinkLocalUnicast ip then ''link_local''
      else '''')"

definition serverChosenRefusal :: "Policy \<Rightarrow> bytes \<Rightarrow> bytes \<Rightarrow> string" where
  "serverChosenRefusal p ip peer =
     (if IsLoopback ip \<and> \<not> IsLoopback peer then ''loopback''
      else
        let listed = inCIDRs (AllowedCIDRs p) ip;
            extra = inCIDRs (map Some serverChosenReservedCIDRs) ip in
        if \<not> Allows p ip \<or> (BlockPrivate p \<and> extra \<and> \<not> listed) then ''blocked_by_policy''
        else if (IsPrivateOrReserved ip \<or> extra) \<and> \<not> IsPrivateOrReserved peer \<and> \<not> listed then ''private_behind_public''
        else '''')"

record UDPAddr =
  u_IP :: bytes
  u_Port :: int

definition first_refusal :: "(bytes \<Rightarrow> string) \<Rightarrow> bytes list \<Rightarrow> string option" where
  "first_refusal f ips = find (\<lambda>r. r \<noteq> '''') (map f ips)"

definition judged :: "bytes \<Rightarrow> bytes list" where
  "judged ip = ip # (if embeddedIPv4 ip \<noteq> [] then [embeddedIPv4 ip] else [])"

text \<open>\<open>None\<close> is the nil error: the destination is allowed.\<close>

definition AllowsServerChosen :: "Policy \<Rightarrow> UDPAddr option \<Rightarrow> bytes \<Rightarrow> string option" where
  "AllowsServerChosen p dst peer =
     (case dst of None \<Rightarrow> Some ''unspecified'' | Some u \<Rightarrow>
        if length (u_IP u) \<noteq> 4 \<and> length (u_IP u) \<noteq> 16 then Some ''unspecified''
        else if u_Port u < 1024 \<or> u_Port u > 65535 then Some ''port''
        else (case first_refusal hardRefusal (judged (u_IP u)) of
            Some r \<Rightarrow> Some r
          | None \<Rightarrow>
              if Equal (u_IP u) peer then None
              else first_refusal (\<lambda>ip. serverChosenRefusal p ip peer) (judged (u_IP u))))"

section \<open>The dialer\<close>

text \<open>
  The splitting of an address, the parsing of a literal, the resolver and the system's dialer are
  arguments. A dialer that succeeds has opened a connection to what it was given: the address as
  written, or one resolved octet string with the port.
\<close>

datatype dial_target = Address string | Resolved bytes string

datatype dial_error = SplitError | Blocked | LookupError | DialError | NoResolvedIPs

fun dial_each :: "Policy \<Rightarrow> (dial_target \<Rightarrow> bool) \<Rightarrow> string \<Rightarrow> bytes list \<Rightarrow> dial_error option \<Rightarrow> (dial_error + dial_target) \<times> dial_target list" where
  "dial_each p dial port [] lastErr = (Inl (case lastErr of None \<Rightarrow> NoResolvedIPs | Some e \<Rightarrow> e), [])"
| "dial_each p dial port (ip # ips) lastErr =
     (if \<not> Allows p ip then dial_each p dial port ips (Some Blocked)
      else if dial (Resolved ip port) then (Inr (Resolved ip port), [Resolved ip port])
      else (let (r, tried) = dial_each p dial port ips (Some DialError) in (r, Resolved ip port # tried)))"

definition dial_address :: "(dial_target \<Rightarrow> bool) \<Rightarrow> string \<Rightarrow> (dial_error + dial_target) \<times> dial_target list" where
  "dial_address dial address = (if dial (Address address) then Inr (Address address) else Inl DialError, [Address address])"

text \<open>The result with everything that was dialled on the way.\<close>

definition DialContext ::
  "Policy \<Rightarrow> (string \<Rightarrow> (string \<times> string) option) \<Rightarrow> (string \<Rightarrow> bytes option) \<Rightarrow> (string \<Rightarrow> bytes list option) \<Rightarrow>
   (dial_target \<Rightarrow> bool) \<Rightarrow> string \<Rightarrow> (dial_error + dial_target) \<times> dial_target list" where
  "DialContext p split_host_port parse_ip lookup dial address =
     (if \<not> BlockPrivate p then dial_address dial address
      else (case split_host_port address of
          None \<Rightarrow> (Inl SplitError, [])
        | Some (host, port) \<Rightarrow>
            (case parse_ip host of
               Some ip \<Rightarrow> if \<not> Allows p ip then (Inl Blocked, []) else dial_address dial address
             | None \<Rightarrow>
                 (case lookup host of
                    None \<Rightarrow> (Inl LookupError, [])
                  | Some ips \<Rightarrow> dial_each p dial port ips None))))"


section \<open>Ranges\<close>

lemma To4_length: "To4 ip \<noteq> [] \<Longrightarrow> length (To4 ip) = 4"
  by (auto simp: To4_def v4InV6Prefix_def split: if_splits)

lemma To4_octets:
  assumes "To4 ip \<noteq> []"
  obtains a b c d where "To4 ip = [a, b, c, d]"
  using To4_length [OF assms] by (auto simp: length_Suc_conv numeral_eq_Suc)

lemma To4_four [simp]: "To4 [a, b, c, d] = [a, b, c, d]"
  by (simp add: To4_def)

lemma To4_mapped [simp]: "To4 (IPv4 a b c d) = [a, b, c, d]"
  by (simp add: To4_def IPv4_def v4InV6Prefix_def)

text \<open>A network as its number and mask.\<close>

definition in_net :: "bytes \<times> bytes \<Rightarrow> bytes \<Rightarrow> bool" where
  "in_net nm ip \<longleftrightarrow> length ip = length (fst nm) \<and> list_all (\<lambda>((x, k), y). x AND k = y AND k) (zip (zip (fst nm) (snd nm)) ip)"

lemma Contains_in_net: "Contains n ip \<longleftrightarrow> in_net (networkNumberAndMask n) (if To4 ip \<noteq> [] then To4 ip else ip)"
  by (simp add: Contains_def in_net_def Let_def case_prod_beta)

lemma Contains_To4: "To4 ip = [a, b, c, d] \<Longrightarrow> Contains n ip \<longleftrightarrow> in_net (networkNumberAndMask n) [a, b, c, d]"
  by (simp add: Contains_in_net)

text \<open>The tables, parsed.\<close>

lemma private_nets: "map networkNumberAndMask privateCIDRs =
  [([10, 0, 0, 0], [255, 0, 0, 0]), ([172, 16, 0, 0], [255, 240, 0, 0]), ([192, 168, 0, 0], [255, 255, 0, 0]),
   ([127, 0, 0, 0], [255, 0, 0, 0]), ([169, 254, 0, 0], [255, 255, 0, 0]), ([100, 64, 0, 0], [255, 192, 0, 0]),
   ([192, 0, 0, 0], [255, 255, 255, 0]), ([192, 0, 2, 0], [255, 255, 255, 0]),
   ([198, 51, 100, 0], [255, 255, 255, 0]), ([203, 0, 113, 0], [255, 255, 255, 0]),
   ([224, 0, 0, 0], [240, 0, 0, 0]), ([240, 0, 0, 0], [240, 0, 0, 0]),
   ([0, 0, 0, 0, 0, 0, 0, 0, 0, 0, 0, 0, 0, 0, 0, 1], replicate 16 255),
   ([252, 0, 0, 0, 0, 0, 0, 0, 0, 0, 0, 0, 0, 0, 0, 0], [254, 0, 0, 0, 0, 0, 0, 0, 0, 0, 0, 0, 0, 0, 0, 0]),
   ([254, 128, 0, 0, 0, 0, 0, 0, 0, 0, 0, 0, 0, 0, 0, 0], [255, 192, 0, 0, 0, 0, 0, 0, 0, 0, 0, 0, 0, 0, 0, 0])]"
  by code_simp

lemma special_nets:
  "networkNumberAndMask thisNetwork = ([0, 0, 0, 0], [255, 0, 0, 0])"
  "networkNumberAndMask classE = ([240, 0, 0, 0], [240, 0, 0, 0])"
  "networkNumberAndMask nat64WellKnown = ([0, 100, 255, 155, 0, 0, 0, 0, 0, 0, 0, 0, 0, 0, 0, 0],
     [255, 255, 255, 255, 255, 255, 255, 255, 255, 255, 255, 255, 0, 0, 0, 0])"
  "networkNumberAndMask nat64LocalUse = ([0, 100, 255, 155, 0, 1, 0, 0, 0, 0, 0, 0, 0, 0, 0, 0],
     [255, 255, 255, 255, 255, 255, 0, 0, 0, 0, 0, 0, 0, 0, 0, 0])"
  "networkNumberAndMask sixToFour = ([32, 2, 0, 0, 0, 0, 0, 0, 0, 0, 0, 0, 0, 0, 0, 0],
     [255, 255, 0, 0, 0, 0, 0, 0, 0, 0, 0, 0, 0, 0, 0, 0])"
  by code_simp+

lemma IsPrivateOrReserved_nets:
  "IsPrivateOrReserved ip \<longleftrightarrow> list_ex (\<lambda>nm. in_net nm (if To4 ip \<noteq> [] then To4 ip else ip)) (map networkNumberAndMask privateCIDRs)"
  by (simp add: IsPrivateOrReserved_def Contains_in_net list_ex_iff)

text \<open>A masked octet.\<close>

lemma unat_and_not_mask: "unat ((y :: byte) AND NOT (mask k)) = 2 ^ k * (unat y div 2 ^ k)"
proof -
  have "y AND NOT (mask k) = push_bit k (drop_bit k y)"
    by (rule bit_word_eqI) (auto simp: bit_simps)
  then have "unat (y AND NOT (mask k)) = take_bit 8 (push_bit k (drop_bit k (unat y)))"
    by (simp only: unsigned_push_bit_eq unat_drop_bit_eq) simp
  also have "push_bit k (drop_bit k (unat y)) = 2 ^ k * (unat y div 2 ^ k)"
    by (simp only: push_bit_eq_mult drop_bit_eq_div mult.commute)
  also have "take_bit 8 (2 ^ k * (unat y div 2 ^ k)) = 2 ^ k * (unat y div 2 ^ k)"
  proof (rule take_bit_nat_eq_self)
    have "2 ^ k * (unat y div 2 ^ k) \<le> unat y" by simp
    also have "unat y < 2 ^ 8" using unsigned_less [of y] by simp
    finally show "2 ^ k * (unat y div 2 ^ k) < 2 ^ 8" .
  qed
  finally show ?thesis .
qed

lemma octet_masks:
  "unat ((y :: byte) AND 240) = 16 * (unat y div 16)" "unat (y AND 192) = 64 * (unat y div 64)"
proof -
  have m: "(240 :: byte) = NOT (mask 4)" "(192 :: byte) = NOT (mask 6)" by code_simp+
  show "unat (y AND 240) = 16 * (unat y div 16)" "unat (y AND 192) = 64 * (unat y div 64)"
    unfolding m unat_and_not_mask by simp_all
qed

lemma octet_eq: "(x :: byte) = y \<longleftrightarrow> unat x = unat y"
  by (rule word_unat_eq_iff)

lemma octet_range: "unat (x :: byte) < 256"
  using unsigned_less [of x] by simp

text \<open>A whole octet and an ignored one.\<close>

lemma octet_full [simp]: "(x :: byte) AND 255 = x" "(x :: byte) AND 0 = 0"
proof -
  have "(255 :: byte) = - 1" by simp
  then show "x AND 255 = x" by (simp only: and.right_neutral)
qed simp

lemma private_octets:
  assumes "To4 ip = [a, b, c, d]"
  shows "IsPrivateOrReserved ip \<longleftrightarrow>
    unat a = 10 \<or> unat a = 172 \<and> unat b div 16 = 1 \<or> unat a = 192 \<and> unat b = 168 \<or> unat a = 127 \<or>
    unat a = 169 \<and> unat b = 254 \<or> unat a = 100 \<and> unat b div 64 = 1 \<or> unat a = 192 \<and> unat b = 0 \<and> unat c = 0 \<or>
    unat a = 192 \<and> unat b = 0 \<and> unat c = 2 \<or> unat a = 198 \<and> unat b = 51 \<and> unat c = 100 \<or>
    unat a = 203 \<and> unat b = 0 \<and> unat c = 113 \<or> unat a div 16 = 14 \<or> unat a div 16 = 15"
  unfolding IsPrivateOrReserved_nets private_nets
  by (simp add: assms in_net_def octet_masks octet_eq)


text \<open>An IPv4 address as a number, and the reserved ranges as bounds.\<close>

definition address :: "bytes \<Rightarrow> nat" where
  "address ip = foldl (\<lambda>n b. n * 256 + unat b) 0 ip"

definition reserved_ranges :: "(bytes \<times> bytes) list" where
  "reserved_ranges =
    [([10, 0, 0, 0], [10, 255, 255, 255]), ([172, 16, 0, 0], [172, 31, 255, 255]),
     ([192, 168, 0, 0], [192, 168, 255, 255]), ([127, 0, 0, 0], [127, 255, 255, 255]),
     ([169, 254, 0, 0], [169, 254, 255, 255]), ([100, 64, 0, 0], [100, 127, 255, 255]),
     ([192, 0, 0, 0], [192, 0, 0, 255]), ([192, 0, 2, 0], [192, 0, 2, 255]),
     ([198, 51, 100, 0], [198, 51, 100, 255]), ([203, 0, 113, 0], [203, 0, 113, 255]),
     ([224, 0, 0, 0], [255, 255, 255, 255])]"

definition reserved4 :: "bytes \<Rightarrow> bool" where
  "reserved4 v4 \<longleftrightarrow> (\<exists>(lo, hi) \<in> set reserved_ranges. address lo \<le> address v4 \<and> address v4 \<le> address hi)"

lemma digit_le:
  fixes A B :: nat
  assumes "p < 256" "q < 256"
  shows "A * 256 + p \<le> B * 256 + q \<longleftrightarrow> A < B \<or> A = B \<and> p \<le> q"
    "A * 256 + p < B * 256 + q \<longleftrightarrow> A < B \<or> A = B \<and> p < q"
    "A * 256 + p = B * 256 + q \<longleftrightarrow> A = B \<and> p = q"
proof -
  show "A * 256 + p = B * 256 + q \<longleftrightarrow> A = B \<and> p = q"
  proof
    assume eq: "A * 256 + p = B * 256 + q"
    then have "A = B" using assms by linarith
    with eq show "A = B \<and> p = q" by simp
  qed simp
qed (use assms in linarith)+

lemma address_le:
  "address [a, b, c, d] \<le> address [a', b', c', d'] \<longleftrightarrow> unat a < unat a' \<or> unat a = unat a' \<and>
     (unat b < unat b' \<or> unat b = unat b' \<and> (unat c < unat c' \<or> unat c = unat c' \<and> unat d \<le> unat d'))"
  unfolding address_def foldl.simps mult_0 add_0 by (simp only: digit_le octet_range) blast

text \<open>Ranges that fix the first octets.\<close>

lemma address_range1:
  "address [p, 0, 0, 0] \<le> address [a, b, c, d] \<and> address [a, b, c, d] \<le> address [p', 255, 255, 255] \<longleftrightarrow>
    unat p \<le> unat a \<and> unat a \<le> unat p'"
  unfolding address_le using octet_range [of b] octet_range [of c] octet_range [of d] by auto

lemma address_range2:
  "address [p, q, 0, 0] \<le> address [a, b, c, d] \<and> address [a, b, c, d] \<le> address [p, q', 255, 255] \<longleftrightarrow>
    unat a = unat p \<and> unat q \<le> unat b \<and> unat b \<le> unat q'"
  unfolding address_le using octet_range [of c] octet_range [of d] by auto

lemma address_range3:
  "address [p, q, r, 0] \<le> address [a, b, c, d] \<and> address [a, b, c, d] \<le> address [p, q, r, 255] \<longleftrightarrow>
    unat a = unat p \<and> unat b = unat q \<and> unat c = unat r"
  unfolding address_le using octet_range [of d] by auto

lemma octet_div:
  fixes n :: nat
  shows "n div 16 = 1 \<longleftrightarrow> 16 \<le> n \<and> n \<le> 31" "n div 64 = 1 \<longleftrightarrow> 64 \<le> n \<and> n \<le> 127"
    "n div 16 = 14 \<or> n div 16 = 15 \<longleftrightarrow> 224 \<le> n \<and> n \<le> 255"
  by auto

lemma reserved4_octets:
  "reserved4 [a, b, c, d] \<longleftrightarrow>
    unat a = 10 \<or> unat a = 172 \<and> unat b div 16 = 1 \<or> unat a = 192 \<and> unat b = 168 \<or> unat a = 127 \<or>
    unat a = 169 \<and> unat b = 254 \<or> unat a = 100 \<and> unat b div 64 = 1 \<or> unat a = 192 \<and> unat b = 0 \<and> unat c = 0 \<or>
    unat a = 192 \<and> unat b = 0 \<and> unat c = 2 \<or> unat a = 198 \<and> unat b = 51 \<and> unat c = 100 \<or>
    unat a = 203 \<and> unat b = 0 \<and> unat c = 113 \<or> unat a div 16 = 14 \<or> unat a div 16 = 15"
proof -
  have eq: "unat p \<le> unat a \<and> unat a \<le> unat p \<longleftrightarrow> unat a = unat p" for p a :: byte by auto
  show ?thesis
    unfolding reserved4_def reserved_ranges_def list.set bex_simps prod.case octet_div
    unfolding address_range3 address_range2 address_range1 eq
    using octet_range [of b] by simp
qed

lemma private_reserved:
  assumes "To4 ip \<noteq> []"
  shows "IsPrivateOrReserved ip \<longleftrightarrow> reserved4 (To4 ip)"
proof -
  from To4_octets [OF assms] obtain a b c d where v4: "To4 ip = [a, b, c, d]" .
  show ?thesis unfolding private_octets [OF v4] v4 reserved4_octets ..
qed


section \<open>Properties\<close>

text \<open>
  C26. The range table is the documented one. For an address with an IPv4 reading,
  \<open>IsPrivateOrReserved\<close> says whether the 32-bit address lies between the bounds of one of the
  private, loopback, link-local, carrier-grade NAT, documentation, multicast or reserved ranges.
\<close>

theorem IsPrivateOrReserved_ranges:
  assumes "To4 ip \<noteq> []"
  shows "IsPrivateOrReserved ip \<longleftrightarrow>
    (\<exists>(lo, hi) \<in> set reserved_ranges. address lo \<le> address (To4 ip) \<and> address (To4 ip) \<le> address hi)"
  using private_reserved [OF assms] by (simp add: reserved4_def)

theorem IsPrivateOrReserved_ranges_witness:
  "IsPrivateOrReserved (IPv4 172 31 0 1) \<and> \<not> IsPrivateOrReserved [172, 32, 0, 1]"
proof -
  have "To4 (IPv4 172 31 0 1) \<noteq> []" "To4 [172, 32, 0, 1] \<noteq> []" by simp_all
  from this [THEN IsPrivateOrReserved_ranges] show ?thesis
    by (simp add: reserved_ranges_def address_def)
qed

text \<open>
  The ways of writing an IPv4 address into a destination: its four octets, mapped into IPv6, behind
  the well-known or the local NAT64 prefix (\<open>mid\<close> is the rest of that prefix), and as a 6to4 address
  with any rest.
\<close>

inductive_set forms :: "bytes \<Rightarrow> bytes set" for v4 :: bytes where
  plain: "v4 \<in> forms v4"
| mapped: "v4InV6Prefix @ v4 \<in> forms v4"
| nat64: "[0x00, 0x64, 0xff, 0x9b, 0, 0, 0, 0, 0, 0, 0, 0] @ v4 \<in> forms v4"
| nat64_local: "length mid = 6 \<Longrightarrow> [0x00, 0x64, 0xff, 0x9b, 0x00, 0x01] @ mid @ v4 \<in> forms v4"
| six_to_four: "length rest = 10 \<Longrightarrow> [0x20, 0x02] @ v4 @ rest \<in> forms v4"

lemma v4InV6_octets: "v4InV6Prefix = [0, 0, 0, 0, 0, 0, 0, 0, 0, 0, 255, 255]"
  by code_simp

lemma judged_forms:
  assumes "ip \<in> forms [a, b, c, d]"
  shows "(length ip = 4 \<or> length ip = 16) \<and> (\<exists>v \<in> set (judged ip). To4 v = [a, b, c, d])"
  using assms
proof cases
  case (nat64_local mid)
  then obtain m0 m1 m2 m3 m4 m5 where "mid = [m0, m1, m2, m3, m4, m5]"
    by (auto simp: length_Suc_conv numeral_eq_Suc)
  then show ?thesis
    by (simp add: nat64_local(1) judged_def embeddedIPv4_def To4_def v4InV6_octets Contains_in_net special_nets in_net_def)
      (simp add: IPv4_def v4InV6_octets)
next
  case (six_to_four rest)
  then obtain r0 r1 r2 r3 r4 r5 r6 r7 r8 r9 where "rest = [r0, r1, r2, r3, r4, r5, r6, r7, r8, r9]"
    by (auto simp: length_Suc_conv numeral_eq_Suc)
  then show ?thesis
    by (simp add: six_to_four(1) judged_def embeddedIPv4_def To4_def v4InV6_octets Contains_in_net special_nets in_net_def)
      (simp add: IPv4_def v4InV6_octets)
next
  case nat64
  then show ?thesis
    by (simp add: judged_def embeddedIPv4_def To4_def v4InV6_octets Contains_in_net special_nets in_net_def)
      (simp add: IPv4_def v4InV6_octets)
qed (simp_all add: judged_def To4_def v4InV6_octets)


lemma first_refusal_None: "first_refusal f ips = None \<longleftrightarrow> (\<forall>ip \<in> set ips. f ip = '''')"
  by (auto simp: first_refusal_def find_None_iff)

lemma inCIDRs_To4: "To4 ip = [a, b, c, d] \<Longrightarrow> inCIDRs cs ip = inCIDRs cs [a, b, c, d]"
  by (auto simp: inCIDRs_def list_ex_iff Contains_To4 split: option.split)

text \<open>The destinations no policy admits.\<close>

definition forbidden4 :: "bytes \<Rightarrow> bool" where
  "forbidden4 v4 \<longleftrightarrow> address v4 \<le> address [0, 255, 255, 255] \<or> address [224, 0, 0, 0] \<le> address v4 \<or>
     address [169, 254, 0, 0] \<le> address v4 \<and> address v4 \<le> address [169, 254, 255, 255]"

lemma hardRefusal_forbidden:
  assumes "To4 ip = [a, b, c, d]" "forbidden4 [a, b, c, d]"
  shows "hardRefusal ip \<noteq> ''''"
proof -
  have "unat a = 0 \<or> 224 \<le> unat a \<or> unat a = 169 \<and> unat b = 254"
    using assms(2) octet_range [of c] octet_range [of d] unfolding forbidden4_def address_le by auto
  then have "unat a = 0 \<or> unat a div 16 = 14 \<or> unat a div 16 = 15 \<or> unat a = 169 \<and> unat b = 254"
    using octet_range [of a] octet_div(3) [of "unat a"] by auto
  moreover have "Contains thisNetwork ip \<longleftrightarrow> unat a = 0" "Contains classE ip \<longleftrightarrow> unat a div 16 = 15"
    by (simp_all add: Contains_To4 [OF assms(1)] special_nets in_net_def octet_masks octet_eq)
  moreover have "IsMulticast ip \<longleftrightarrow> unat a div 16 = 14" "IsLinkLocalUnicast ip \<longleftrightarrow> unat a = 169 \<and> unat b = 254"
    by (simp_all add: assms(1) IsMulticast_def IsLinkLocalUnicast_def octet_masks octet_eq)
  ultimately show ?thesis by (auto simp: hardRefusal_def)
qed

lemma serverChosenRefusal_reserved:
  assumes "To4 ip = [a, b, c, d]" "reserved4 [a, b, c, d]" "\<not> IsPrivateOrReserved peer" "\<not> inCIDRs (AllowedCIDRs p) [a, b, c, d]"
  shows "serverChosenRefusal p ip peer \<noteq> ''''"
  using assms private_reserved [of ip] inCIDRs_To4 [OF assms(1)]
  by (auto simp: serverChosenRefusal_def Let_def)

text \<open>
  C24. A server cannot aim the worker's traffic inside. Whatever the policy, and in whichever way the
  address is written - as IPv4, mapped into IPv6, behind a NAT64 prefix or as a 6to4 address - a
  destination that a remote server names is refused when its IPv4 address is in 0.0.0.0/8,
  link-local (the cloud metadata service), multicast or above; and when it is in a private or
  reserved range, is not on the allow-list, and the server that names it is itself public and
  named another address than its own.
\<close>

theorem server_cannot_aim_inside:
  assumes "ip \<in> forms v4" "length v4 = 4"
  shows "(forbidden4 v4 \<longrightarrow> AllowsServerChosen p (Some \<lparr>u_IP = ip, u_Port = port\<rparr>) peer \<noteq> None) \<and>
    (reserved4 v4 \<and> \<not> IsPrivateOrReserved peer \<and> \<not> inCIDRs (AllowedCIDRs p) v4 \<and> \<not> Equal ip peer \<longrightarrow>
       AllowsServerChosen p (Some \<lparr>u_IP = ip, u_Port = port\<rparr>) peer \<noteq> None)"
proof -
  from assms(2) obtain a b c d where v4: "v4 = [a, b, c, d]" by (auto simp: length_Suc_conv numeral_eq_Suc)
  from judged_forms [OF assms(1) [unfolded v4]]
  obtain v where v: "v \<in> set (judged ip)" "To4 v = [a, b, c, d]" and len: "length ip = 4 \<or> length ip = 16" by blast
  have "AllowsServerChosen p (Some \<lparr>u_IP = ip, u_Port = port\<rparr>) peer \<noteq> None" if "forbidden4 v4"
  proof -
    have "first_refusal hardRefusal (judged ip) \<noteq> None"
      using hardRefusal_forbidden [OF v(2)] that v(1) unfolding v4 first_refusal_None by blast
    then show ?thesis using len by (auto simp: AllowsServerChosen_def)
  qed
  moreover have "AllowsServerChosen p (Some \<lparr>u_IP = ip, u_Port = port\<rparr>) peer \<noteq> None"
    if "reserved4 v4" "\<not> IsPrivateOrReserved peer" "\<not> inCIDRs (AllowedCIDRs p) v4" "\<not> Equal ip peer"
  proof -
    have "first_refusal (\<lambda>ip. serverChosenRefusal p ip peer) (judged ip) \<noteq> None"
      using serverChosenRefusal_reserved [OF v(2)] that(1-3) v(1) unfolding v4 first_refusal_None by blast
    then show ?thesis using len that(4) by (auto simp: AllowsServerChosen_def split: option.split)
  qed
  ultimately show ?thesis by blast
qed

theorem server_cannot_aim_inside_witness:
  "AllowsServerChosen \<lparr>BlockPrivate = False, AllowedCIDRs = []\<rparr>
     (Some \<lparr>u_IP = [0x00, 0x64, 0xff, 0x9b, 0, 0, 0, 0, 0, 0, 0, 0, 10, 0, 0, 1], u_Port = 4000\<rparr>) [8, 8, 8, 8] \<noteq> None"
proof -
  let ?p = "\<lparr>BlockPrivate = False, AllowedCIDRs = []\<rparr>" and ?peer = "[8, 8, 8, 8] :: bytes"
  have f: "[0x00, 0x64, 0xff, 0x9b, 0, 0, 0, 0, 0, 0, 0, 0, 10, 0, 0, 1] \<in> forms [10, 0, 0, 1]"
    using nat64 [of "[10, 0, 0, 1]"] by simp
  have "reserved4 [10, 0, 0, 1]" by (simp add: reserved4_def reserved_ranges_def address_def)
  moreover have "\<not> IsPrivateOrReserved ?peer" "\<not> inCIDRs (AllowedCIDRs ?p) [10, 0, 0, 1]"
    "\<not> Equal [0x00, 0x64, 0xff, 0x9b, 0, 0, 0, 0, 0, 0, 0, 0, 10, 0, 0, 1] ?peer"
    by code_simp+
  moreover have "length [10, 0, 0, 1 :: byte] = 4" by simp
  ultimately show ?thesis using server_cannot_aim_inside [OF f, of ?p 4000 ?peer] by blast
qed

lemma dial_each_spec:
  assumes "dial_each p dial port ips e = (r, tried)"
  shows "(\<forall>t \<in> set tried. \<exists>ip \<in> set ips. t = Resolved ip port \<and> Allows p ip) \<and>
    (case r of Inr t \<Rightarrow> tried \<noteq> [] \<and> t = last tried \<and> dial t | Inl _ \<Rightarrow> \<forall>t \<in> set tried. \<not> dial t)"
  using assms
proof (induction ips arbitrary: e r tried)
  case (Cons ip ips)
  show ?case
  proof (cases "Allows p ip \<and> \<not> dial (Resolved ip port)")
    case True
    then obtain tried' where d: "dial_each p dial port ips (Some DialError) = (r, tried')" and t: "tried = Resolved ip port # tried'"
      using Cons.prems by (auto split: prod.splits)
    from Cons.IH [OF d] True show ?thesis unfolding t by (auto split: sum.splits)
  qed (use Cons in \<open>auto split: if_splits\<close>)
qed auto

text \<open>
  C25. Only allowed addresses are dialled. Under a policy that blocks private addresses, every
  connection attempt goes either to an address resolved from the host that the policy allows, or to
  the address as written when its host is a literal that the policy allows; and the connection
  returned is the last one attempted.
\<close>

theorem dials_only_allowed:
  assumes "BlockPrivate p"
  shows "case DialContext p split_host_port parse_ip lookup dial addr of (r, tried) \<Rightarrow>
    (\<forall>t \<in> set tried. case t of
       Resolved ip port \<Rightarrow> Allows p ip \<and> (\<exists>host ips. split_host_port addr = Some (host, port) \<and> lookup host = Some ips \<and> ip \<in> set ips)
     | Address w \<Rightarrow> w = addr \<and> (\<exists>host port ip. split_host_port addr = Some (host, port) \<and> parse_ip host = Some ip \<and> Allows p ip)) \<and>
    (case r of Inr t \<Rightarrow> tried \<noteq> [] \<and> t = last tried \<and> dial t | Inl _ \<Rightarrow> \<forall>t \<in> set tried. \<not> dial t)"
proof (cases "split_host_port addr")
  case (Some hp)
  obtain host port where hp: "hp = (host, port)" by (cases hp)
  show ?thesis
  proof (cases "parse_ip host")
    case None
    show ?thesis
    proof (cases "lookup host")
      case (Some ips)
      obtain r tried where d: "dial_each p dial port ips None = (r, tried)" by (cases "dial_each p dial port ips None")
      from dial_each_spec [OF d] \<open>split_host_port addr = Some hp\<close> hp None Some assms show ?thesis
        by (auto simp: DialContext_def d)
    qed (use \<open>split_host_port addr = Some hp\<close> hp None assms in \<open>simp add: DialContext_def\<close>)
  qed (use Some hp assms in \<open>simp add: DialContext_def dial_address_def\<close>)
qed (use assms in \<open>simp add: DialContext_def\<close>)

theorem dials_only_allowed_witness:
  "DialContext \<lparr>BlockPrivate = True, AllowedCIDRs = []\<rparr> (\<lambda>_. Some (''h'', ''80'')) (\<lambda>_. None)
     (\<lambda>_. Some [[10, 0, 0, 1], [8, 8, 8, 8]]) (\<lambda>_. True) ''h:80'' =
     (Inr (Resolved [8, 8, 8, 8] ''80''), [Resolved [8, 8, 8, 8] ''80'']) \<and>
   Allows \<lparr>BlockPrivate = True, AllowedCIDRs = []\<rparr> [8, 8, 8, 8]"
proof -
  let ?p = "\<lparr>BlockPrivate = True, AllowedCIDRs = []\<rparr>"
  have run: "DialContext ?p (\<lambda>_. Some (''h'', ''80'')) (\<lambda>_. None) (\<lambda>_. Some [[10, 0, 0, 1], [8, 8, 8, 8]]) (\<lambda>_. True) ''h:80'' =
      (Inr (Resolved [8, 8, 8, 8] ''80''), [Resolved [8, 8, 8, 8] ''80''])"
    by code_simp
  have "BlockPrivate ?p" by simp
  from dials_only_allowed [OF this, where split_host_port = "\<lambda>_. Some (''h'', ''80'')" and parse_ip = "\<lambda>_. None" and
      lookup = "\<lambda>_. Some [[10, 0, 0, 1], [8, 8, 8, 8]]" and dial = "\<lambda>_. True" and addr = "''h:80''"]
  have "Allows ?p [8, 8, 8, 8]" unfolding run by simp
  with run show ?thesis by simp
qed

end
