(* ===== verification/SipMessage.thy ===== *)
theory SipMessage
  imports GoStrings
begin

text \<open>
  SIP messages on the wire (\<open>worker/internal/worker/sip_message.go\<close>): the message a probe writes, and
  the parser of what a peer sends, for one datagram and for a stream. Strings are octets; an error
  is a value whose constructor says which refusal of the code it is. A stream is the octets still
  to come, after which it ends; \<open>buf\<close> is the size of the reader's buffer.
\<close>

section \<open>Messages\<close>

record sipHeader =
  sh_Name :: string
  sh_Value :: string

record sipMessage =
  sm_IsRequest :: bool
  sm_Method :: string
  sm_RequestURI :: string
  sm_StatusCode :: int
  sm_Reason :: string
  sm_Headers :: "sipHeader list"
  sm_Body :: string

datatype sip_error =
    EmptyMessage | HeadTooLarge | LengthExceedsBody | BodyTooLarge | LineTooLong
  | InvalidContentLength | ConflictingContentLength
  | NulByte | BareCR | ContinuationFirst | NoColon | InvalidHeaderName
  | InvalidStatusLine | UnsupportedVersion | InvalidStatusCode
  | InvalidRequestLine | InvalidMethod | InvalidURI
  | EOF | UnexpectedEOF

definition sipMaxBodyBytes :: nat where "sipMaxBodyBytes = 65536"

definition sipMaxHeadBytes :: nat where "sipMaxHeadBytes = 65536"

definition sipCompactForms :: "(string \<times> string) list" where
  "sipCompactForms =
    [(''a'', ''accept-contact''), (''b'', ''referred-by''), (''c'', ''content-type''),
     (''d'', ''request-disposition''), (''e'', ''content-encoding''), (''f'', ''from''),
     (''i'', ''call-id''), (''j'', ''reject-contact''), (''k'', ''supported''), (''l'', ''content-length''),
     (''m'', ''contact''), (''o'', ''event''), (''r'', ''refer-to''), (''s'', ''subject''), (''t'', ''to''),
     (''u'', ''allow-events''), (''v'', ''via''), (''x'', ''session-expires''), (''y'', ''identity'')]"

definition sipCanonicalNames :: "(string \<times> string) list" where
  "sipCanonicalNames =
    [(''accept'', ''Accept''), (''accept-contact'', ''Accept-Contact''), (''allow'', ''Allow''),
     (''allow-events'', ''Allow-Events''), (''authorization'', ''Authorization''), (''call-id'', ''Call-ID''),
     (''contact'', ''Contact''), (''content-encoding'', ''Content-Encoding''),
     (''content-length'', ''Content-Length''), (''content-type'', ''Content-Type''), (''cseq'', ''CSeq''),
     (''event'', ''Event''), (''expires'', ''Expires''), (''from'', ''From''), (''identity'', ''Identity''),
     (''max-forwards'', ''Max-Forwards''), (''proxy-authenticate'', ''Proxy-Authenticate''),
     (''proxy-authorization'', ''Proxy-Authorization''), (''reason'', ''Reason''),
     (''record-route'', ''Record-Route''), (''refer-to'', ''Refer-To''), (''referred-by'', ''Referred-By''),
     (''reject-contact'', ''Reject-Contact''), (''request-disposition'', ''Request-Disposition''),
     (''require'', ''Require''), (''route'', ''Route''), (''server'', ''Server''),
     (''session-expires'', ''Session-Expires''), (''subject'', ''Subject''), (''supported'', ''Supported''),
     (''to'', ''To''), (''unsupported'', ''Unsupported''), (''user-agent'', ''User-Agent''), (''via'', ''Via''),
     (''warning'', ''Warning''), (''www-authenticate'', ''WWW-Authenticate'')]"

definition sipListHeaders :: "string list" where
  "sipListHeaders = [''via'', ''route'', ''record-route'', ''contact'']"

definition sipHeaderKey :: "string \<Rightarrow> string" where
  "sipHeaderKey name =
     (let key = ToLower (TrimSpace name) in
      case map_of sipCompactForms key of Some full \<Rightarrow> full | None \<Rightarrow> key)"

definition sipCanonicalName :: "string \<Rightarrow> string" where
  "sipCanonicalName name =
     (let key = sipHeaderKey name in
      case map_of sipCanonicalNames key of
        Some canonical \<Rightarrow> canonical
      | None \<Rightarrow> if map_of sipCompactForms (ToLower (TrimSpace name)) \<noteq> None then key else TrimSpace name)"

definition Values :: "sipMessage \<Rightarrow> string \<Rightarrow> string list" where
  "Values m name = map sh_Value (filter (\<lambda>h. sipHeaderKey (sh_Name h) = sipHeaderKey name) (sm_Headers m))"

definition Get :: "sipMessage \<Rightarrow> string \<Rightarrow> string" where
  "Get m name = (case find (\<lambda>h. sipHeaderKey (sh_Name h) = sipHeaderKey name) (sm_Headers m) of
     None \<Rightarrow> '''' | Some h \<Rightarrow> sh_Value h)"

definition Add :: "string \<Rightarrow> string \<Rightarrow> sipMessage \<Rightarrow> sipMessage" where
  "Add name value m = m\<lparr>sm_Headers := sm_Headers m @ [\<lparr>sh_Name = sipCanonicalName name, sh_Value = value\<rparr>]\<rparr>"

section \<open>Writing\<close>

definition crlf :: string where "crlf = [CR, LF]"

definition start_line :: "sipMessage \<Rightarrow> string" where
  "start_line m =
     (if sm_IsRequest m then sm_Method m @ '' '' @ sm_RequestURI m @ '' SIP/2.0''
      else ''SIP/2.0 '' @ show_int (sm_StatusCode m) @ '' '' @ sm_Reason m)"

definition header_line :: "sipHeader \<Rightarrow> string" where
  "header_line h = sh_Name h @ '': '' @ sh_Value h"

definition sipBytes :: "sipMessage \<Rightarrow> string" where
  "sipBytes m =
     start_line m @ crlf @
     concat (map (\<lambda>h. header_line h @ crlf) (filter (\<lambda>h. sipHeaderKey (sh_Name h) \<noteq> ''content-length'') (sm_Headers m))) @
     ''Content-Length: '' @ dec (length (sm_Body m)) @ crlf @ crlf @ sm_Body m"

section \<open>Lexing\<close>

definition token_char :: "char \<Rightarrow> bool" where
  "token_char c \<longleftrightarrow> (97 \<le> (of_char c :: nat) \<and> (of_char c :: nat) \<le> 122) \<or> (65 \<le> (of_char c :: nat) \<and> (of_char c :: nat) \<le> 90) \<or>
     is_digit c \<or> c \<in> set [CHR ''-'', CHR ''.'', CHR ''!'', CHR ''%'', CHR ''*'', CHR ''_'', CHR ''+'', CHR 0x60, CHR 0x27, CHR ''~'']"

definition isSIPToken :: "string \<Rightarrow> bool" where
  "isSIPToken s \<longleftrightarrow> s \<noteq> [] \<and> list_all token_char s"

text \<open>
  The loop of \<open>splitSIPList\<close>: \<open>part\<close> is what was read since the last comma, reversed. An element is
  kept if it is not empty when trimmed.
\<close>

definition keep_part :: "string \<Rightarrow> string list" where
  "keep_part part = (if TrimSpace part = [] then [] else [TrimSpace part])"

fun split_list_loop :: "bool \<Rightarrow> bool \<Rightarrow> string \<Rightarrow> string \<Rightarrow> string list" where
  "split_list_loop inQuote inAngle part [] = keep_part (rev part)"
| "split_list_loop inQuote inAngle part (c # s) =
     (if inQuote \<and> c = CHR 0x5C then
        (case s of [] \<Rightarrow> split_list_loop inQuote inAngle (c # part) []
         | c' # s' \<Rightarrow> split_list_loop inQuote inAngle (c' # c # part) s')
      else if c = CHR 0x22 then split_list_loop (\<not> inQuote) inAngle (c # part) s
      else if \<not> inQuote \<and> c = CHR ''<'' then split_list_loop inQuote True (c # part) s
      else if \<not> inQuote \<and> c = CHR ''>'' then split_list_loop inQuote False (c # part) s
      else if \<not> inQuote \<and> \<not> inAngle \<and> c = CHR '','' then
        keep_part (rev part) @ split_list_loop inQuote inAngle [] s
      else split_list_loop inQuote inAngle (c # part) s)"

definition splitSIPList :: "string \<Rightarrow> string list" where
  "splitSIPList value = (let parts = split_list_loop False False [] value in if parts = [] then [''''] else parts)"

section \<open>Parsing\<close>

definition parseSIPStartLine :: "string \<Rightarrow> sip_error + sipMessage" where
  "parseSIPStartLine line =
     (if length line \<ge> 4 \<and> EqualFold (take 4 line) ''SIP/'' then
        let parts = SplitN (CHR '' '') 3 line in
        if length parts < 2 then Inl InvalidStatusLine
        else if \<not> EqualFold (parts ! 0) ''SIP/2.0'' then Inl UnsupportedVersion
        else if length (parts ! 1) \<noteq> 3 then Inl InvalidStatusCode
        else (case Atoi (parts ! 1) of
            None \<Rightarrow> Inl InvalidStatusCode
          | Some code \<Rightarrow>
              if code < 100 \<or> code > 699 then Inl InvalidStatusCode
              else Inr \<lparr>sm_IsRequest = False, sm_Method = '''', sm_RequestURI = '''', sm_StatusCode = code,
                        sm_Reason = (if length parts = 3 then TrimSpace (parts ! 2) else ''''),
                        sm_Headers = [], sm_Body = ''''\<rparr>)
      else
        let parts = Split (CHR '' '') line in
        if length parts \<noteq> 3 then Inl InvalidRequestLine
        else if \<not> isSIPToken (parts ! 0) then Inl InvalidMethod
        else if parts ! 1 = [] \<or> CHR '':'' \<notin> set (parts ! 1) \<or> set (parts ! 1) \<inter> {CHR ''<'', CHR ''>'', HT, CHR 0x22} \<noteq> {}
        then Inl InvalidURI
        else if \<not> EqualFold (parts ! 2) ''SIP/2.0'' then Inl UnsupportedVersion
        else Inr \<lparr>sm_IsRequest = True, sm_Method = parts ! 0, sm_RequestURI = parts ! 1, sm_StatusCode = 0,
                  sm_Reason = '''', sm_Headers = [], sm_Body = ''''\<rparr>)"

text \<open>Unfolding: \<open>fs\<close> are the fields so far, the last of them first.\<close>

fun unfold_lines :: "string list \<Rightarrow> string list \<Rightarrow> sip_error + string list" where
  "unfold_lines fs [] = Inr (rev fs)"
| "unfold_lines fs (line # rest) =
     (if line = [] then unfold_lines fs rest
      else if hd line = CHR '' '' \<or> hd line = HT then
        (case fs of [] \<Rightarrow> Inl ContinuationFirst
         | f # fs' \<Rightarrow> unfold_lines ((f @ '' '' @ TrimSpace line) # fs') rest)
      else unfold_lines (line # fs) rest)"

text \<open>\<open>TrimRight(name, " \t")\<close>.\<close>

definition trim_right_blanks :: "string \<Rightarrow> string" where
  "trim_right_blanks s = rev (dropWhile (\<lambda>c. c = CHR '' '' \<or> c = HT) (rev s))"

definition parse_field :: "string \<Rightarrow> sip_error + sipHeader list" where
  "parse_field field =
     (let (name0, value0, found) = Cut (CHR '':'') field; name = trim_right_blanks name0; value = TrimSpace value0 in
      if \<not> found then Inl NoColon
      else if \<not> isSIPToken name then Inl InvalidHeaderName
      else if sipHeaderKey name \<in> set sipListHeaders then
        Inr (map (\<lambda>part. \<lparr>sh_Name = sipCanonicalName name, sh_Value = part\<rparr>) (splitSIPList value))
      else Inr [\<lparr>sh_Name = sipCanonicalName name, sh_Value = value\<rparr>])"

fun parse_fields :: "string list \<Rightarrow> sip_error + sipHeader list" where
  "parse_fields [] = Inr []"
| "parse_fields (f # fs) = bindE (parse_field f) (\<lambda>hs. bindE (parse_fields fs) (\<lambda>rest. Inr (hs @ rest)))"

definition parseSIPHead :: "string \<Rightarrow> sip_error + sipMessage" where
  "parseSIPHead head =
     (if NUL \<in> set head then Inl NulByte
      else
        let normalized = crlf_to_lf head in
        if CR \<in> set normalized then Inl BareCR
        else (case rev (dropWhile (\<lambda>l. l = []) (rev (Split LF normalized))) of
            [] \<Rightarrow> Inl EmptyMessage
          | line # rest \<Rightarrow>
              bindE (parseSIPStartLine line) (\<lambda>msg.
                bindE (unfold_lines [] rest) (\<lambda>fs.
                  bindE (parse_fields fs) (\<lambda>hs. Inr (msg\<lparr>sm_Headers := hs\<rparr>))))))"

text \<open>The length and whether one was present. All values must agree.\<close>

fun content_length_loop :: "nat option \<Rightarrow> string list \<Rightarrow> sip_error + nat option" where
  "content_length_loop len [] = Inr len"
| "content_length_loop len (v # vs) =
     (case ParseUint31 (TrimSpace v) of
        None \<Rightarrow> Inl InvalidContentLength
      | Some n \<Rightarrow> if len \<noteq> None \<and> len \<noteq> Some n then Inl ConflictingContentLength else content_length_loop (Some n) vs)"

definition sipMessageContentLength :: "sipMessage \<Rightarrow> sip_error + nat option" where
  "sipMessageContentLength m = content_length_loop None (Values m ''Content-Length'')"

text \<open>Where the head of a datagram ends and what follows the blank line.\<close>

definition split_head :: "string \<Rightarrow> string \<times> string" where
  "split_head data =
     (let (head, body) = (case Index (crlf @ crlf) data of None \<Rightarrow> (data, []) | Some i \<Rightarrow> (take i data, drop (i + 4) data)) in
      case Index [LF, LF] data of
        Some i \<Rightarrow> if i < length head then (take i data, drop (i + 2) data) else (head, body)
      | None \<Rightarrow> (head, body))"

definition parseSIPMessage :: "string \<Rightarrow> sip_error + sipMessage" where
  "parseSIPMessage data0 =
     (let data = dropWhile (\<lambda>c. c = CR \<or> c = LF) data0 in
      if data = [] then Inl EmptyMessage
      else let (head, body) = split_head data in
        if length head > sipMaxHeadBytes then Inl HeadTooLarge
        else bindE (parseSIPHead head) (\<lambda>msg.
          bindE (sipMessageContentLength msg) (\<lambda>len.
            case len of
              Some n \<Rightarrow>
                if n > length body then Inl LengthExceedsBody
                else if n > sipMaxBodyBytes then Inl BodyTooLarge
                else Inr (msg\<lparr>sm_Body := take n body\<rparr>)
            | None \<Rightarrow>
                if length body > sipMaxBodyBytes then Inl BodyTooLarge
                else Inr (msg\<lparr>sm_Body := body\<rparr>))))"

section \<open>Streams\<close>

text \<open>\<open>ReadSlice('\n')\<close>: a line with its end, and what the stream still holds.\<close>

datatype slice_result = Line string string | BufferFull | EndOfStream string

definition ReadSlice :: "nat \<Rightarrow> string \<Rightarrow> slice_result" where
  "ReadSlice buf s =
     (case Index [LF] (take buf s) of
        Some i \<Rightarrow> Line (take (i + 1) s) (drop (i + 1) s)
      | None \<Rightarrow> if length s \<ge> buf then BufferFull else EndOfStream s)"

definition trim_line :: "string \<Rightarrow> string" where
  "trim_line line = rev (dropWhile (\<lambda>c. c = CR \<or> c = LF) (rev line))"

text \<open>The loop over lines; it ends because every line shortens the stream.\<close>

lemma ReadSlice_shorter: "ReadSlice buf s = Line line r \<Longrightarrow> length r < length s"
proof -
  assume a: "ReadSlice buf s = Line line r"
  then obtain i where "Index [LF] (take buf s) = Some i" "r = drop (i + 1) s"
    by (auto simp: ReadSlice_def split: option.splits if_splits)
  moreover then have "s \<noteq> []" by auto
  ultimately show ?thesis by (cases s) auto
qed

function read_head :: "nat \<Rightarrow> string \<Rightarrow> bool \<Rightarrow> string \<Rightarrow> sip_error + (string \<times> string)" where
  "read_head buf head started s =
     (case ReadSlice buf s of
        BufferFull \<Rightarrow> Inl LineTooLong
      | EndOfStream line \<Rightarrow> Inl (if started \<or> line \<noteq> [] then UnexpectedEOF else EOF)
      | Line line r \<Rightarrow>
          if \<not> started \<and> trim_line line = [] then read_head buf head False r
          else if started \<and> trim_line line = [] then Inr (head, r)
          else if length head + length line > sipMaxHeadBytes then Inl HeadTooLarge
          else read_head buf (head @ line) True r)"
  by pat_completeness auto
termination
  by (relation "measure (\<lambda>(_, _, _, s). length s)") (auto dest: ReadSlice_shorter)

declare read_head.simps [simp del]

text \<open>The message and what the stream holds after it.\<close>

definition readSIPStreamMessage :: "nat \<Rightarrow> string \<Rightarrow> sip_error + (sipMessage \<times> string)" where
  "readSIPStreamMessage buf s =
     bindE (read_head buf [] False s) (\<lambda>(head, r).
       bindE (parseSIPHead head) (\<lambda>msg.
         bindE (sipMessageContentLength msg) (\<lambda>len.
           let n = (case len of None \<Rightarrow> 0 | Some n \<Rightarrow> n) in
           if n > sipMaxBodyBytes then Inl BodyTooLarge
           else if n = 0 then Inr (msg, r)
           else if length r < n then Inl UnexpectedEOF
           else Inr (msg\<lparr>sm_Body := take n r\<rparr>, drop n r))))"

end
