(* ===== verification/SipRoundtrip.thy ===== *)
theory SipRoundtrip
  imports SipMessage
begin

text \<open>
  What is written is read back. \<open>well_formed\<close> says which messages the wire format can carry; the
  datagram parser and the stream reader return such a message from the octets \<open>sipBytes\<close> writes,
  with the Content-Length it computes as the last header.
\<close>

section \<open>Well-formed messages\<close>

definition clean :: "string \<Rightarrow> bool" where
  "clean s \<longleftrightarrow> CR \<notin> set s \<and> LF \<notin> set s \<and> NUL \<notin> set s"

definition well_formed_header :: "sipHeader \<Rightarrow> bool" where
  "well_formed_header h \<longleftrightarrow>
     isSIPToken (sh_Name h) \<and> sipCanonicalName (sh_Name h) = sh_Name h \<and>
     clean (sh_Value h) \<and> trimmed (sh_Value h) \<and>
     (sipHeaderKey (sh_Name h) \<in> set sipListHeaders \<longrightarrow> splitSIPList (sh_Value h) = [sh_Value h])"

definition well_formed_start :: "sipMessage \<Rightarrow> bool" where
  "well_formed_start m \<longleftrightarrow>
     (if sm_IsRequest m then
        isSIPToken (sm_Method m) \<and> clean (sm_RequestURI m) \<and> CHR '':'' \<in> set (sm_RequestURI m) \<and>
        set (sm_RequestURI m) \<inter> {CHR ''<'', CHR ''>'', HT, CHR 0x22, CHR '' ''} = {} \<and>
        sm_StatusCode m = 0 \<and> sm_Reason m = ''''
      else
        sm_Method m = '''' \<and> sm_RequestURI m = '''' \<and> 100 \<le> sm_StatusCode m \<and> sm_StatusCode m \<le> 699 \<and>
        clean (sm_Reason m) \<and> trimmed (sm_Reason m))"

definition well_formed :: "sipMessage \<Rightarrow> bool" where
  "well_formed m \<longleftrightarrow>
     well_formed_start m \<and> list_all well_formed_header (sm_Headers m) \<and> length (sm_Body m) \<le> sipMaxBodyBytes"

text \<open>The message as it is read back, and the octets before its body.\<close>

definition with_length :: "sipMessage \<Rightarrow> sipMessage" where
  "with_length m = m\<lparr>sm_Headers := filter (\<lambda>h. sipHeaderKey (sh_Name h) \<noteq> ''content-length'') (sm_Headers m) @
     [\<lparr>sh_Name = ''Content-Length'', sh_Value = dec (length (sm_Body m))\<rparr>]\<rparr>"

definition head_lines :: "sipMessage \<Rightarrow> string list" where
  "head_lines m = start_line m # map header_line (sm_Headers (with_length m))"

definition wire_head :: "sipMessage \<Rightarrow> string" where
  "wire_head m = concat (map (\<lambda>l. l @ crlf) (head_lines m))"

lemma sipBytes_wire: "sipBytes m = wire_head m @ crlf @ sm_Body m"
  by (simp add: sipBytes_def wire_head_def head_lines_def with_length_def header_line_def comp_def)

section \<open>Characters\<close>

lemma clean_append [simp]: "clean (a @ b) \<longleftrightarrow> clean a \<and> clean b"
  by (auto simp: clean_def)

lemma clean_Cons [simp]: "clean (c # s) \<longleftrightarrow> c \<noteq> CR \<and> c \<noteq> LF \<and> c \<noteq> NUL \<and> clean s"
  by (auto simp: clean_def)

lemma clean_Nil [simp]: "clean []"
  by (simp add: clean_def)

lemma visible_clean: "list_all visible s \<Longrightarrow> clean s"
  by (induction s) (auto simp: visible_def)

lemma token_visible: "token_char c \<Longrightarrow> visible c"
  by (auto simp: token_char_def visible_def is_digit_def)

lemma isSIPToken_visible: "isSIPToken s \<Longrightarrow> list_all visible s"
  by (auto simp: isSIPToken_def list_all_iff token_visible)

lemma not_token [simp]: "\<not> token_char (CHR '' '')" "\<not> token_char (CHR '':'')" "\<not> token_char (CHR ''/'')" "\<not> token_char HT"
  by (simp_all add: token_char_def is_digit_def)

lemma isSIPToken_free: "isSIPToken s \<Longrightarrow> \<not> token_char c \<Longrightarrow> c \<notin> set s"
  by (auto simp: isSIPToken_def list_all_iff)

lemma lower_char_slash: "lower_char c = CHR ''/'' \<longleftrightarrow> c = CHR ''/''"
  by (auto simp: lower_char_def dest: arg_cong [where f = "of_char :: char \<Rightarrow> nat"])

lemma lower_char_blank: "lower_char (CHR '' '') = CHR '' ''"
  by (simp add: lower_char_def)

lemma fold_case_visible: "list_all (\<lambda>c. (of_char c :: nat) < 128) a \<Longrightarrow> fold_case (a @ b) = map lower_char a @ fold_case b"
  by (induction a) auto

section \<open>Lines\<close>

definition line_ok :: "string \<Rightarrow> bool" where
  "line_ok l \<longleftrightarrow> clean l \<and> l \<noteq> []"

lemma Index_skip: "c \<notin> set l \<Longrightarrow> Index (c # p) (l @ s) = map_option (\<lambda>i. length l + i) (Index (c # p) s)"
proof (induction l)
  case Nil
  then show ?case by (cases "Index (c # p) s") simp_all
next
  case (Cons a l)
  then show ?case by (cases "Index (c # p) s") simp_all
qed

lemma Index_CRLF:
  assumes "line_ok l"
  shows "Index (crlf @ crlf) (crlf @ l @ s) = map_option (\<lambda>i. 2 + i) (Index (crlf @ crlf) (l @ s))"
  using assms by (cases l) (auto simp: crlf_def line_ok_def option.map_comp comp_def)

lemma Index_head:
  assumes "line_ok l0" "list_all line_ok ls"
  shows "Index (crlf @ crlf) (l0 @ concat (map (\<lambda>l. crlf @ l) ls) @ crlf @ crlf @ b) = Some (length (l0 @ concat (map (\<lambda>l. crlf @ l) ls)))"
  using assms
proof (induction ls arbitrary: l0)
  case Nil
  then have "CR \<notin> set l0" by (simp add: line_ok_def clean_def)
  then show ?case using Index_skip [of CR l0 "[LF, CR, LF]"] by (simp add: crlf_def)
next
  case (Cons l1 ls)
  then have l0: "CR \<notin> set l0" and l1: "line_ok l1" by (simp_all add: line_ok_def clean_def)
  have skip: "Index (crlf @ crlf) (l0 @ x) = map_option (\<lambda>i. length l0 + i) (Index (crlf @ crlf) x)" for x
    using Index_skip [OF l0, of "[LF, CR, LF]"] by (simp add: crlf_def)
  from Cons have IH: "Index (crlf @ crlf) (l1 @ concat (map (\<lambda>l. crlf @ l) ls) @ crlf @ crlf @ b) =
      Some (length (l1 @ concat (map (\<lambda>l. crlf @ l) ls)))" by simp
  show ?case
    using skip [of "crlf @ l1 @ concat (map (\<lambda>l. crlf @ l) ls) @ crlf @ crlf @ b"]
      Index_CRLF [OF l1, of "concat (map (\<lambda>l. crlf @ l) ls) @ crlf @ crlf @ b"] IH
    by (simp add: crlf_def)
qed

text \<open>No line feed follows another before the body.\<close>

lemma Index_LFLF_crlf: "Index [LF, LF] (CR # LF # s) = (case s of [] \<Rightarrow> None | c # r \<Rightarrow> if c = LF then Some 1 else map_option (\<lambda>i. 2 + i) (Index [LF, LF] s))"
  by (cases s) (auto simp: option.map_comp comp_def)

lemma Index_LFLF_head:
  assumes "line_ok l0" "list_all line_ok ls" "Index [LF, LF] (l0 @ concat (map (\<lambda>l. crlf @ l) ls) @ crlf @ crlf @ b) = Some i"
  shows "length (l0 @ concat (map (\<lambda>l. crlf @ l) ls)) \<le> i"
  using assms
proof (induction ls arbitrary: l0 i)
  case Nil
  then have "LF \<notin> set l0" by (simp add: line_ok_def clean_def)
  with Nil.prems(3) Index_skip [of LF l0 "[LF]"] show ?case by auto
next
  case (Cons l1 ls)
  then have l0: "LF \<notin> set l0" and l1: "line_ok l1" by (simp_all add: line_ok_def clean_def)
  let ?r = "l1 @ concat (map (\<lambda>l. crlf @ l) ls) @ crlf @ crlf @ b"
  have "Index [LF, LF] (CR # LF # ?r) = map_option (\<lambda>i. 2 + i) (Index [LF, LF] ?r)"
    using l1 by (cases l1) (auto simp: line_ok_def option.map_comp comp_def)
  then have "Index [LF, LF] (l0 @ CR # LF # ?r) = map_option (\<lambda>i. length l0 + i) (map_option (\<lambda>i. 2 + i) (Index [LF, LF] ?r))"
    using Index_skip [OF l0, of "[LF]" "CR # LF # ?r"] by metis
  with Cons.prems(3) have "map_option (\<lambda>i. length l0 + i) (map_option (\<lambda>i. 2 + i) (Index [LF, LF] ?r)) = Some i"
    by (simp add: crlf_def)
  then obtain j where "Index [LF, LF] ?r = Some j" "i = length l0 + (2 + j)" by auto
  with Cons.IH [of l1 j] Cons.prems show ?case by (simp add: crlf_def)
qed

text \<open>The two ways the lines reach \<open>parseSIPHead\<close>: without and with the end of the last one.\<close>

lemma join_lines: "concat (map (\<lambda>l. l @ crlf) (l0 # ls)) = (l0 @ concat (map (\<lambda>l. crlf @ l) ls)) @ crlf"
  by (induction ls arbitrary: l0) simp_all

lemma normalize_lines:
  "list_all line_ok ls \<Longrightarrow> crlf_to_lf (concat (map (\<lambda>l. l @ crlf) ls) @ r) = concat (map (\<lambda>l. l @ [LF]) ls) @ crlf_to_lf r"
  by (induction ls) (auto simp: crlf_def line_ok_def clean_def crlf_to_lf_line)

lemma Split_lines:
  "list_all line_ok ls \<Longrightarrow> Split LF (concat (map (\<lambda>l. l @ [LF]) ls) @ r) = ls @ Split LF r"
  by (induction ls) (auto simp: line_ok_def clean_def Split_append)

definition lines_of :: "string \<Rightarrow> string list" where
  "lines_of head = rev (dropWhile (\<lambda>l. l = []) (rev (Split LF (crlf_to_lf head))))"

lemma lines_of_ended:
  assumes "list_all line_ok ls" "ls \<noteq> []"
  shows "lines_of (concat (map (\<lambda>l. l @ crlf) ls)) = ls"
proof -
  from assms have "last ls \<noteq> []" by (auto simp: list_all_iff line_ok_def)
  with assms(2) have "dropWhile (\<lambda>l. l = []) (rev ls) = rev ls" by (cases ls rule: rev_cases) auto
  with assms(1) show ?thesis using normalize_lines [OF assms(1), of "[]"] Split_lines [OF assms(1), of "[]"] by (simp add: lines_of_def)
qed

lemma lines_of_open:
  assumes "list_all line_ok ls" "line_ok l"
  shows "lines_of (concat (map (\<lambda>l. l @ crlf) ls) @ l) = ls @ [l]"
proof -
  from assms(2) have "CR \<notin> set l" "LF \<notin> set l" "l \<noteq> []" by (auto simp: line_ok_def clean_def)
  with assms(1) show ?thesis
    using normalize_lines [OF assms(1), of l] Split_lines [OF assms(1), of l]
    by (simp add: lines_of_def crlf_to_lf_none Split_none)
qed


section \<open>The start line\<close>

lemma EqualFold_refl [simp]: "EqualFold s s"
  by (simp add: EqualFold_def)

lemma SIP_not_token:
  assumes "isSIPToken method"
  shows "\<not> EqualFold (take 4 (method @ CHR '' '' # r)) ''SIP/''"
proof
  assume eq: "EqualFold (take 4 (method @ CHR '' '' # r)) ''SIP/''"
  have ascii: "list_all (\<lambda>c. (of_char c :: nat) < 128) method"
    using isSIPToken_visible [OF assms] by (auto simp: list_all_iff visible_def)
  have target: "fold_case ''SIP/'' = ''sip/''" by code_simp
  show False
  proof (cases "4 \<le> length method")
    case True
    then have "fold_case (take 4 method @ []) = ''sip/''" using eq target by (simp add: EqualFold_def)
    with ascii have "map lower_char (take 4 method) = ''sip/''"
      by (subst (asm) fold_case_visible) (auto simp: list_all_iff dest: in_set_takeD)
    then have "CHR ''/'' \<in> set (map lower_char (take 4 method))" by simp
    then have "CHR ''/'' \<in> set method" by (auto simp: lower_char_slash [THEN iffD1] dest: in_set_takeD intro: lower_char_slash)
      (metis in_set_takeD lower_char_slash)
    with assms show False using isSIPToken_free by simp
  next
    case False
    then obtain x where "take 4 (method @ CHR '' '' # r) = (method @ [CHR '' '']) @ x"
      by (cases "4 - length method") auto
    then have "fold_case ((method @ [CHR '' '']) @ x) = ''sip/''" using eq target by (simp add: EqualFold_def)
    with ascii have "map lower_char (method @ [CHR '' '']) @ fold_case x = ''sip/''"
      by (subst (asm) fold_case_visible) (auto simp: list_all_iff)
    then have "CHR '' '' \<in> set ''sip/''" by (metis lower_char_blank Un_iff in_set_conv_decomp list.set_map imageI set_append append_Nil2 append_assoc)
    then show False by simp
  qed
qed

lemma dec_three:
  assumes "100 \<le> n" "n \<le> 699"
  shows "length (dec n) = 3"
proof -
  from assms have "\<not> n < 10" "\<not> n div 10 < 10" "n div 10 div 10 < 10" by simp_all
  then show ?thesis by (simp add: dec.simps [of n] dec.simps [of "n div 10"] dec.simps [of "n div 10 div 10"])
qed

lemma parse_start_line:
  assumes "well_formed_start m"
  shows "parseSIPStartLine (start_line m) = Inr (m\<lparr>sm_Headers := [], sm_Body := []\<rparr>)"
proof (cases "sm_IsRequest m")
  case True
  with assms have m: "isSIPToken (sm_Method m)" "CHR '':'' \<in> set (sm_RequestURI m)"
    and uri: "set (sm_RequestURI m) \<inter> {CHR ''<'', CHR ''>'', HT, CHR 0x22} = {}" "CHR '' '' \<notin> set (sm_RequestURI m)"
    and rest: "sm_StatusCode m = 0" "sm_Reason m = ''''"
    by (auto simp: well_formed_start_def)
  from m(1) have "CHR '' '' \<notin> set (sm_Method m)" by (rule isSIPToken_free) simp
  with uri(2) have "Split (CHR '' '') (start_line m) = [sm_Method m, sm_RequestURI m, ''SIP/2.0'']"
    using True by (simp add: start_line_def Split_append)
  moreover have "\<not> EqualFold (take 4 (start_line m)) ''SIP/''"
    using SIP_not_token [OF m(1), of "sm_RequestURI m @ '' SIP/2.0''"] True by (simp add: start_line_def)
  moreover have "sm_RequestURI m \<noteq> []" using m(2) by auto
  moreover have "m\<lparr>sm_Headers := [], sm_Body := []\<rparr> =
      \<lparr>sm_IsRequest = True, sm_Method = sm_Method m, sm_RequestURI = sm_RequestURI m, sm_StatusCode = 0,
       sm_Reason = '''', sm_Headers = [], sm_Body = ''''\<rparr>"
    using rest True by (cases m) simp
  ultimately show ?thesis using m uri(1) by (simp add: parseSIPStartLine_def)
next
  case False
  with assms have code: "100 \<le> sm_StatusCode m" "sm_StatusCode m \<le> 699" and m: "trimmed (sm_Reason m)" "sm_Method m = ''''" "sm_RequestURI m = ''''"
    by (auto simp: well_formed_start_def)
  define n where "n = nat (sm_StatusCode m)"
  from code have n: "100 \<le> n" "n \<le> 699" "sm_StatusCode m = int n" by (simp_all add: n_def)
  have line: "start_line m = ''SIP/2.0'' @ CHR '' '' # dec n @ CHR '' '' # sm_Reason m"
    using False n by (simp add: start_line_def show_int_def)
  have "CHR '' '' \<notin> set (dec n)" using dec_visible [of n] by (auto simp: list_all_iff visible_def)
  then have "SplitN (CHR '' '') 3 (start_line m) = [''SIP/2.0'', dec n, sm_Reason m]"
    unfolding line by (intro SplitN_line) simp_all
  moreover have "take 4 (start_line m) = ''SIP/''" "4 \<le> length (start_line m)" by (simp_all add: line)
  moreover have "Atoi (dec n) = Some (int n)" using n by (intro Atoi_dec) simp
  moreover have "m\<lparr>sm_Headers := [], sm_Body := []\<rparr> =
      \<lparr>sm_IsRequest = False, sm_Method = '''', sm_RequestURI = '''', sm_StatusCode = int n,
       sm_Reason = sm_Reason m, sm_Headers = [], sm_Body = ''''\<rparr>"
    using m n False by (cases m) simp
  ultimately show ?thesis
    using m n dec_three [OF n(1,2)] by (simp add: parseSIPStartLine_def TrimSpace_trimmed)
qed


section \<open>The header fields\<close>

lemma token_line:
  assumes "isSIPToken name"
  shows "name \<noteq> []" "hd (name @ r) \<noteq> CHR '' ''" "hd (name @ r) \<noteq> HT"
proof -
  from assms show "name \<noteq> []" by (simp add: isSIPToken_def)
  then have "hd (name @ r) \<in> set name" by simp
  with isSIPToken_free [OF assms, of "CHR '' ''"] isSIPToken_free [OF assms, of HT]
  show "hd (name @ r) \<noteq> CHR '' ''" "hd (name @ r) \<noteq> HT" by auto
qed

lemma trim_right_blanks_token: "isSIPToken name \<Longrightarrow> trim_right_blanks name = name"
proof -
  assume a: "isSIPToken name"
  then have "rev name \<noteq> []" "CHR '' '' \<notin> set (rev name)" "HT \<notin> set (rev name)"
    by (auto simp: isSIPToken_def list_all_iff)
  then have "dropWhile (\<lambda>c. c = CHR '' '' \<or> c = HT) (rev name) = rev name" by (cases "rev name") auto
  then show ?thesis by (simp add: trim_right_blanks_def)
qed

lemma parse_header_line:
  assumes "well_formed_header h"
  shows "parse_field (header_line h) = Inr [h]"
proof -
  from assms have h: "isSIPToken (sh_Name h)" "sipCanonicalName (sh_Name h) = sh_Name h" "trimmed (sh_Value h)"
    "sipHeaderKey (sh_Name h) \<in> set sipListHeaders \<Longrightarrow> splitSIPList (sh_Value h) = [sh_Value h]"
    by (auto simp: well_formed_header_def)
  from h(1) have "CHR '':'' \<notin> set (sh_Name h)" by (rule isSIPToken_free) simp
  then have "Cut (CHR '':'') (header_line h) = (sh_Name h, CHR '' '' # sh_Value h, True)"
    by (simp add: header_line_def Cut_found)
  with h show ?thesis
    by (cases "sipHeaderKey (sh_Name h) \<in> set sipListHeaders") (simp_all add: parse_field_def trim_right_blanks_token TrimSpace_blank)
qed

lemma parse_header_lines: "list_all well_formed_header hs \<Longrightarrow> parse_fields (map header_line hs) = Inr hs"
  by (induction hs) (simp_all add: parse_header_line)

lemma unfold_header_lines: "list_all well_formed_header hs \<Longrightarrow> unfold_lines fs (map header_line hs) = Inr (rev fs @ map header_line hs)"
proof (induction hs arbitrary: fs)
  case (Cons h hs)
  then have "isSIPToken (sh_Name h)" by (simp add: well_formed_header_def)
  from token_line(1) [OF this] token_line(2,3) [OF this, of "'': '' @ sh_Value h"] Cons show ?case by (simp add: header_line_def)
qed simp

lemma header_line_ok: "well_formed_header h \<Longrightarrow> line_ok (header_line h)"
  by (auto simp: well_formed_header_def line_ok_def header_line_def dest: isSIPToken_visible visible_clean)

lemma start_line_ok: "well_formed_start m \<Longrightarrow> line_ok (start_line m)"
  using visible_clean [OF dec_visible, of "nat (sm_StatusCode m)"]
  by (auto simp: well_formed_start_def line_ok_def start_line_def show_int_def dest: isSIPToken_visible visible_clean split: if_splits)

lemma parseSIPHead_lines:
  assumes "well_formed_start m" "list_all well_formed_header hs" "NUL \<notin> set head"
    and "CR \<notin> set (crlf_to_lf head)" "lines_of head = start_line m # map header_line hs"
  shows "parseSIPHead head = Inr (m\<lparr>sm_Headers := hs, sm_Body := []\<rparr>)"
  using assms parse_start_line [OF assms(1)] parse_header_lines [OF assms(2)] unfold_header_lines [OF assms(2), of "[]"]
  unfolding lines_of_def parseSIPHead_def Let_def by simp

section \<open>The length\<close>

lemma Content_Length_header: "well_formed_header \<lparr>sh_Name = ''Content-Length'', sh_Value = dec n\<rparr>"
proof -
  have "isSIPToken ''Content-Length''" "sipCanonicalName ''Content-Length'' = ''Content-Length''"
    "sipHeaderKey ''Content-Length'' \<notin> set sipListHeaders"
    by code_simp+
  with visible_clean [OF dec_visible] visible_trimmed [OF dec_visible] show ?thesis by (simp add: well_formed_header_def)
qed

lemma sipHeaderKey_Content_Length: "sipHeaderKey ''Content-Length'' = ''content-length''"
  by code_simp

lemma with_length_headers: "well_formed m \<Longrightarrow> list_all well_formed_header (sm_Headers (with_length m))"
  using Content_Length_header by (auto simp: well_formed_def with_length_def list_all_iff)

lemma with_length_value: "Values (with_length m) ''Content-Length'' = [dec (length (sm_Body m))]"
proof -
  have "filter (\<lambda>h. sipHeaderKey (sh_Name h) = ''content-length'') (filter (\<lambda>h. sipHeaderKey (sh_Name h) \<noteq> ''content-length'') hs) = []"
    for hs by (simp add: filter_empty_conv)
  then show ?thesis by (simp add: Values_def with_length_def sipHeaderKey_Content_Length)
qed

lemma content_length_read:
  assumes "well_formed m" "sm_Headers m' = sm_Headers (with_length m)"
  shows "sipMessageContentLength m' = Inr (Some (length (sm_Body m)))"
proof -
  from assms(1) have "length (sm_Body m) < 2 ^ 31" by (simp add: well_formed_def sipMaxBodyBytes_def)
  moreover have "Values m' ''Content-Length'' = [dec (length (sm_Body m))]"
    using with_length_value [of m] assms(2) by (simp add: Values_def)
  ultimately show ?thesis
    using TrimSpace_trimmed [OF visible_trimmed [OF dec_visible]]
    by (simp add: sipMessageContentLength_def ParseUint31_dec)
qed

section \<open>Datagrams\<close>

lemma head_lines_ok: "well_formed m \<Longrightarrow> list_all line_ok (head_lines m)"
  using with_length_headers [of m] header_line_ok start_line_ok [of m]
  by (auto simp: head_lines_def well_formed_def list_all_iff)

lemma lines_free_of_NUL: "list_all line_ok ls \<Longrightarrow> NUL \<notin> set (concat (map (\<lambda>l. l @ crlf) ls))"
  by (induction ls) (auto simp: line_ok_def clean_def crlf_def)

lemma lines_normalized_free_of_CR: "list_all line_ok ls \<Longrightarrow> CR \<notin> set (concat (map (\<lambda>l. l @ [LF]) ls))"
  by (induction ls) (auto simp: line_ok_def clean_def)

text \<open>The head as the datagram parser cuts it off: the lines joined, without the last end of line.\<close>

definition cut_head :: "sipMessage \<Rightarrow> string" where
  "cut_head m = start_line m @ concat (map (\<lambda>h. crlf @ header_line h) (sm_Headers (with_length m)))"

lemma wire_head_cut: "wire_head m = cut_head m @ crlf"
  using join_lines [of "start_line m" "map header_line (sm_Headers (with_length m))"]
  by (simp add: wire_head_def head_lines_def cut_head_def comp_def)

lemma head_lines_snoc: "\<exists>ls l. head_lines m = ls @ [l]"
  by (metis append_butlast_last_id head_lines_def list.distinct(1))

lemma parseSIPHead_cut_head:
  assumes "well_formed m"
  shows "parseSIPHead (cut_head m) = Inr (with_length m\<lparr>sm_Body := []\<rparr>)"
proof -
  obtain ls l where ls: "head_lines m = ls @ [l]" using head_lines_snoc by blast
  with head_lines_ok [OF assms] have ok: "list_all line_ok ls" "line_ok l" by simp_all
  have "cut_head m @ crlf = (concat (map (\<lambda>l. l @ crlf) ls) @ l) @ crlf"
    using wire_head_cut [of m] by (simp add: wire_head_def ls)
  then have cut: "cut_head m = concat (map (\<lambda>l. l @ crlf) ls) @ l" by simp
  have "CR \<notin> set l" "NUL \<notin> set l" using ok(2) by (simp_all add: line_ok_def clean_def)
  then have "NUL \<notin> set (cut_head m)" "CR \<notin> set (crlf_to_lf (cut_head m))"
    using lines_free_of_NUL [OF ok(1)] lines_normalized_free_of_CR [OF ok(1)] normalize_lines [OF ok(1), of l]
    by (simp_all add: cut crlf_to_lf_none)
  moreover have "lines_of (cut_head m) = start_line m # map header_line (sm_Headers (with_length m))"
    using lines_of_open [OF ok] by (simp add: cut ls [symmetric] head_lines_def)
  moreover have "well_formed_start m" using assms by (simp add: well_formed_def)
  ultimately have "parseSIPHead (cut_head m) = Inr (m\<lparr>sm_Headers := sm_Headers (with_length m), sm_Body := []\<rparr>)"
    using with_length_headers [OF assms] by (intro parseSIPHead_lines) simp_all
  then show ?thesis by (simp add: with_length_def)
qed

lemma parseSIPHead_wire_head:
  assumes "well_formed m"
  shows "parseSIPHead (wire_head m) = Inr (with_length m\<lparr>sm_Body := []\<rparr>)"
proof -
  note ok = head_lines_ok [OF assms]
  have "NUL \<notin> set (wire_head m)" "CR \<notin> set (crlf_to_lf (wire_head m))"
    using lines_free_of_NUL [OF ok] lines_normalized_free_of_CR [OF ok] normalize_lines [OF ok, of "[]"]
    by (simp_all add: wire_head_def)
  moreover have "lines_of (wire_head m) = start_line m # map header_line (sm_Headers (with_length m))"
    using lines_of_ended [OF ok] by (simp add: wire_head_def head_lines_def)
  moreover have "well_formed_start m" using assms by (simp add: well_formed_def)
  ultimately have "parseSIPHead (wire_head m) = Inr (m\<lparr>sm_Headers := sm_Headers (with_length m), sm_Body := []\<rparr>)"
    using with_length_headers [OF assms] by (intro parseSIPHead_lines) simp_all
  then show ?thesis by (simp add: with_length_def)
qed

lemma split_head_wire:
  assumes "well_formed m"
  shows "split_head (cut_head m @ crlf @ crlf @ b) = (cut_head m, b)"
proof -
  let ?ls = "map header_line (sm_Headers (with_length m))"
  from head_lines_ok [OF assms] have ok: "line_ok (start_line m)" "list_all line_ok ?ls" by (simp_all add: head_lines_def)
  have cut: "cut_head m = start_line m @ concat (map (\<lambda>l. crlf @ l) ?ls)" by (simp add: cut_head_def comp_def)
  have "Index (crlf @ crlf) (cut_head m @ crlf @ crlf @ b) = Some (length (cut_head m))"
    using Index_head [OF ok, of b] unfolding cut by simp
  moreover have "\<And>i. Index [LF, LF] (cut_head m @ crlf @ crlf @ b) = Some i \<Longrightarrow> length (cut_head m) \<le> i"
    using Index_LFLF_head [OF ok, of b] unfolding cut by simp
  moreover have "drop (length (cut_head m) + 4) (cut_head m @ crlf @ crlf @ b) = b"
    by (simp add: crlf_def)
  ultimately show ?thesis unfolding split_head_def Let_def by (auto split: option.split)
qed

lemma datagram_read_back:
  assumes "well_formed m" "length (cut_head m) \<le> sipMaxHeadBytes"
  shows "parseSIPMessage (sipBytes m) = Inr (with_length m)"
proof -
  have bytes: "sipBytes m = cut_head m @ crlf @ crlf @ sm_Body m" by (simp add: sipBytes_wire wire_head_cut)
  have "line_ok (start_line m)" using head_lines_ok [OF assms(1)] by (simp add: head_lines_def)
  then have "dropWhile (\<lambda>c. c = CR \<or> c = LF) (sipBytes m) = sipBytes m" "sipBytes m \<noteq> []"
    by (cases "start_line m"; simp add: bytes cut_head_def line_ok_def)+
  moreover have "sipMessageContentLength (with_length m\<lparr>sm_Body := []\<rparr>) = Inr (Some (length (sm_Body m)))"
    by (rule content_length_read [OF assms(1)]) simp
  moreover have "length (sm_Body m) \<le> sipMaxBodyBytes" using assms(1) by (simp add: well_formed_def)
  moreover have "with_length m\<lparr>sm_Body := sm_Body m\<rparr> = with_length m" by (simp add: with_length_def)
  ultimately show ?thesis
    using assms(2) split_head_wire [OF assms(1), of "sm_Body m"] parseSIPHead_cut_head [OF assms(1)]
    by (simp add: parseSIPMessage_def bytes)
qed


section \<open>Streams\<close>

lemma ReadSlice_line:
  assumes "LF \<notin> set l" "length l + 2 \<le> buf"
  shows "ReadSlice buf (l @ crlf @ s) = Line (l @ crlf) s"
proof -
  obtain r where r: "take buf (l @ crlf @ s) = (l @ [CR]) @ LF # r"
    using assms(2) by (cases "buf - length l"; cases "buf - length l - 1") (auto simp: crlf_def)
  have "Index [LF] ((l @ [CR]) @ LF # r) = Some (length (l @ [CR]))"
    using Index_skip [of LF "l @ [CR]" "[]" "LF # r"] assms(1) by simp
  then have "ReadSlice buf (l @ crlf @ s) = Line (take (length (l @ [CR]) + 1) (l @ crlf @ s)) (drop (length (l @ [CR]) + 1) (l @ crlf @ s))"
    unfolding ReadSlice_def r by (simp only: option.case)
  then show ?thesis by (simp add: crlf_def)
qed

lemma trim_line_crlf: "clean l \<Longrightarrow> trim_line (l @ crlf) = l"
proof -
  assume "clean l"
  then have "dropWhile (\<lambda>c. c = CR \<or> c = LF) (rev l) = rev l" by (cases l rule: rev_cases) auto
  then show ?thesis by (simp add: trim_line_def crlf_def)
qed

lemma read_head_line:
  assumes "line_ok l" "length l + 2 \<le> buf" "length head + length l + 2 \<le> sipMaxHeadBytes"
  shows "read_head buf head started (l @ crlf @ s) = read_head buf (head @ l @ crlf) True s"
proof -
  from assms(1) have "LF \<notin> set l" "clean l" "l \<noteq> []" by (simp_all add: line_ok_def clean_def)
  moreover have "length (l @ crlf) = length l + 2" by (simp add: crlf_def)
  ultimately show ?thesis using assms(2,3)
    by (subst read_head.simps) (simp add: ReadSlice_line trim_line_crlf)
qed

lemma read_head_blank:
  assumes "2 \<le> buf"
  shows "read_head buf head started (crlf @ s) = (if started then Inr (head, s) else read_head buf head False s)"
  using assms ReadSlice_line [of "[]" buf s] trim_line_crlf [of "[]"] by (subst read_head.simps) simp

lemma read_head_keepalives:
  assumes "2 \<le> buf"
  shows "read_head buf head False (concat (replicate k crlf) @ s) = read_head buf head False s"
  by (induction k) (simp_all add: read_head_blank [OF assms])

lemma read_head_lines:
  assumes "list_all line_ok ls" "sipMaxHeadBytes \<le> buf"
    and "length head + length (concat (map (\<lambda>l. l @ crlf) ls)) \<le> sipMaxHeadBytes"
  shows "read_head buf head started (concat (map (\<lambda>l. l @ crlf) ls) @ s) =
    read_head buf (head @ concat (map (\<lambda>l. l @ crlf) ls)) (started \<or> ls \<noteq> []) s"
  using assms
proof (induction ls arbitrary: head started)
  case (Cons l ls)
  from Cons.prems have l: "line_ok l" "length l + 2 \<le> buf" "length head + length l + 2 \<le> sipMaxHeadBytes"
    by (simp_all add: crlf_def)
  have "read_head buf head started (concat (map (\<lambda>l. l @ crlf) (l # ls)) @ s) =
      read_head buf (head @ l @ crlf) True (concat (map (\<lambda>l. l @ crlf) ls) @ s)"
    using read_head_line [OF l, of started] by simp
  also have "\<dots> = read_head buf ((head @ l @ crlf) @ concat (map (\<lambda>l. l @ crlf) ls)) True s"
    using Cons.IH [of "head @ l @ crlf" True] Cons.prems by (simp add: crlf_def)
  finally show ?case by simp
qed simp

lemma stream_read_back:
  assumes "well_formed m" "length (wire_head m) \<le> sipMaxHeadBytes" "sipMaxHeadBytes \<le> buf"
  shows "readSIPStreamMessage buf (concat (replicate k crlf) @ sipBytes m @ rest) = Inr (with_length m, rest)"
proof -
  have two: "2 \<le> buf" using assms(3) by (simp add: sipMaxHeadBytes_def)
  have "read_head buf [] False (wire_head m @ crlf @ sm_Body m @ rest) = read_head buf (wire_head m) True (crlf @ sm_Body m @ rest)"
    using read_head_lines [OF head_lines_ok [OF assms(1)] assms(3), of "[]" False] assms(2)
    by (simp add: wire_head_def head_lines_def)
  then have "read_head buf [] False (concat (replicate k crlf) @ sipBytes m @ rest) = Inr (wire_head m, sm_Body m @ rest)"
    by (simp add: read_head_keepalives [OF two] read_head_blank [OF two] sipBytes_wire)
  moreover have "sipMessageContentLength (with_length m\<lparr>sm_Body := []\<rparr>) = Inr (Some (length (sm_Body m)))"
    by (rule content_length_read [OF assms(1)]) simp
  moreover have "length (sm_Body m) \<le> sipMaxBodyBytes" using assms(1) by (simp add: well_formed_def)
  moreover have "with_length m\<lparr>sm_Body := sm_Body m\<rparr> = with_length m" by (simp add: with_length_def)
  ultimately show ?thesis
    using parseSIPHead_wire_head [OF assms(1)] by (auto simp: readSIPStreamMessage_def Let_def)
qed

section \<open>The properties\<close>

text \<open>
  C22. A datagram is read back as it was written: for a well-formed message whose octets before the
  body fit the parser's 64 KB, parsing what \<open>Bytes\<close> writes returns the message itself, its
  Content-Length headers replaced by the one computed from the body.
\<close>

theorem parse_written_message:
  assumes "well_formed m" "length (sipBytes m) - length (sm_Body m) \<le> sipMaxHeadBytes"
  shows "parseSIPMessage (sipBytes m) =
    Inr (m\<lparr>sm_Headers := filter (\<lambda>h. sipHeaderKey (sh_Name h) \<noteq> ''content-length'') (sm_Headers m) @
      [\<lparr>sh_Name = ''Content-Length'', sh_Value = dec (length (sm_Body m))\<rparr>]\<rparr>)"
proof -
  have "length (cut_head m) \<le> sipMaxHeadBytes" using assms(2) by (simp add: sipBytes_wire wire_head_cut crlf_def)
  with datagram_read_back [OF assms(1)] show ?thesis by (simp add: with_length_def)
qed

text \<open>A probe's OPTIONS request and a peer's response.\<close>

definition sample_request :: sipMessage where
  "sample_request = \<lparr>sm_IsRequest = True, sm_Method = ''OPTIONS'', sm_RequestURI = ''sip:a@b'', sm_StatusCode = 0, sm_Reason = '''',
     sm_Headers = [\<lparr>sh_Name = ''Via'', sh_Value = ''SIP/2.0/UDP h;branch=z9''\<rparr>, \<lparr>sh_Name = ''Call-ID'', sh_Value = ''1''\<rparr>],
     sm_Body = ''v=0''\<rparr>"

definition sample_response :: sipMessage where
  "sample_response = \<lparr>sm_IsRequest = False, sm_Method = '''', sm_RequestURI = '''', sm_StatusCode = 200, sm_Reason = ''OK'',
     sm_Headers = [\<lparr>sh_Name = ''Server'', sh_Value = ''pbx''\<rparr>], sm_Body = ''''\<rparr>"

lemma samples_well_formed: "well_formed sample_request" "well_formed sample_response"
proof -
  have "well_formed_start sample_request" "list_all well_formed_header (sm_Headers sample_request)"
    "well_formed_start sample_response" "list_all well_formed_header (sm_Headers sample_response)"
    by code_simp+
  then show "well_formed sample_request" "well_formed sample_response"
    by (simp_all add: well_formed_def sample_request_def sample_response_def sipMaxBodyBytes_def)
qed

lemma samples_fit:
  "length (sipBytes sample_request) - length (sm_Body sample_request) \<le> sipMaxHeadBytes"
  "length (sipBytes sample_response) - length (sm_Body sample_response) \<le> sipMaxHeadBytes"
proof -
  have "length (sipBytes sample_request) = 91" "length (sipBytes sample_response) = 50" by code_simp+
  then show "length (sipBytes sample_request) - length (sm_Body sample_request) \<le> sipMaxHeadBytes"
    "length (sipBytes sample_response) - length (sm_Body sample_response) \<le> sipMaxHeadBytes"
    by (simp_all add: sipMaxHeadBytes_def)
qed

theorem parse_written_message_witness:
  "parseSIPMessage (sipBytes sample_request) =
    Inr (sample_request\<lparr>sm_Headers := sm_Headers sample_request @ [\<lparr>sh_Name = ''Content-Length'', sh_Value = ''3''\<rparr>]\<rparr>)"
proof -
  have "filter (\<lambda>h. sipHeaderKey (sh_Name h) \<noteq> ''content-length'') (sm_Headers sample_request) = sm_Headers sample_request"
    "dec (length (sm_Body sample_request)) = ''3''" by code_simp+
  then show ?thesis using parse_written_message [OF samples_well_formed(1) samples_fit(1)] by simp
qed

text \<open>
  C23. A stream keeps its framing: after any number of keepalives, a reader whose buffer holds a
  head reads from a well-formed message followed by more octets exactly that message, and leaves
  exactly those octets for the next read.
\<close>

theorem stream_framing:
  assumes "well_formed m" "length (sipBytes m) - length (sm_Body m) \<le> sipMaxHeadBytes" "sipMaxHeadBytes \<le> buf"
  shows "readSIPStreamMessage buf (concat (replicate k crlf) @ sipBytes m @ rest) =
    Inr (m\<lparr>sm_Headers := filter (\<lambda>h. sipHeaderKey (sh_Name h) \<noteq> ''content-length'') (sm_Headers m) @
      [\<lparr>sh_Name = ''Content-Length'', sh_Value = dec (length (sm_Body m))\<rparr>]\<rparr>, rest)"
proof -
  have "length (wire_head m) \<le> sipMaxHeadBytes" using assms(2) by (simp add: sipBytes_wire crlf_def)
  with stream_read_back [OF assms(1) _ assms(3)] show ?thesis by (simp add: with_length_def)
qed

theorem stream_framing_witness:
  "\<exists>m. readSIPStreamMessage sipMaxHeadBytes (concat (replicate 2 crlf) @ sipBytes sample_response @ sipBytes sample_request) =
    Inr (m, sipBytes sample_request) \<and> sm_StatusCode m = 200"
  using stream_framing [OF samples_well_formed(2) samples_fit(2) order_refl, where k = 2 and rest = "sipBytes sample_request"]
  by (intro exI conjI, assumption) (simp add: sample_response_def)

end
