(* ===== verification/SipAccept.thy ===== *)
theory SipAccept
  imports SipRoundtrip
begin

text \<open>
  What the parser accepts. Whatever octets a peer sends, an accepted message is well formed: its
  names are canonical tokens, its values are trimmed and carry no end of line, its code is in range.
  So what was accepted can be written and read again.
\<close>

section \<open>Elements of a list\<close>

text \<open>
  The scanner of \<open>splitSIPList\<close> as an automaton: in quotes, in angle brackets, after a backslash.
  It has no move on a comma that separates.
\<close>

definition scan_step :: "bool \<times> bool \<times> bool \<Rightarrow> char \<Rightarrow> (bool \<times> bool \<times> bool) option" where
  "scan_step st c =
     (case st of (q, a, esc) \<Rightarrow>
        if esc then Some (q, a, False)
        else if q \<and> c = CHR 0x5C then Some (q, a, True)
        else if c = CHR 0x22 then Some (\<not> q, a, False)
        else if \<not> q \<and> c = CHR ''<'' then Some (q, True, False)
        else if \<not> q \<and> c = CHR ''>'' then Some (q, False, False)
        else if \<not> q \<and> \<not> a \<and> c = CHR '','' then None
        else Some (q, a, False))"

fun scan :: "bool \<times> bool \<times> bool \<Rightarrow> string \<Rightarrow> (bool \<times> bool \<times> bool) option" where
  "scan st [] = Some st"
| "scan st (c # s) = (case scan_step st c of None \<Rightarrow> None | Some st' \<Rightarrow> scan st' s)"

lemma scan_append: "scan st (s @ t) = (case scan st s of None \<Rightarrow> None | Some st' \<Rightarrow> scan st' t)"
  by (induction s arbitrary: st) (auto split: option.splits)

declare split_list_loop.simps(2) [simp del]

lemma loop_step:
  "split_list_loop q a part (c # s) =
     (case scan_step (q, a, False) c of
        None \<Rightarrow> keep_part (rev part) @ split_list_loop q a [] s
      | Some (q', a', esc) \<Rightarrow>
          (if \<not> esc then split_list_loop q' a' (c # part) s
           else case s of [] \<Rightarrow> keep_part (rev part @ [c]) | c' # s' \<Rightarrow> split_list_loop q' a' (c' # c # part) s'))"
  unfolding split_list_loop.simps(2) [of q a part c s] scan_step_def by (cases q; cases a; cases s) simp_all

lemma scan_escaped: "scan (q, a, True) (c # s) = scan (q, a, False) s"
  by (simp add: scan_step_def)

lemma loop_unsplit:
  "scan (q, a, False) s \<noteq> None \<Longrightarrow> split_list_loop q a part s = keep_part (rev part @ s)"
proof (induction s arbitrary: q a part rule: length_induct)
  case (1 s)
  show ?case
  proof (cases s)
    case (Cons c r)
    with 1 obtain q' a' esc where st: "scan_step (q, a, False) c = Some (q', a', esc)" "scan (q', a', esc) r \<noteq> None"
      by (auto split: option.splits)
    show ?thesis
    proof (cases esc)
      case False
      with Cons st 1 show ?thesis by (simp add: loop_step)
    next
      case True
      with Cons st 1 show ?thesis by (cases r) (simp_all add: loop_step scan_escaped del: scan.simps(2))
    qed
  qed simp
qed

abbreviation (input) outside :: "bool \<times> bool \<times> bool" where
  "outside \<equiv> (False, False, False)"

text \<open>Every element was scanned from outside without meeting a separator.\<close>

definition element_of :: "string \<Rightarrow> string \<Rightarrow> bool" where
  "element_of whole p \<longleftrightarrow> (\<exists>w. p = TrimSpace w \<and> p \<noteq> [] \<and> scan outside w \<noteq> None \<and> set w \<subseteq> set whole)"

lemma keep_part_element:
  "p \<in> set (keep_part w) \<Longrightarrow> scan outside w = Some st \<Longrightarrow> set w \<subseteq> set whole \<Longrightarrow> element_of whole p"
  unfolding keep_part_def element_of_def by (rule exI [of _ w]) (simp split: if_splits)

lemma loop_elements:
  assumes "p \<in> set (split_list_loop q a part s)" "scan outside (rev part) = Some (q, a, False)"
    and "set part \<subseteq> set whole" "set s \<subseteq> set whole"
  shows "element_of whole p"
  using assms
proof (induction s arbitrary: q a part rule: length_induct)
  case (1 s)
  note hyp = "1.prems" and IH = "1.IH" [rule_format]
  show ?case
  proof (cases s)
    case Nil
    with hyp have "p \<in> set (keep_part (rev part))" by simp
    then show ?thesis using hyp(2) by (rule keep_part_element) (use hyp(3) in simp)
  next
    case (Cons c r)
    have ext: "scan outside (rev part @ [c]) = scan_step (q, a, False) c"
      using hyp(2) by (simp add: scan_append split: option.split)
    show ?thesis
    proof (cases "scan_step (q, a, False) c")
      case None
      then have "q = False" "a = False" by (auto simp: scan_step_def split: if_splits)
      from None hyp(1) Cons consider "p \<in> set (keep_part (rev part))" | "p \<in> set (split_list_loop q a [] r)"
        by (auto simp: loop_step)
      then show ?thesis
      proof cases
        case 1
        then show ?thesis using hyp(2) by (rule keep_part_element) (use hyp(3) in simp)
      next
        case 2
        with hyp Cons \<open>q = False\<close> \<open>a = False\<close> show ?thesis by (intro IH [of r q a "[]"]) simp_all
      qed
    next
      case (Some st)
      then obtain q' a' esc where st: "scan_step (q, a, False) c = Some (q', a', esc)" by (cases st) auto
      show ?thesis
      proof (cases esc)
        case False
        with hyp Cons st ext show ?thesis by (intro IH [of r q' a' "c # part"]) (simp_all add: loop_step)
      next
        case True
        show ?thesis
        proof (cases r)
          case Nil
          with hyp Cons st True have "p \<in> set (keep_part (rev part @ [c]))" by (simp add: loop_step)
          then show ?thesis using ext [unfolded st] by (rule keep_part_element) (use hyp Cons in simp)
        next
          case (Cons c' r')
          have "scan outside ((rev part @ [c]) @ [c']) = Some (q', a', False)"
            using ext [unfolded st] True scan_append [of outside "rev part @ [c]" "[c']"] by (simp add: scan_step_def)
          with hyp \<open>s = c # r\<close> Cons st True show ?thesis by (intro IH [of r' q' a' "c' # c # part"]) (simp_all add: loop_step)
        qed
      qed
    qed
  qed
qed

text \<open>Trimming removes no character the scanner looks at.\<close>

lemma trim_with_removes: "\<exists>p. s = p @ trim_with encs s \<and> set p \<subseteq> set (concat encs)"
proof (induction encs s rule: trim_with.induct)
  case (1 encs s)
  show ?case
  proof (cases "find (\<lambda>e. e \<noteq> [] \<and> prefix e s) encs")
    case None
    then show ?thesis by (simp add: trim_with.simps [of encs s])
  next
    case (Some e)
    then have e: "e \<in> set encs" "prefix e s" by (auto dest: find_SomeD)
    from 1 [OF Some] obtain p where p: "drop (length e) s = p @ trim_with encs (drop (length e) s)" "set p \<subseteq> set (concat encs)"
      by blast
    from e(2) have "s = (e @ p) @ trim_with encs (drop (length e) s)" using p(1) by (auto simp: prefix_def)
    moreover have "trim_with encs s = trim_with encs (drop (length e) s)"
      unfolding trim_with.simps [of encs s] Some by simp
    moreover have "set (e @ p) \<subseteq> set (concat encs)" using e p(2) by auto
    ultimately show ?thesis by metis
  qed
qed

lemma space_neutral: "list_all (\<lambda>c. scan_step outside c = Some outside) (concat space_encodings)"
  by code_simp

lemma scan_neutral: "list_all (\<lambda>c. scan_step outside c = Some outside) p \<Longrightarrow> scan outside (p @ s) = scan outside s"
  by (induction p) auto

lemma scan_TrimSpace:
  assumes "scan outside w \<noteq> None"
  shows "scan outside (TrimSpace w) \<noteq> None"
proof -
  let ?l = "trim_with space_encodings w"
  obtain p where p: "w = p @ ?l" "set p \<subseteq> set (concat space_encodings)" using trim_with_removes by blast
  have "list_all (\<lambda>c. scan_step outside c = Some outside) p"
    using p(2) space_neutral unfolding list_all_iff by blast
  with assms p(1) have l: "scan outside ?l \<noteq> None" using scan_neutral by metis
  obtain r where "rev ?l = r @ trim_with (map rev space_encodings) (rev ?l)" using trim_with_suffix by blast
  then have "?l = TrimSpace w @ rev r" unfolding TrimSpace_def by (metis rev_append rev_rev_ident)
  then have "scan outside ?l = (case scan outside (TrimSpace w) of None \<Rightarrow> None | Some st \<Rightarrow> scan st (rev r))"
    by (metis scan_append)
  with l show ?thesis by (auto split: option.splits)
qed

lemma element_unsplit:
  assumes "element_of whole p"
  shows "splitSIPList p = [p]" "trimmed p" "set p \<subseteq> set whole"
proof -
  from assms obtain w where w: "p = TrimSpace w" "p \<noteq> []" "scan outside w \<noteq> None" "set w \<subseteq> set whole"
    by (auto simp: element_of_def)
  then show "trimmed p" using trimmed_TrimSpace by simp
  then have "TrimSpace p = p" by (rule TrimSpace_trimmed)
  moreover have "scan outside p \<noteq> None" using scan_TrimSpace w by simp
  ultimately show "splitSIPList p = [p]" using w(2) loop_unsplit [of False False p "[]"] by (simp add: splitSIPList_def keep_part_def)
  show "set p \<subseteq> set whole" using w TrimSpace_set by blast
qed

lemma splitSIPList_empty: "splitSIPList '''' = ['''']"
  by code_simp

lemma splitSIPList_parts:
  assumes "p \<in> set (splitSIPList value)"
  shows "splitSIPList p = [p]" "trimmed p" "set p \<subseteq> set value"
proof -
  from assms consider "p = ''''" | "p \<in> set (split_list_loop False False [] value)"
    by (auto simp: splitSIPList_def Let_def split: if_splits)
  then have "splitSIPList p = [p] \<and> trimmed p \<and> set p \<subseteq> set value"
  proof cases
    case 1
    then show ?thesis using splitSIPList_empty visible_trimmed [of "[]"] by simp
  next
    case 2
    then have "element_of value p" by (rule loop_elements) simp_all
    then show ?thesis using element_unsplit by blast
  qed
  then show "splitSIPList p = [p]" "trimmed p" "set p \<subseteq> set value" by simp_all
qed


section \<open>Header fields\<close>

lemma canonical_names_trimmed: "list_all (\<lambda>(k, c). TrimSpace c = c) sipCanonicalNames"
proof -
  have "list_all (\<lambda>(k, c). list_all visible c) sipCanonicalNames" by (simp add: sipCanonicalNames_def visible_def)
  then show ?thesis by (auto simp: list_all_iff intro!: TrimSpace_trimmed visible_trimmed)
qed

lemma canonical_names_tokens: "list_all (\<lambda>(k, c). isSIPToken c) sipCanonicalNames"
  by (simp add: sipCanonicalNames_def isSIPToken_def token_char_def is_digit_def)

lemma canonical_names_lower: "list_all (\<lambda>(k, c). ToLower c = k) sipCanonicalNames"
  by code_simp

lemma canonical_names_long: "list_all (\<lambda>(k, c). map_of sipCompactForms k = None \<and> map_of sipCanonicalNames k = Some c) sipCanonicalNames"
  by code_simp

lemma canonical_names_fixed:
  "list_all (\<lambda>(k, c). isSIPToken c \<and> sipCanonicalName c = c \<and> sipHeaderKey c = k) sipCanonicalNames"
proof -
  have "isSIPToken c \<and> sipCanonicalName c = c \<and> sipHeaderKey c = k" if "(k, c) \<in> set sipCanonicalNames" for k c
  proof -
    from that canonical_names_trimmed canonical_names_tokens canonical_names_lower canonical_names_long
    have "TrimSpace c = c" "isSIPToken c" "ToLower c = k" "map_of sipCompactForms k = None" "map_of sipCanonicalNames k = Some c"
      by (auto simp: list_all_iff)
    then show ?thesis by (simp add: sipCanonicalName_def sipHeaderKey_def)
  qed
  then show ?thesis by (auto simp: list_all_iff)
qed

lemma compact_forms_listed: "list_all (\<lambda>(_, full). map_of sipCanonicalNames full \<noteq> None) sipCompactForms"
  by code_simp

lemma canonical_name:
  assumes "isSIPToken name"
  shows "isSIPToken (sipCanonicalName name)" "sipCanonicalName (sipCanonicalName name) = sipCanonicalName name"
    "sipHeaderKey (sipCanonicalName name) = sipHeaderKey name"
proof -
  have trim: "TrimSpace name = name" using assms by (intro TrimSpace_trimmed visible_trimmed isSIPToken_visible)
  have "isSIPToken (sipCanonicalName name) \<and> sipCanonicalName (sipCanonicalName name) = sipCanonicalName name \<and>
    sipHeaderKey (sipCanonicalName name) = sipHeaderKey name"
  proof (cases "map_of sipCanonicalNames (sipHeaderKey name)")
    case (Some c)
    then have "(sipHeaderKey name, c) \<in> set sipCanonicalNames" by (rule map_of_SomeD)
    with canonical_names_fixed have "isSIPToken c" "sipCanonicalName c = c" "sipHeaderKey c = sipHeaderKey name"
      by (auto simp: list_all_iff)
    with Some show ?thesis by (simp add: sipCanonicalName_def [of name] Let_def)
  next
    case None
    have "map_of sipCompactForms (ToLower name) = None"
    proof (rule ccontr)
      assume "map_of sipCompactForms (ToLower name) \<noteq> None"
      then obtain full where full: "map_of sipCompactForms (ToLower name) = Some full" by blast
      then have "(ToLower name, full) \<in> set sipCompactForms" by (rule map_of_SomeD)
      with compact_forms_listed have "map_of sipCanonicalNames full \<noteq> None" by (auto simp: list_all_iff)
      with full None show False by (simp add: sipHeaderKey_def trim)
    qed
    then have "sipCanonicalName name = name" using None by (simp add: sipCanonicalName_def Let_def trim)
    with assms show ?thesis by simp
  qed
  then show "isSIPToken (sipCanonicalName name)" "sipCanonicalName (sipCanonicalName name) = sipCanonicalName name"
    "sipHeaderKey (sipCanonicalName name) = sipHeaderKey name" by simp_all
qed

lemma clean_subset: "clean t \<Longrightarrow> set s \<subseteq> set t \<Longrightarrow> clean s"
  by (auto simp: clean_def)

lemma parse_field_well_formed:
  assumes "parse_field field = Inr hs" "clean field"
  shows "list_all well_formed_header hs"
proof -
  obtain name0 value0 found where cut: "Cut (CHR '':'') field = (name0, value0, found)" by (metis prod_cases3)
  define name where "name = trim_right_blanks name0"
  from assms(1) cut have found: found and token: "isSIPToken name"
    and hs: "hs = (if sipHeaderKey name \<in> set sipListHeaders
      then map (\<lambda>part. \<lparr>sh_Name = sipCanonicalName name, sh_Value = part\<rparr>) (splitSIPList (TrimSpace value0))
      else [\<lparr>sh_Name = sipCanonicalName name, sh_Value = TrimSpace value0\<rparr>])"
    by (simp_all add: parse_field_def name_def Let_def split: if_splits)
  from Cut_parts(2) [OF cut found] assms(2) have "clean value0" by simp
  then have val: "clean (TrimSpace value0)" using TrimSpace_set clean_subset by blast
  have "clean p \<and> trimmed p \<and> splitSIPList p = [p]" if "p \<in> set (splitSIPList (TrimSpace value0))" for p
    using splitSIPList_parts [OF that] clean_subset [OF val] by blast
  then show ?thesis
    using canonical_name [OF token] val trimmed_TrimSpace [of value0]
    by (auto simp: hs list_all_iff well_formed_header_def)
qed

lemma parse_fields_well_formed:
  "parse_fields fs = Inr hs \<Longrightarrow> list_all clean fs \<Longrightarrow> list_all well_formed_header hs"
proof (induction fs arbitrary: hs)
  case (Cons f fs)
  then show ?case by (auto simp: bindE_eq_Inr dest: parse_field_well_formed)
qed simp

lemma unfold_lines_clean:
  "unfold_lines fs ls = Inr out \<Longrightarrow> list_all clean fs \<Longrightarrow> list_all clean ls \<Longrightarrow> list_all clean out"
proof (induction fs ls arbitrary: out rule: unfold_lines.induct)
  case (1 fs)
  then show ?case by (auto simp: list_all_iff)
next
  case (2 fs line rest)
  have "clean (TrimSpace line)" using "2.prems"(3) TrimSpace_set clean_subset by auto
  with 2 show ?case by (auto split: if_splits list.splits)
qed

section \<open>Start lines\<close>

lemma SplitN_set: "x \<in> set (SplitN c n s) \<Longrightarrow> set x \<subseteq> set s"
proof (induction c n s rule: SplitN.induct)
  case (3 c n s)
  obtain a b found where cut: "Cut c s = (a, b, found)" by (metis prod_cases3)
  have sub: "set a \<subseteq> set s \<and> (found \<longrightarrow> set b \<subseteq> set s)"
  proof (cases found)
    case True
    from Cut_parts(2) [OF cut this] show ?thesis by auto
  next
    case False
    with Cut_parts(3) [OF cut False] show ?thesis by simp
  qed
  show ?case
  proof (cases found)
    case True
    with "3.prems" cut have "x = a \<or> x \<in> set (SplitN c (Suc n) b)" by simp
    with "3.IH" [OF cut [symmetric] refl refl True] sub True cut show ?thesis by auto
  next
    case False
    with "3.prems" cut sub show ?thesis by simp
  qed
qed simp_all

lemma parseSIPStartLine_well_formed:
  assumes "parseSIPStartLine line = Inr m" "clean line"
  shows "well_formed_start m" "sm_Headers m = []" "sm_Body m = []"
proof -
  have "well_formed_start m \<and> sm_Headers m = [] \<and> sm_Body m = []"
  proof (cases "length line \<ge> 4 \<and> EqualFold (take 4 line) ''SIP/''")
    case True
    let ?parts = "SplitN (CHR '' '') 3 line"
    from assms(1) True obtain code where code: "100 \<le> code" "code \<le> 699"
      and m: "m = \<lparr>sm_IsRequest = False, sm_Method = '''', sm_RequestURI = '''', sm_StatusCode = code,
        sm_Reason = (if length ?parts = 3 then TrimSpace (?parts ! 2) else ''''), sm_Headers = [], sm_Body = ''''\<rparr>"
      unfolding parseSIPStartLine_def Let_def by (auto split: if_splits option.splits)
    have "clean (TrimSpace (?parts ! 2))" if "length ?parts = 3"
    proof -
      have "?parts ! 2 \<in> set ?parts" using that by simp
      then have "set (?parts ! 2) \<subseteq> set line" by (rule SplitN_set)
      with TrimSpace_set have "set (TrimSpace (?parts ! 2)) \<subseteq> set line" by blast
      with assms(2) show ?thesis by (rule clean_subset)
    qed
    then show ?thesis using code visible_trimmed [of "[]"] by (simp add: m well_formed_start_def trimmed_TrimSpace)
  next
    case False
    let ?parts = "Split (CHR '' '') line"
    from assms(1) False have parts: "length ?parts = 3" "isSIPToken (?parts ! 0)" "CHR '':'' \<in> set (?parts ! 1)"
      "set (?parts ! 1) \<inter> {CHR ''<'', CHR ''>'', HT, CHR 0x22} = {}"
      and m: "m = \<lparr>sm_IsRequest = True, sm_Method = ?parts ! 0, sm_RequestURI = ?parts ! 1, sm_StatusCode = 0,
        sm_Reason = '''', sm_Headers = [], sm_Body = ''''\<rparr>"
      unfolding parseSIPStartLine_def Let_def by (auto split: if_splits)
    have "?parts ! 1 \<in> set ?parts" using parts(1) by simp
    from Split_set [OF this] have "CHR '' '' \<notin> set (?parts ! 1)" "clean (?parts ! 1)"
      using clean_subset [OF assms(2)] by auto
    with parts show ?thesis by (auto simp: m well_formed_start_def)
  qed
  then show "well_formed_start m" "sm_Headers m = []" "sm_Body m = []" by simp_all
qed

section \<open>Messages\<close>

lemma lines_clean:
  assumes "NUL \<notin> set head" "CR \<notin> set (crlf_to_lf head)"
  shows "list_all clean (Split LF (crlf_to_lf head))"
  using assms Split_set [of _ LF "crlf_to_lf head"] crlf_to_lf_set [of head] by (force simp: list_all_iff clean_def)

lemma parseSIPHead_well_formed:
  assumes "parseSIPHead head = Inr m"
  shows "well_formed_start m" "list_all well_formed_header (sm_Headers m)" "sm_Body m = []"
proof -
  from assms obtain line rest msg fs hs
    where no: "NUL \<notin> set head" "CR \<notin> set (crlf_to_lf head)"
      and ls: "rev (dropWhile (\<lambda>l. l = []) (rev (Split LF (crlf_to_lf head)))) = line # rest"
      and msg: "parseSIPStartLine line = Inr msg" and fs: "unfold_lines [] rest = Inr fs"
      and hs: "parse_fields fs = Inr hs" and m: "m = msg\<lparr>sm_Headers := hs\<rparr>"
    unfolding parseSIPHead_def Let_def by (auto simp: bindE_eq_Inr split: if_splits list.splits)
  have "set (line # rest) \<subseteq> set (Split LF (crlf_to_lf head))"
    unfolding ls [symmetric] set_rev using set_dropWhileD by fastforce
  with lines_clean [OF no] have clean: "clean line" "list_all clean rest" by (auto simp: list_all_iff)
  have "list_all clean fs" by (rule unfold_lines_clean [OF fs _ clean(2)]) simp
  from parse_fields_well_formed [OF hs this] show "list_all well_formed_header (sm_Headers m)" by (simp add: m)
  from parseSIPStartLine_well_formed [OF msg clean(1)] show "well_formed_start m" "sm_Body m = []"
    by (simp_all add: m well_formed_start_def)
qed

lemma accepted_well_formed:
  assumes "parseSIPMessage data = Inr m"
  shows "well_formed m"
proof -
  let ?data = "dropWhile (\<lambda>c. c = CR \<or> c = LF) data"
  obtain head body where split: "split_head ?data = (head, body)" by (metis surj_pair)
  have "bindE (parseSIPHead head) (\<lambda>msg. bindE (sipMessageContentLength msg) (\<lambda>len. case len of
        Some n \<Rightarrow>
          if n > length body then Inl LengthExceedsBody
          else if n > sipMaxBodyBytes then Inl BodyTooLarge
          else Inr (msg\<lparr>sm_Body := take n body\<rparr>)
      | None \<Rightarrow> if length body > sipMaxBodyBytes then Inl BodyTooLarge else Inr (msg\<lparr>sm_Body := body\<rparr>))) = Inr m"
    using assms unfolding parseSIPMessage_def Let_def split prod.case by (metis Inl_Inr_False)
  then obtain msg len where msg: "parseSIPHead head = Inr msg"
    and rest: "(case len of
        Some n \<Rightarrow>
          if n > length body then Inl LengthExceedsBody
          else if n > sipMaxBodyBytes then Inl BodyTooLarge
          else Inr (msg\<lparr>sm_Body := take n body\<rparr>)
      | None \<Rightarrow> if length body > sipMaxBodyBytes then Inl BodyTooLarge else Inr (msg\<lparr>sm_Body := body\<rparr>)) = Inr m"
    unfolding bindE_eq_Inr by blast
  have "well_formed_start m \<and> sm_Headers m = sm_Headers msg \<and> length (sm_Body m) \<le> sipMaxBodyBytes"
    using rest parseSIPHead_well_formed(1) [OF msg]
    by (cases len) (auto simp: well_formed_start_def split: if_split_asm)
  with parseSIPHead_well_formed(2) [OF msg] show ?thesis by (simp add: well_formed_def)
qed

lemma streamed_well_formed:
  assumes "readSIPStreamMessage buf s = Inr (m, rest)"
  shows "well_formed m"
proof -
  from assms obtain head r msg len where msg: "parseSIPHead head = Inr msg"
    and body: "let n = (case len of None \<Rightarrow> 0 | Some n \<Rightarrow> n) in
       (if n > sipMaxBodyBytes then Inl BodyTooLarge
        else if n = 0 then Inr (msg, r)
        else if length r < n then Inl UnexpectedEOF
        else Inr (msg\<lparr>sm_Body := take n r\<rparr>, drop n r)) = Inr (m, rest)"
    unfolding readSIPStreamMessage_def bindE_eq_Inr by (auto simp: bindE_eq_Inr Let_def)
  have "well_formed_start m \<and> sm_Headers m = sm_Headers msg \<and> length (sm_Body m) \<le> sipMaxBodyBytes"
    using body parseSIPHead_well_formed(1,3) [OF msg]
    by (auto simp: well_formed_start_def Let_def split: if_split_asm)
  with parseSIPHead_well_formed(2) [OF msg] show ?thesis by (simp add: well_formed_def)
qed

text \<open>
  C21. Every message the parser accepts, from a datagram or from a stream, is well formed: a request
  with a token for a method and a URI that has a colon and no blank, quote or angle bracket, or a
  response with a code from 100 to 699; header names that are canonical tokens; values without CR, LF
  or NUL, trimmed, and for Via, Route, Record-Route and Contact a single element each; a body of at
  most 64 KB.
\<close>

theorem parser_accepts_well_formed:
  assumes "parseSIPMessage data = Inr m \<or> readSIPStreamMessage buf data = Inr (m, rest)"
  shows "well_formed m"
  using assms accepted_well_formed streamed_well_formed by blast

theorem parser_accepts_well_formed_witness:
  "\<exists>m. parseSIPMessage (sipBytes sample_request) = Inr m \<and> well_formed m"
proof -
  have "length (cut_head sample_request) \<le> sipMaxHeadBytes"
    using samples_fit(1) by (simp add: sipBytes_wire wire_head_cut crlf_def)
  from datagram_read_back [OF samples_well_formed(1) this]
  have read: "parseSIPMessage (sipBytes sample_request) = Inr (with_length sample_request)" .
  from parser_accepts_well_formed [OF disjI1 [OF read]] read show ?thesis by blast
qed

end
