(* ===== verification/SipRequest.thy ===== *)
theory SipRequest
  imports SipMessage
begin

text \<open>
  Requests and replies (\<open>worker/internal/worker/sip_message.go\<close>, \<open>sip_uas.go\<close>, \<open>viaValue\<close> of
  \<open>sip_flow.go\<close>): header parameters, name-addr values, the assembly of a request, the reply to one,
  and what identifies its transaction. The argument \<open>up\<close> is Unicode's upper case outside ASCII.
\<close>

section \<open>Parameters\<close>

text \<open>The loop of \<open>sipUnquote\<close> over the text between the quotes.\<close>

fun unquote_loop :: "string \<Rightarrow> string option" where
  "unquote_loop [] = Some []"
| "unquote_loop (c # s) =
     (if c = CHR 0x5C then (case s of [] \<Rightarrow> None | c' # s' \<Rightarrow> map_option ((#) c') (unquote_loop s'))
      else if c = CHR 0x22 then None
      else map_option ((#) c) (unquote_loop s))"

definition sipUnquote :: "string \<Rightarrow> string option" where
  "sipUnquote s =
     (if length s < 2 \<or> s ! 0 \<noteq> CHR 0x22 \<or> s ! (length s - 1) \<noteq> CHR 0x22 then None
      else unquote_loop (take (length s - 2) (drop 1 s)))"

text \<open>The loop of \<open>splitSIPParams\<close>; \<open>part\<close> is what was read since the last semicolon, reversed.\<close>

fun params_loop :: "bool \<Rightarrow> string \<Rightarrow> string \<Rightarrow> string list" where
  "params_loop inQuote part [] = keep_part (rev part)"
| "params_loop inQuote part (c # s) =
     (if inQuote \<and> c = CHR 0x5C then
        (case s of [] \<Rightarrow> params_loop inQuote (c # part) []
         | c' # s' \<Rightarrow> params_loop inQuote (c' # c # part) s')
      else if c = CHR 0x22 then params_loop (\<not> inQuote) (c # part) s
      else if \<not> inQuote \<and> c = CHR '';'' then keep_part (rev part) @ params_loop inQuote [] s
      else params_loop inQuote (c # part) s)"

definition splitSIPParams :: "string \<Rightarrow> string list" where
  "splitSIPParams params = params_loop False [] params"

fun param_loop :: "string \<Rightarrow> string list \<Rightarrow> string \<times> bool" where
  "param_loop name [] = ('''', False)"
| "param_loop name (p # ps) =
     (let (k, v, _) = Cut (CHR ''='') p in
      if EqualFold (TrimSpace k) name then
        (case sipUnquote (TrimSpace v) of Some unquoted \<Rightarrow> (unquoted, True) | None \<Rightarrow> (TrimSpace v, True))
      else param_loop name ps)"

definition sipParam :: "string \<Rightarrow> string \<Rightarrow> string \<times> bool" where
  "sipParam params name = param_loop name (splitSIPParams params)"

section \<open>Name and address\<close>

record sipNameAddr =
  na_Display :: string
  na_URI :: string
  na_Params :: string

datatype name_addr_error = UnbalancedQuotes | InvalidNameAddr | EmptyURI | InvalidQuoted | UnterminatedURI | TextAfterURI

text \<open>Where the first \<open><\<close> outside quotes is, and whether the scan ended inside quotes.\<close>

fun angle_loop :: "bool \<Rightarrow> nat \<Rightarrow> string \<Rightarrow> nat option \<times> bool" where
  "angle_loop inQuote i [] = (None, inQuote)"
| "angle_loop inQuote i (c # s) =
     (if inQuote \<and> c = CHR 0x5C then
        (case s of [] \<Rightarrow> (None, inQuote) | _ # s' \<Rightarrow> angle_loop inQuote (i + 2) s')
      else if c = CHR 0x22 then angle_loop (\<not> inQuote) (i + 1) s
      else if \<not> inQuote \<and> c = CHR ''<'' then (Some i, inQuote)
      else angle_loop inQuote (i + 1) s)"

definition bare_addr :: "string \<Rightarrow> name_addr_error + sipNameAddr" where
  "bare_addr v =
     (if CHR 0x22 \<in> set v \<or> CHR ''>'' \<in> set v then Inl InvalidNameAddr
      else
        let (uri, params, _) = Cut (CHR '';'') v in
        if TrimSpace uri = '''' then Inl EmptyURI
        else Inr \<lparr>na_Display = '''', na_URI = TrimSpace uri, na_Params = (if params \<noteq> '''' then CHR '';'' # params else '''')\<rparr>)"

definition angle_addr :: "string \<Rightarrow> nat \<Rightarrow> name_addr_error + sipNameAddr" where
  "angle_addr v angle =
     (let display = TrimSpace (take angle v) in
      case (if prefix [CHR 0x22] display then sipUnquote display else Some display) of
        None \<Rightarrow> Inl InvalidQuoted
      | Some shown \<Rightarrow>
          (case Index [CHR ''>''] (drop angle v) of
             None \<Rightarrow> Inl UnterminatedURI
           | Some endpos \<Rightarrow>
               let uri = TrimSpace (drop (angle + 1) (take (angle + endpos) v));
                   params = TrimSpace (drop (angle + endpos + 1) v) in
               if uri = '''' then Inl EmptyURI
               else if params \<noteq> '''' \<and> \<not> prefix '';'' params then Inl TextAfterURI
               else Inr \<lparr>na_Display = shown, na_URI = uri, na_Params = params\<rparr>))"

definition parseSIPNameAddr :: "string \<Rightarrow> name_addr_error + sipNameAddr" where
  "parseSIPNameAddr value0 =
     (let v = TrimSpace value0 in
      case angle_loop False 0 v of
        (None, inQuote) \<Rightarrow> if inQuote then Inl UnbalancedQuotes else bare_addr v
      | (Some angle, _) \<Rightarrow> angle_addr v angle)"

definition sipHeaderTag :: "string \<Rightarrow> string" where
  "sipHeaderTag value0 = (case parseSIPNameAddr value0 of Inl _ \<Rightarrow> '''' | Inr na \<Rightarrow> fst (sipParam (na_Params na) ''tag''))"

section \<open>What identifies a transaction\<close>

definition sipViaBranch :: "string \<Rightarrow> string" where
  "sipViaBranch via = (let (_, params, _) = Cut (CHR '';'') via in fst (sipParam params ''branch''))"

definition topViaBranch :: "sipMessage \<Rightarrow> string" where
  "topViaBranch m = (case Values m ''Via'' of [] \<Rightarrow> '''' | via # _ \<Rightarrow> sipViaBranch via)"

definition cseq :: "(string \<Rightarrow> string) \<Rightarrow> sipMessage \<Rightarrow> (nat \<times> string) option" where
  "cseq up m =
     (let words = Fields (Get m ''CSeq'') in
      if length words \<noteq> 2 then None
      else case ParseUint31 (words ! 0) of None \<Rightarrow> None | Some n \<Rightarrow> Some (n, ToUpper up (words ! 1)))"

text \<open>Random octets are an argument; \<open>None\<close> is a failed read.\<close>

definition sipRandomToken :: "nat \<Rightarrow> 8 word list option \<Rightarrow> string" where
  "sipRandomToken n rand = (case rand of None \<Rightarrow> replicate (2 * n) (CHR ''0'') | Some buf \<Rightarrow> hex_encode buf)"

definition newSIPBranch :: "8 word list option \<Rightarrow> string" where
  "newSIPBranch rand = ''z9hG4bK'' @ sipRandomToken 8 rand"

definition viaValue :: "(string \<Rightarrow> string) \<Rightarrow> string \<Rightarrow> string \<Rightarrow> string \<Rightarrow> string" where
  "viaValue up transport sentBy branch = ''SIP/2.0/'' @ ToUpper up transport @ '' '' @ sentBy @ '';branch='' @ branch @ '';rport''"

section \<open>Requests\<close>

record sipRequestParams =
  p_Method :: string
  p_RequestURI :: string
  p_Via :: string
  p_From :: string
  p_FromTag :: string
  p_To :: string
  p_ToTag :: string
  p_CallID :: string
  p_CSeq :: int
  p_Route :: "string list"
  p_Contact :: string
  p_Extra :: "sipHeader list"
  p_Body :: string
  p_ContentType :: string

definition with_tag :: "string \<Rightarrow> string \<Rightarrow> string" where
  "with_tag addr tag = (if tag \<noteq> '''' then addr @ '';tag='' @ tag else addr)"

definition buildSIPRequest :: "sipRequestParams \<Rightarrow> sipMessage" where
  "buildSIPRequest p =
     (let m0 = \<lparr>sm_IsRequest = True, sm_Method = p_Method p, sm_RequestURI = p_RequestURI p, sm_StatusCode = 0,
          sm_Reason = '''', sm_Headers = [], sm_Body = ''''\<rparr>;
          m1 = Add ''Max-Forwards'' ''70'' (Add ''Via'' (p_Via p) m0);
          m2 = fold (Add ''Route'') (p_Route p) m1;
          m3 = Add ''From'' (with_tag (p_From p) (p_FromTag p)) m2;
          m4 = Add ''To'' (with_tag (p_To p) (p_ToTag p)) m3;
          m5 = Add ''Call-ID'' (p_CallID p) m4;
          m6 = Add ''CSeq'' (show_int (p_CSeq p) @ '' '' @ p_Method p) m5;
          m7 = (if p_Contact p \<noteq> '''' then Add ''Contact'' (p_Contact p) m6 else m6);
          m8 = fold (\<lambda>h. Add (sh_Name h) (sh_Value h)) (p_Extra p) m7;
          m9 = Add ''User-Agent'' ''Probara'' m8 in
      if p_Body p \<noteq> [] then (Add ''Content-Type'' (p_ContentType p) m9)\<lparr>sm_Body := p_Body p\<rparr> else m9)"

section \<open>Replies\<close>

definition buildSIPResponse :: "sipMessage \<Rightarrow> int \<Rightarrow> string \<Rightarrow> string \<Rightarrow> sipHeader list \<Rightarrow> sipMessage" where
  "buildSIPResponse req code reason toTag extra =
     (let r0 = \<lparr>sm_IsRequest = False, sm_Method = '''', sm_RequestURI = '''', sm_StatusCode = code, sm_Reason = reason,
          sm_Headers = [], sm_Body = ''''\<rparr>;
          r1 = fold (Add ''Via'') (Values req ''Via'') r0;
          r2 = Add ''From'' (Get req ''From'') r1;
          to0 = Get req ''To'';
          to1 = (if sipHeaderTag to0 = '''' \<and> toTag \<noteq> '''' then to0 @ '';tag='' @ toTag else to0);
          r3 = Add ''To'' to1 r2;
          r4 = Add ''Call-ID'' (Get req ''Call-ID'') r3;
          r5 = Add ''CSeq'' (Get req ''CSeq'') r4;
          r6 = fold (\<lambda>h. Add (sh_Name h) (sh_Value h)) extra r5 in
      Add ''Server'' ''Probara'' r6)"

definition sipAllow :: string where "sipAllow = ''INVITE, ACK, CANCEL, BYE, OPTIONS''"

text \<open>
  The reply the UAS sends, if it sends one; \<open>matchDialog\<close> may be absent, and what it decides is the
  owner's.
\<close>

definition uas_handle :: "(string \<Rightarrow> string) \<Rightarrow> (sipMessage \<Rightarrow> bool) option \<Rightarrow> string \<Rightarrow> sipMessage \<Rightarrow> sipMessage option" where
  "uas_handle up matchDialog localTag req =
     (let method = ToUpper up (sm_Method req);
          reply = (\<lambda>code reason extra. Some (buildSIPResponse req code reason localTag extra));
          allow = [\<lparr>sh_Name = ''Allow'', sh_Value = sipAllow\<rparr>] in
      if method = ''ACK'' then None
      else if Values req ''Via'' = [] \<or> Get req ''From'' = '''' \<or> Get req ''To'' = '''' \<or> Get req ''Call-ID'' = '''' then None
      else (case cseq up req of
          None \<Rightarrow> None
        | Some (_, cseqMethod) \<Rightarrow>
            if cseqMethod \<noteq> method then reply 400 ''Bad Request'' []
            else if method = ''BYE'' then
              (if (case matchDialog of None \<Rightarrow> False | Some matches \<Rightarrow> matches req) then reply 200 ''OK'' []
               else reply 481 ''Call/Transaction Does Not Exist'' [])
            else if method = ''OPTIONS'' \<or> method = ''INFO'' then reply 200 ''OK'' allow
            else if method = ''INVITE'' \<or> method = ''UPDATE'' then reply 488 ''Not Acceptable Here'' []
            else if method = ''CANCEL'' then reply 481 ''Call/Transaction Does Not Exist'' []
            else reply 501 ''Not Implemented'' allow))"

end
