(* ===== verification/SipExchange.thy ===== *)
theory SipExchange
  imports SipAccept SipRequest
begin

text \<open>
  An exchange over the wire: what the probe asks, what a peer that answers as RFC 3261 says (and as the
  probe's own UAS does) replies, and that the reply names the transaction of the request.
\<close>

section \<open>Values\<close>

lemma clear_visible: "visible c \<Longrightarrow> clear_of space_encodings (c # s)"
  "visible c \<Longrightarrow> clear_of (map rev space_encodings) (c # s)"
  by (auto simp: clear_of_def space_encodings_def visible_def)

lemma trimmed_ends: "visible c \<Longrightarrow> visible d \<Longrightarrow> trimmed (c # s @ [d])"
  by (simp add: trimmed_def clear_visible)

lemma space_not_visible: "list_all (\<lambda>c. \<not> visible c) (concat space_encodings)"
  by (simp add: space_encodings_def visible_def)

lemma trimmed_append:
  assumes "trimmed a" "list_all visible b" "b \<noteq> []"
  shows "trimmed (a @ b) \<or> a = []"
proof -
  obtain c r where b: "b = c # r" "visible c" using assms(2,3) by (cases b) auto
  obtain d q where q: "rev b = d # q" "visible d" using assms(2,3) by (cases b rule: rev_cases) auto
  have "clear_of space_encodings (a @ b)" if "a \<noteq> []"
    unfolding clear_of_def
  proof (intro ballI impI notI)
    fix e
    assume e: "e \<in> set space_encodings" "e \<noteq> []" "prefix e (a @ b)"
    then have "\<not> prefix e a" using assms(1) by (auto simp: trimmed_def clear_of_def)
    with e(3) obtain u where "e = a @ u" "prefix u b" "u \<noteq> []" by (auto simp: prefix_append)
    then have "c \<in> set e" using b by (cases u) auto
    with e(1) have "c \<in> set (concat space_encodings)" by auto
    with space_not_visible b(2) show False by (auto simp only: list_all_iff)
  qed
  moreover have "clear_of (map rev space_encodings) (rev (a @ b))" using q clear_visible(2) by simp
  ultimately show ?thesis by (auto simp: trimmed_def)
qed

lemma with_tag_value:
  assumes "clean a" "trimmed a" "a \<noteq> []" "t = '''' \<or> isSIPToken t"
  shows "clean (with_tag a t)" "trimmed (with_tag a t)" "with_tag a t \<noteq> []"
proof -
  have "list_all visible ('';tag='' @ t)" if "isSIPToken t" using isSIPToken_visible [OF that] by (simp add: visible_def)
  with assms have "t \<noteq> '''' \<Longrightarrow> trimmed (a @ '';tag='' @ t)" "t \<noteq> '''' \<Longrightarrow> clean t"
    using trimmed_append [of a "'';tag='' @ t"] isSIPToken_visible visible_clean by auto
  with assms show "clean (with_tag a t)" "trimmed (with_tag a t)" "with_tag a t \<noteq> []" by (auto simp: with_tag_def)
qed

text \<open>A value without comma, quote or angle bracket is one element.\<close>

definition plain :: "char \<Rightarrow> bool" where
  "plain c \<longleftrightarrow> c \<noteq> CHR '','' \<and> c \<noteq> CHR 0x22 \<and> c \<noteq> CHR ''<'' \<and> c \<noteq> CHR ''>''"

lemma scan_plain: "list_all plain s \<Longrightarrow> scan (False, False, False) s = Some (False, False, False)"
  by (induction s) (auto simp: plain_def scan_step_def)

lemma splitSIPList_plain: "list_all plain s \<Longrightarrow> trimmed s \<Longrightarrow> splitSIPList s = [s]"
  using loop_unsplit [of False False s "[]"] scan_plain [of s]
  by (cases "s = []") (simp_all add: splitSIPList_def keep_part_def TrimSpace_trimmed splitSIPList_empty [unfolded splitSIPList_def])

lemma token_plain: "isSIPToken s \<Longrightarrow> list_all plain s"
  by (auto simp: isSIPToken_def list_all_iff plain_def token_char_def is_digit_def)

section \<open>Headers\<close>

definition hdr :: "string \<Rightarrow> string \<Rightarrow> sipHeader" where
  "hdr name v = \<lparr>sh_Name = sipCanonicalName name, sh_Value = v\<rparr>"

definition value_ok :: "string \<Rightarrow> string \<Rightarrow> bool" where
  "value_ok name v \<longleftrightarrow> isSIPToken name \<and> clean v \<and> trimmed v \<and> (sipHeaderKey name \<in> set sipListHeaders \<longrightarrow> splitSIPList v = [v])"

lemma hdr_well_formed: "value_ok name v \<Longrightarrow> well_formed_header (hdr name v)"
  using canonical_name [of name] by (simp add: value_ok_def hdr_def well_formed_header_def)

lemma hdr_key: "isSIPToken name \<Longrightarrow> sipHeaderKey (sh_Name (hdr name v)) = sipHeaderKey name"
  using canonical_name(3) by (simp add: hdr_def)

lemma sh_Value_hdr [simp]: "sh_Value (hdr name v) = v"
  by (simp add: hdr_def)

lemma Add_hdr: "Add name v m = m\<lparr>sm_Headers := sm_Headers m @ [hdr name v]\<rparr>"
  by (simp add: Add_def hdr_def)

lemma fold_Add: "fold (Add name) vs m = m\<lparr>sm_Headers := sm_Headers m @ map (hdr name) vs\<rparr>"
  by (induction vs arbitrary: m) (simp_all add: Add_hdr)

lemma fold_Add_headers:
  "fold (\<lambda>h. Add (sh_Name h) (sh_Value h)) hs m = m\<lparr>sm_Headers := sm_Headers m @ map (\<lambda>h. hdr (sh_Name h) (sh_Value h)) hs\<rparr>"
  by (induction hs arbitrary: m) (simp_all add: Add_hdr)

lemma used_names:
  "isSIPToken ''Via''" "isSIPToken ''Max-Forwards''" "isSIPToken ''Route''" "isSIPToken ''From''" "isSIPToken ''To''"
  "isSIPToken ''Call-ID''" "isSIPToken ''CSeq''" "isSIPToken ''Contact''" "isSIPToken ''User-Agent''"
  "isSIPToken ''Content-Type''" "isSIPToken ''Server''" "isSIPToken ''Allow''"
  by (simp_all add: isSIPToken_def token_char_def is_digit_def)

lemma used_keys:
  "sipHeaderKey ''Via'' = ''via''" "sipHeaderKey ''Max-Forwards'' = ''max-forwards''" "sipHeaderKey ''Route'' = ''route''"
  "sipHeaderKey ''From'' = ''from''" "sipHeaderKey ''To'' = ''to''" "sipHeaderKey ''Call-ID'' = ''call-id''"
  "sipHeaderKey ''CSeq'' = ''cseq''" "sipHeaderKey ''Contact'' = ''contact''" "sipHeaderKey ''User-Agent'' = ''user-agent''"
  "sipHeaderKey ''Content-Type'' = ''content-type''" "sipHeaderKey ''Server'' = ''server''" "sipHeaderKey ''Allow'' = ''allow''"
  by code_simp+

lemma used_hdr_keys:
  "sipHeaderKey (sh_Name (hdr ''Via'' v)) = ''via''" "sipHeaderKey (sh_Name (hdr ''Max-Forwards'' v)) = ''max-forwards''"
  "sipHeaderKey (sh_Name (hdr ''Route'' v)) = ''route''" "sipHeaderKey (sh_Name (hdr ''From'' v)) = ''from''"
  "sipHeaderKey (sh_Name (hdr ''To'' v)) = ''to''" "sipHeaderKey (sh_Name (hdr ''Call-ID'' v)) = ''call-id''"
  "sipHeaderKey (sh_Name (hdr ''CSeq'' v)) = ''cseq''"
  by (simp_all add: hdr_key used_names used_keys)

text \<open>Reading a message back loses nothing these lookups see.\<close>

lemma find_filter_key: "(\<And>x. P x \<Longrightarrow> Q x) \<Longrightarrow> find P (filter Q xs @ ys) = find P (xs @ ys)"
  by (induction xs) auto

lemma with_length_lookup:
  assumes "sipHeaderKey name \<noteq> ''content-length''"
  shows "Get (with_length m) name = Get m name" "Values (with_length m) name = Values m name"
proof -
  let ?p = "\<lambda>h :: sipHeader. sipHeaderKey (sh_Name h) = sipHeaderKey name" and ?c = "\<lambda>h :: sipHeader. sipHeaderKey (sh_Name h) \<noteq> ''content-length''"
  have added: "\<not> ?p \<lparr>sh_Name = ''Content-Length'', sh_Value = v\<rparr>" for v
    using assms sipHeaderKey_Content_Length by simp
  have "find ?p (filter ?c hs @ [\<lparr>sh_Name = ''Content-Length'', sh_Value = v\<rparr>]) = find ?p hs" for hs v
    using assms added by (induction hs) auto
  then show "Get (with_length m) name = Get m name" by (simp add: Get_def with_length_def)
  have "filter ?p (filter ?c hs) = filter ?p hs" for hs using assms by (induction hs) auto
  then show "Values (with_length m) name = Values m name" using added by (simp add: Values_def with_length_def del: filter_filter)
qed

lemma with_length_identity:
  "topViaBranch (with_length m) = topViaBranch m" "cseq up (with_length m) = cseq up m"
  by (simp_all add: topViaBranch_def cseq_def with_length_lookup used_keys)

section \<open>Replies\<close>

definition reply_headers :: "sipMessage \<Rightarrow> string \<Rightarrow> sipHeader list \<Rightarrow> sipHeader list" where
  "reply_headers req toTag extra =
     map (hdr ''Via'') (Values req ''Via'') @
     [hdr ''From'' (Get req ''From''),
      hdr ''To'' (if sipHeaderTag (Get req ''To'') = '''' then with_tag (Get req ''To'') toTag else Get req ''To''),
      hdr ''Call-ID'' (Get req ''Call-ID''), hdr ''CSeq'' (Get req ''CSeq'')] @
     map (\<lambda>h. hdr (sh_Name h) (sh_Value h)) extra @ [hdr ''Server'' ''Probara'']"

lemma buildSIPResponse_eq:
  "buildSIPResponse req code reason toTag extra =
     \<lparr>sm_IsRequest = False, sm_Method = '''', sm_RequestURI = '''', sm_StatusCode = code, sm_Reason = reason,
      sm_Headers = reply_headers req toTag extra, sm_Body = ''''\<rparr>"
  by (simp add: buildSIPResponse_def reply_headers_def fold_Add fold_Add_headers Add_hdr with_tag_def)

lemma header_value_ok:
  assumes "well_formed m"
  shows "v \<in> set (Values m name) \<Longrightarrow> clean v \<and> trimmed v \<and> (sipHeaderKey name \<in> set sipListHeaders \<longrightarrow> splitSIPList v = [v])"
    and "clean (Get m name) \<and> trimmed (Get m name)"
proof -
  have ok: "h \<in> set (sm_Headers m) \<Longrightarrow> well_formed_header h" for h using assms by (simp add: well_formed_def list_all_iff)
  show "clean v \<and> trimmed v \<and> (sipHeaderKey name \<in> set sipListHeaders \<longrightarrow> splitSIPList v = [v])" if "v \<in> set (Values m name)"
    using that ok by (auto simp: Values_def well_formed_header_def)
  show "clean (Get m name) \<and> trimmed (Get m name)"
  proof (cases "find (\<lambda>h. sipHeaderKey (sh_Name h) = sipHeaderKey name) (sm_Headers m)")
    case None
    then show ?thesis using visible_trimmed [of "[]"] by (simp add: Get_def)
  next
    case (Some h)
    then have "well_formed_header h" using ok find_SomeD by metis
    with Some show ?thesis by (simp add: Get_def well_formed_header_def)
  qed
qed

definition reply_ok :: "int \<Rightarrow> string \<Rightarrow> string \<Rightarrow> sipHeader list \<Rightarrow> bool" where
  "reply_ok code reason toTag extra \<longleftrightarrow>
     100 \<le> code \<and> code \<le> 699 \<and> clean reason \<and> trimmed reason \<and> (toTag = '''' \<or> isSIPToken toTag) \<and>
     list_all (\<lambda>h. value_ok (sh_Name h) (sh_Value h)) extra"

lemma reply_well_formed:
  assumes "well_formed req" "reply_ok code reason toTag extra" "Get req ''To'' \<noteq> ''''"
  shows "well_formed (buildSIPResponse req code reason toTag extra)"
proof -
  note val = header_value_ok [OF assms(1)]
  have "value_ok ''Via'' v" if "v \<in> set (Values req ''Via'')" for v
    using val(1) [OF that] by (simp add: value_ok_def used_names)
  then have via: "list_all well_formed_header (map (hdr ''Via'') (Values req ''Via''))"
    by (auto simp: list_all_iff intro: hdr_well_formed)
  have to_value: "clean (with_tag (Get req ''To'') toTag)" "trimmed (with_tag (Get req ''To'') toTag)"
    using with_tag_value(1,2) [of "Get req ''To''" toTag] val(2) assms(2,3) by (auto simp: reply_ok_def)
  have single: "value_ok name v" if "isSIPToken name" "clean v" "trimmed v" "sipHeaderKey name \<notin> set sipListHeaders" for name v
    using that by (simp add: value_ok_def)
  have server: "trimmed ''Probara''" "clean ''Probara''" by (rule visible_trimmed) (simp_all add: visible_def)
  have extra: "list_all well_formed_header (map (\<lambda>h. hdr (sh_Name h) (sh_Value h)) extra)"
    using assms(2) by (auto simp: reply_ok_def list_all_iff intro: hdr_well_formed)
  have "well_formed_header (hdr ''From'' (Get req ''From''))" "well_formed_header (hdr ''Call-ID'' (Get req ''Call-ID''))"
    "well_formed_header (hdr ''CSeq'' (Get req ''CSeq''))" "well_formed_header (hdr ''Server'' ''Probara'')"
    "well_formed_header (hdr ''To'' (if sipHeaderTag (Get req ''To'') = '''' then with_tag (Get req ''To'') toTag else Get req ''To''))"
    using val(2) to_value server
    by (auto intro!: hdr_well_formed single simp: used_names used_keys sipListHeaders_def)
  with via extra have "list_all well_formed_header (reply_headers req toTag extra)" by (simp add: reply_headers_def)
  with assms(2) show ?thesis
    by (simp add: buildSIPResponse_eq well_formed_def well_formed_start_def reply_ok_def)
qed

lemma reply_headers: "sm_Headers (buildSIPResponse req code reason toTag extra) = reply_headers req toTag extra"
  by (simp add: buildSIPResponse_eq)

lemma reply_Values_Via: "\<exists>more. Values (buildSIPResponse req code reason toTag extra) ''Via'' = Values req ''Via'' @ more"
proof -
  have "filter (\<lambda>h. sipHeaderKey (sh_Name h) = ''via'') (map (hdr ''Via'') vs) = map (hdr ''Via'') vs" for vs
    by (simp add: filter_id_conv used_hdr_keys)
  then show ?thesis
    using Values_def [of "buildSIPResponse req code reason toTag extra" "''Via''"]
    by (simp add: reply_headers reply_headers_def used_keys comp_def)
qed

lemma reply_cseq: "Get (buildSIPResponse req code reason toTag extra) ''CSeq'' = Get req ''CSeq''"
proof -
  have "find (\<lambda>h. sipHeaderKey (sh_Name h) = ''cseq'') (map (hdr ''Via'') vs @ rest) = find (\<lambda>h. sipHeaderKey (sh_Name h) = ''cseq'') rest" for vs rest
    by (induction vs) (simp_all add: used_hdr_keys)
  then show ?thesis
    using Get_def [of "buildSIPResponse req code reason toTag extra" "''CSeq''"]
    by (simp add: reply_headers reply_headers_def used_keys used_hdr_keys)
qed

lemma reply_identity:
  assumes "Values req ''Via'' \<noteq> []"
  shows "topViaBranch (buildSIPResponse req code reason toTag extra) = topViaBranch req"
    "cseq up (buildSIPResponse req code reason toTag extra) = cseq up req"
proof -
  obtain more where "Values (buildSIPResponse req code reason toTag extra) ''Via'' = Values req ''Via'' @ more"
    using reply_Values_Via by blast
  then show "topViaBranch (buildSIPResponse req code reason toTag extra) = topViaBranch req"
    using assms by (cases "Values req ''Via''") (simp_all add: topViaBranch_def)
  show "cseq up (buildSIPResponse req code reason toTag extra) = cseq up req"
    by (simp add: cseq_def reply_cseq)
qed

section \<open>Requests\<close>

definition request_headers :: "sipRequestParams \<Rightarrow> sipHeader list" where
  "request_headers p =
     [hdr ''Via'' (p_Via p), hdr ''Max-Forwards'' ''70''] @ map (hdr ''Route'') (p_Route p) @
     [hdr ''From'' (with_tag (p_From p) (p_FromTag p)), hdr ''To'' (with_tag (p_To p) (p_ToTag p)),
      hdr ''Call-ID'' (p_CallID p), hdr ''CSeq'' (show_int (p_CSeq p) @ '' '' @ p_Method p)] @
     (if p_Contact p \<noteq> '''' then [hdr ''Contact'' (p_Contact p)] else []) @
     map (\<lambda>h. hdr (sh_Name h) (sh_Value h)) (p_Extra p) @ [hdr ''User-Agent'' ''Probara''] @
     (if p_Body p \<noteq> [] then [hdr ''Content-Type'' (p_ContentType p)] else [])"

lemma buildSIPRequest_eq:
  "buildSIPRequest p =
     \<lparr>sm_IsRequest = True, sm_Method = p_Method p, sm_RequestURI = p_RequestURI p, sm_StatusCode = 0, sm_Reason = '''',
      sm_Headers = request_headers p, sm_Body = p_Body p\<rparr>"
  by (simp add: buildSIPRequest_def request_headers_def fold_Add fold_Add_headers Add_hdr)

definition params_ok :: "sipRequestParams \<Rightarrow> bool" where
  "params_ok p \<longleftrightarrow>
     isSIPToken (p_Method p) \<and> clean (p_RequestURI p) \<and> CHR '':'' \<in> set (p_RequestURI p) \<and>
     set (p_RequestURI p) \<inter> {CHR ''<'', CHR ''>'', HT, CHR 0x22, CHR '' ''} = {} \<and>
     clean (p_From p) \<and> trimmed (p_From p) \<and> p_From p \<noteq> [] \<and> clean (p_To p) \<and> trimmed (p_To p) \<and> p_To p \<noteq> [] \<and>
     (p_FromTag p = '''' \<or> isSIPToken (p_FromTag p)) \<and> (p_ToTag p = '''' \<or> isSIPToken (p_ToTag p)) \<and>
     clean (p_CallID p) \<and> trimmed (p_CallID p) \<and> 0 \<le> p_CSeq p \<and> p_CSeq p < 2 ^ 31 \<and>
     list_all (value_ok ''Route'') (p_Route p) \<and> (p_Contact p = '''' \<or> value_ok ''Contact'' (p_Contact p)) \<and>
     list_all (\<lambda>h. value_ok (sh_Name h) (sh_Value h)) (p_Extra p) \<and>
     (p_Body p \<noteq> [] \<longrightarrow> clean (p_ContentType p) \<and> trimmed (p_ContentType p)) \<and>
     length (p_Body p) \<le> sipMaxBodyBytes"

lemma visible_ends: "list_all visible a \<Longrightarrow> a \<noteq> [] \<Longrightarrow> list_all visible b \<Longrightarrow> b \<noteq> [] \<Longrightarrow> trimmed (a @ CHR '' '' # b)"
  by (cases a; cases b rule: rev_cases) (auto intro: trimmed_ends [of _ _ "_ @ CHR '' '' # _", simplified])

lemma show_int_dec: "0 \<le> n \<Longrightarrow> show_int n = dec (nat n)"
  by (simp add: show_int_def)

lemma cseq_value:
  assumes "params_ok p"
  shows "clean (show_int (p_CSeq p) @ '' '' @ p_Method p)" "trimmed (show_int (p_CSeq p) @ '' '' @ p_Method p)"
proof -
  have token: "isSIPToken (p_Method p)" and pos: "0 \<le> p_CSeq p" using assms by (simp_all add: params_ok_def)
  from token have mtok: "list_all visible (p_Method p)" "p_Method p \<noteq> []" by (simp_all add: isSIPToken_visible token_line(1))
  show "clean (show_int (p_CSeq p) @ '' '' @ p_Method p)"
    using visible_clean [OF mtok(1)] visible_clean [OF dec_visible] by (simp add: show_int_dec [OF pos])
  show "trimmed (show_int (p_CSeq p) @ '' '' @ p_Method p)"
    using visible_ends [OF dec_visible dec_digits(2) mtok] by (simp add: show_int_dec [OF pos])
qed

lemma request_well_formed:
  assumes "params_ok p" "value_ok ''Via'' (p_Via p)"
  shows "well_formed (buildSIPRequest p)"
proof -
  have single: "well_formed_header (hdr name v)" if "isSIPToken name" "clean v" "trimmed v" "sipHeaderKey name \<notin> set sipListHeaders" for name v
    using that by (intro hdr_well_formed) (simp add: value_ok_def)
  have keys: "''from'' \<notin> set sipListHeaders" "''to'' \<notin> set sipListHeaders" "''call-id'' \<notin> set sipListHeaders"
    "''cseq'' \<notin> set sipListHeaders" "''max-forwards'' \<notin> set sipListHeaders" "''user-agent'' \<notin> set sipListHeaders"
    "''content-type'' \<notin> set sipListHeaders" by (simp_all add: sipListHeaders_def)
  have fixed: "trimmed ''70''" "clean ''70''" "trimmed ''Probara''" "clean ''Probara''"
    by (rule visible_trimmed, simp add: visible_def, simp)+
  have "well_formed_header (hdr ''Via'' (p_Via p))" using assms(2) by (rule hdr_well_formed)
  moreover have "well_formed_header (hdr ''Max-Forwards'' ''70'')" "well_formed_header (hdr ''User-Agent'' ''Probara'')"
    using fixed by (auto intro!: single simp: used_names used_keys keys)
  moreover have "list_all well_formed_header (map (hdr ''Route'') (p_Route p))"
    "list_all well_formed_header (map (\<lambda>h. hdr (sh_Name h) (sh_Value h)) (p_Extra p))"
    using assms(1) by (auto simp: params_ok_def list_all_iff intro: hdr_well_formed)
  moreover have "well_formed_header (hdr ''From'' (with_tag (p_From p) (p_FromTag p)))" "well_formed_header (hdr ''To'' (with_tag (p_To p) (p_ToTag p)))"
    using with_tag_value(1,2) [of "p_From p" "p_FromTag p"] with_tag_value(1,2) [of "p_To p" "p_ToTag p"] assms(1)
    by (auto intro!: single simp: used_names used_keys keys params_ok_def)
  moreover have "well_formed_header (hdr ''Call-ID'' (p_CallID p))" "well_formed_header (hdr ''CSeq'' (show_int (p_CSeq p) @ '' '' @ p_Method p))"
    using cseq_value [OF assms(1)] assms(1) by (auto intro!: single simp: used_names used_keys keys params_ok_def simp del: clean_append)
  moreover have "p_Contact p \<noteq> '''' \<Longrightarrow> well_formed_header (hdr ''Contact'' (p_Contact p))"
    using assms(1) by (intro hdr_well_formed) (simp add: params_ok_def)
  moreover have "p_Body p \<noteq> [] \<Longrightarrow> well_formed_header (hdr ''Content-Type'' (p_ContentType p))"
    using assms(1) by (intro single) (simp_all add: used_names used_keys keys params_ok_def)
  ultimately have "list_all well_formed_header (request_headers p)" by (simp add: request_headers_def)
  moreover have "well_formed_start (buildSIPRequest p)" using assms(1) by (simp add: buildSIPRequest_eq well_formed_start_def params_ok_def)
  ultimately show ?thesis using assms(1) by (simp add: well_formed_def buildSIPRequest_eq params_ok_def)
qed

text \<open>What the lookups find in a built request.\<close>

lemma find_skip: "list_all (\<lambda>x. \<not> P x) xs \<Longrightarrow> find P (xs @ ys) = find P ys"
  by (induction xs) auto

lemma request_lookup:
  "hd (Values (buildSIPRequest p) ''Via'') = p_Via p" "Values (buildSIPRequest p) ''Via'' \<noteq> []"
  "Get (buildSIPRequest p) ''To'' = with_tag (p_To p) (p_ToTag p)"
  "Get (buildSIPRequest p) ''CSeq'' = show_int (p_CSeq p) @ '' '' @ p_Method p"
proof -
  have headers: "sm_Headers (buildSIPRequest p) = request_headers p" by (simp add: buildSIPRequest_eq)
  show "hd (Values (buildSIPRequest p) ''Via'') = p_Via p" "Values (buildSIPRequest p) ''Via'' \<noteq> []"
    using Values_def [of "buildSIPRequest p" "''Via''"] by (simp_all add: headers request_headers_def used_keys used_hdr_keys)
  have skip: "find (\<lambda>h. sipHeaderKey (sh_Name h) = k) (map (hdr ''Route'') vs @ rest) = find (\<lambda>h. sipHeaderKey (sh_Name h) = k) rest"
    if "k \<noteq> ''route''" for k vs rest
    using that by (intro find_skip) (simp add: list_all_iff used_hdr_keys)
  show "Get (buildSIPRequest p) ''To'' = with_tag (p_To p) (p_ToTag p)"
    "Get (buildSIPRequest p) ''CSeq'' = show_int (p_CSeq p) @ '' '' @ p_Method p"
    using Get_def [of "buildSIPRequest p" "''To''"] Get_def [of "buildSIPRequest p" "''CSeq''"]
    by (simp_all add: headers request_headers_def used_keys used_hdr_keys skip)
qed

section \<open>The branch and the sequence number\<close>

lemma params_loop_plain: "CHR '';'' \<notin> set s \<Longrightarrow> CHR 0x22 \<notin> set s \<Longrightarrow> params_loop False part (s @ rest) = params_loop False (rev s @ part) rest"
  by (induction s arbitrary: part) auto

definition branch_char :: "char \<Rightarrow> bool" where
  "branch_char c \<longleftrightarrow> visible c \<and> c \<noteq> CHR '';'' \<and> c \<noteq> CHR 0x22 \<and> c \<noteq> CHR ''<'' \<and> c \<noteq> CHR ''>'' \<and> c \<noteq> CHR '',''"

lemma token_branch_char: "token_char c \<Longrightarrow> branch_char c"
  by (auto simp: branch_char_def token_visible) (auto simp: token_char_def is_digit_def)

lemma sipUnquote_unquoted: "CHR 0x22 \<notin> set s \<Longrightarrow> sipUnquote s = None"
  by (cases s) (auto simp: sipUnquote_def)

lemma viaBranch:
  assumes "CHR '';'' \<notin> set pre" "isSIPToken branch"
  shows "sipViaBranch (pre @ '';branch='' @ branch @ '';rport'') = branch"
proof -
  have cut: "Cut (CHR '';'') (pre @ '';branch='' @ branch @ '';rport'') = (pre, ''branch='' @ branch @ '';rport'', True)"
    using Cut_found [OF assms(1)] by simp
  have free: "CHR '';'' \<notin> set branch" "CHR 0x22 \<notin> set branch"
    by (rule isSIPToken_free [OF assms(2)], simp add: token_char_def is_digit_def)+
  have vis: "list_all visible branch" "branch \<noteq> []" using assms(2) by (simp_all add: isSIPToken_visible token_line(1))
  have "trimmed (''branch='' @ branch)" using vis by (intro visible_trimmed) (simp add: visible_def)
  then have keep: "keep_part (''branch='' @ branch) = [''branch='' @ branch]"
    by (simp add: keep_part_def TrimSpace_trimmed [simplified])
  have "splitSIPParams (''branch='' @ branch @ '';rport'') = params_loop False (rev (''branch='' @ branch)) '';rport''"
    using params_loop_plain [of "''branch='' @ branch" "[]" "'';rport''"] free by (simp add: splitSIPParams_def)
  then have parts: "\<exists>more. splitSIPParams (''branch='' @ branch @ '';rport'') = (''branch='' @ branch) # more"
    using keep by simp
  have name: "TrimSpace ''branch'' = ''branch''" by (rule TrimSpace_trimmed, rule visible_trimmed) (simp add: visible_def)
  have "Cut (CHR ''='') (''branch='' @ branch) = (''branch'', branch, True)"
    using Cut_found [of "CHR ''=''" "''branch''" branch] by simp
  with parts name free vis(1) have "sipParam (''branch='' @ branch @ '';rport'') ''branch'' = (branch, True)"
    by (auto simp: sipParam_def sipUnquote_unquoted TrimSpace_trimmed visible_trimmed simp del: append.simps)
  with cut show ?thesis by (simp add: sipViaBranch_def)
qed

lemma word_of_visible: "list_all visible w \<Longrightarrow> word_of (w @ s) = w @ word_of s"
  by (induction w) (simp_all add: clear_visible)

lemma word_of_blank: "word_of (CHR '' '' # s) = []"
  by (simp add: clear_of_def space_encodings_def)

lemma Fields_two:
  assumes "list_all visible a" "a \<noteq> []" "list_all visible b" "b \<noteq> []"
  shows "Fields (a @ CHR '' '' # b) = [a, b]"
proof -
  have clear: "trim_with space_encodings (w @ s) = w @ s" if "list_all visible w" "w \<noteq> []" for w s
    using that by (cases w) (auto intro!: trim_with_id clear_visible)
  have blank: "trim_with space_encodings (CHR '' '' # b) = b"
    using clear [OF assms(3,4), of "[]"] by (subst trim_with.simps) (simp add: space_encodings_def)
  have "Fields [] = []" by (simp add: Fields.simps [of "[]"] trim_with_id clear_of_def space_encodings_def)
  then have "Fields (CHR '' '' # b) = [b]"
    using assms(3,4) word_of_visible [of b "[]"] by (simp add: Fields.simps [of "CHR '' '' # b"] blank)
  with assms clear [OF assms(1,2), of "CHR '' '' # b"] show ?thesis
    by (simp add: Fields.simps [of "a @ CHR '' '' # b"] word_of_visible word_of_blank del: word_of.simps)
qed

lemma request_identity:
  assumes "params_ok p" "p_Via p = pre @ '';branch='' @ branch @ '';rport''" "CHR '';'' \<notin> set pre" "isSIPToken branch"
  shows "topViaBranch (buildSIPRequest p) = branch"
    "cseq up (buildSIPRequest p) = Some (nat (p_CSeq p), ToUpper up (p_Method p))"
proof -
  obtain more where "Values (buildSIPRequest p) ''Via'' = p_Via p # more"
    using request_lookup(1,2) [of p] by (cases "Values (buildSIPRequest p) ''Via''") auto
  then show "topViaBranch (buildSIPRequest p) = branch" using viaBranch [OF assms(3,4)] assms(2) by (simp add: topViaBranch_def)
  have token: "isSIPToken (p_Method p)" and range: "0 \<le> p_CSeq p" "p_CSeq p < 2 ^ 31" using assms(1) by (simp_all add: params_ok_def)
  have "Fields (dec (nat (p_CSeq p)) @ CHR '' '' # p_Method p) = [dec (nat (p_CSeq p)), p_Method p]"
    using token by (intro Fields_two dec_visible dec_digits(2)) (simp_all add: isSIPToken_visible token_line(1))
  moreover have "ParseUint31 (dec (nat (p_CSeq p))) = Some (nat (p_CSeq p))" using range by (intro ParseUint31_dec) simp
  ultimately show "cseq up (buildSIPRequest p) = Some (nat (p_CSeq p), ToUpper up (p_Method p))"
    by (simp add: cseq_def request_lookup show_int_dec [OF range(1)])
qed


section \<open>The exchange\<close>

lemma with_length_well_formed: "well_formed m \<Longrightarrow> well_formed (with_length m)"
  using with_length_headers [of m] by (auto simp: well_formed_def well_formed_start_def with_length_def)

lemma ToUpper_transport:
  assumes "transport \<in> {''udp'', ''tcp'', ''tls''}"
  shows "list_all branch_char (ToUpper up transport)" "ToUpper up transport \<noteq> []"
proof -
  have "ToUpper up transport = map upper_char transport" using assms by (auto simp: ToUpper_def)
  moreover have "map upper_char ''udp'' = ''UDP''" "map upper_char ''tcp'' = ''TCP''" "map upper_char ''tls'' = ''TLS''" by code_simp+
  ultimately have "ToUpper up transport \<in> {''UDP'', ''TCP'', ''TLS''}" using assms by auto
  then show "list_all branch_char (ToUpper up transport)" "ToUpper up transport \<noteq> []"
    by (auto simp: branch_char_def visible_def)
qed

lemma viaValue_ok:
  assumes "transport \<in> {''udp'', ''tcp'', ''tls''}" "list_all branch_char sentBy" "isSIPToken branch"
  shows "value_ok ''Via'' (viaValue up transport sentBy branch)"
    "\<exists>pre. viaValue up transport sentBy branch = pre @ '';branch='' @ branch @ '';rport'' \<and> CHR '';'' \<notin> set pre"
proof -
  let ?v = "viaValue up transport sentBy branch" and ?t = "ToUpper up transport"
  note t = ToUpper_transport [OF assms(1), of up]
  have b: "list_all visible branch" using assms(3) by (rule isSIPToken_visible)
  have branch_plain: "list_all plain s \<and> list_all visible s" if "list_all branch_char s" for s
    using that by (auto simp: list_all_iff plain_def branch_char_def)
  have sep: "list_all plain '';branch=''" "list_all plain '';rport''" "list_all plain ''SIP/2.0/''" by (simp_all add: plain_def)
  have plain: "list_all plain ?v"
    using branch_plain [OF t(1)] branch_plain [OF assms(2)] token_plain [OF assms(3)] sep
    by (simp add: viaValue_def) (simp add: plain_def)
  have vis: "clean ''SIP/2.0/''" "clean '';branch=''" "clean '';rport''" by (rule visible_clean, simp add: visible_def)+
  have "clean ?v"
    using visible_clean branch_plain [OF t(1)] branch_plain [OF assms(2)] visible_clean [OF b] vis
    by (simp add: viaValue_def)
  moreover have trim: "trimmed ?v"
  proof -
    obtain mid where "?v = CHR ''S'' # mid @ [CHR ''t'']"
      by (simp add: viaValue_def)
    then show ?thesis using trimmed_ends [of "CHR ''S''" "CHR ''t''" mid] by (simp add: visible_def)
  qed
  ultimately show "value_ok ''Via'' ?v"
    using splitSIPList_plain [OF plain] by (simp add: value_ok_def used_names)
  have "CHR '';'' \<notin> set (''SIP/2.0/'' @ ?t @ '' '' @ sentBy)"
    using t(1) assms(2) by (auto simp: list_all_iff branch_char_def)
  then show "\<exists>pre. ?v = pre @ '';branch='' @ branch @ '';rport'' \<and> CHR '';'' \<notin> set pre"
    by (intro exI [of _ "''SIP/2.0/'' @ ?t @ '' '' @ sentBy"]) (simp add: viaValue_def)
qed

lemma written_read:
  "well_formed m \<Longrightarrow> length (sipBytes m) - length (sm_Body m) \<le> sipMaxHeadBytes \<Longrightarrow> parseSIPMessage (sipBytes m) = Inr (with_length m)"
  using datagram_read_back [of m] by (simp add: sipBytes_wire wire_head_cut crlf_def)

text \<open>The probe's request on the wire, and a reply to it as RFC 3261 asks.\<close>

definition request_of :: "(string \<Rightarrow> string) \<Rightarrow> string \<Rightarrow> string \<Rightarrow> string \<Rightarrow> sipRequestParams \<Rightarrow> sipMessage" where
  "request_of up transport sentBy branch p = buildSIPRequest (p\<lparr>p_Via := viaValue up transport sentBy branch\<rparr>)"

lemma answered:
  assumes "params_ok p" "transport \<in> {''udp'', ''tcp'', ''tls''}" "list_all branch_char sentBy" "isSIPToken branch"
    and "reply_ok code reason toTag extra"
    and "length (sipBytes (request_of up transport sentBy branch p)) - length (p_Body p) \<le> sipMaxHeadBytes"
    and "length (sipBytes (buildSIPResponse (with_length (request_of up transport sentBy branch p)) code reason toTag extra)) \<le> sipMaxHeadBytes"
  shows "\<exists>req resp. parseSIPMessage (sipBytes (request_of up transport sentBy branch p)) = Inr req \<and>
    parseSIPMessage (sipBytes (buildSIPResponse req code reason toTag extra)) = Inr resp \<and>
    topViaBranch resp = branch \<and> cseq up resp = Some (nat (p_CSeq p), ToUpper up (p_Method p)) \<and>
    sm_StatusCode resp = code \<and> \<not> sm_IsRequest resp"
proof -
  let ?p = "p\<lparr>p_Via := viaValue up transport sentBy branch\<rparr>"
  let ?m = "request_of up transport sentBy branch p" and ?r = "with_length (request_of up transport sentBy branch p)"
  let ?a = "buildSIPResponse ?r code reason toTag extra"
  have p: "params_ok ?p" using assms(1) by (simp add: params_ok_def)
  obtain pre where pre: "p_Via ?p = pre @ '';branch='' @ branch @ '';rport''" "CHR '';'' \<notin> set pre"
    using viaValue_ok(2) [OF assms(2-4), of up] by auto
  have wf: "well_formed ?m" unfolding request_of_def using viaValue_ok(1) [OF assms(2-4), of up] by (intro request_well_formed [OF p]) simp
  have "sm_Body ?m = p_Body p" by (simp add: request_of_def buildSIPRequest_eq)
  with written_read [OF wf] assms(6) have req: "parseSIPMessage (sipBytes ?m) = Inr ?r" by simp
  have "Values ?r ''Via'' \<noteq> []" "Get ?r ''To'' \<noteq> ''''"
    using request_lookup(2,3) [of ?p] with_tag_value(3) [of "p_To p" "p_ToTag p"] assms(1)
    by (auto simp: with_length_lookup used_keys request_of_def params_ok_def)
  note identity = reply_identity [OF this(1), where code = code and reason = reason and toTag = toTag and extra = extra]
  have answer: "well_formed ?a" using with_length_well_formed [OF wf] assms(5) \<open>Get ?r ''To'' \<noteq> ''''\<close> by (rule reply_well_formed)
  with written_read [OF answer] assms(7) have resp: "parseSIPMessage (sipBytes ?a) = Inr (with_length ?a)" by simp
  have "topViaBranch ?m = branch" "cseq up ?m = Some (nat (p_CSeq p), ToUpper up (p_Method p))"
    using request_identity(1) [OF p pre assms(4)] request_identity(2) [OF p pre assms(4), of up] by (simp_all add: request_of_def)
  then have "topViaBranch (with_length ?a) = branch" "cseq up (with_length ?a) = Some (nat (p_CSeq p), ToUpper up (p_Method p))"
    by (simp_all add: with_length_identity identity)
  moreover have "sm_StatusCode (with_length ?a) = code" "\<not> sm_IsRequest (with_length ?a)"
    by (simp_all add: with_length_def buildSIPResponse_eq)
  ultimately show ?thesis using req resp by blast
qed

end
