(* ===== verification/SipTxn.thy ===== *)
theory SipTxn
  imports SipRequest
begin

text \<open>
  The transaction layer of a SIP flow (\<open>worker/internal/worker/sip_txn.go\<close>): the dispatcher, which
  routes what the peer sends to the client transactions, and a non-INVITE transaction, which waits on
  its channels, its retransmission timer, the end of the flow and its context at once.

  A channel is the list of what it holds. Dispatcher and transaction run concurrently: a step of the
  system is one message dispatched, one branch of the transaction's \<open>select\<close>, or something another
  goroutine of the check does. The dispatcher looks a transaction up and writes to its channel in one
  step: between the two the code lets go of its lock, but all that can happen there is that the
  transaction returns, after which nobody reads the channel.
\<close>

section \<open>State\<close>

record sip_inbound =
  in_msg :: sipMessage
  in_at :: time

text \<open>
  \<open>tx_onResponse\<close> says whether the transaction has a hook (an INVITE), \<open>tx_hooked\<close> what the hook was
  given.
\<close>

record sipClientTxn =
  tx_provisionals :: "sip_inbound list"
  tx_final :: "sip_inbound option"
  tx_looped :: bool
  tx_completed :: bool
  tx_onResponse :: bool
  tx_hooked :: "sip_inbound list"

text \<open>\<open>ep_done\<close>: the flow has ended and everything it delivered is dispatched.\<close>

record sipEndpoint =
  ep_txns :: "string \<rightharpoonup> sipClientTxn"
  ep_branches :: "string list"
  ep_done :: bool
  ep_retransmissions :: nat
  ep_stray :: nat
  ep_looped :: nat
  ep_requests :: nat
  ep_sent :: "string list"

text \<open>Durations in microseconds.\<close>

definition sipT1 :: time where "sipT1 = 500000"
definition sipT2 :: time where "sipT2 = 4000000"

definition provisional_capacity :: nat where "provisional_capacity = 16"

definition newSIPEndpoint :: sipEndpoint where
  "newSIPEndpoint = \<lparr>ep_txns = Map.empty, ep_branches = [], ep_done = False, ep_retransmissions = 0, ep_stray = 0,
     ep_looped = 0, ep_requests = 0, ep_sent = []\<rparr>"

definition sipTxnKey :: "(string \<Rightarrow> string) \<Rightarrow> string \<Rightarrow> string \<Rightarrow> string" where
  "sipTxnKey up branch method = branch @ '' '' @ ToUpper up method"

definition new_txn :: "bool \<Rightarrow> sipClientTxn" where
  "new_txn hook = \<lparr>tx_provisionals = [], tx_final = None, tx_looped = False, tx_completed = False,
     tx_onResponse = hook, tx_hooked = []\<rparr>"

text \<open>\<open>None\<close> is the error of a duplicate transaction.\<close>

definition registerTxn :: "string \<Rightarrow> bool \<Rightarrow> sipEndpoint \<Rightarrow> sipEndpoint option" where
  "registerTxn key hook e =
     (if ep_txns e key \<noteq> None then None
      else Some (e\<lparr>ep_txns := (ep_txns e)(key \<mapsto> new_txn hook), ep_branches := fst (Cut (CHR '' '') key) # ep_branches e\<rparr>))"

definition update_txn :: "string \<Rightarrow> (sipClientTxn \<Rightarrow> sipClientTxn) \<Rightarrow> sipEndpoint \<Rightarrow> sipEndpoint" where
  "update_txn key f e = e\<lparr>ep_txns := (ep_txns e)(key := map_option f (ep_txns e key))\<rparr>"

definition complete_txn :: "string \<Rightarrow> sipEndpoint \<Rightarrow> sipEndpoint" where
  "complete_txn key = update_txn key (\<lambda>t. t\<lparr>tx_completed := True\<rparr>)"

section \<open>The dispatcher\<close>

text \<open>The endpoint's own request come back: the first Via that carries a branch it generated.\<close>

definition ownRequest :: "(string \<Rightarrow> string) \<Rightarrow> sipMessage \<Rightarrow> sipEndpoint \<Rightarrow> sipEndpoint option" where
  "ownRequest up req e =
     (case find (\<lambda>b. b \<in> set (ep_branches e)) (map sipViaBranch (Values req ''Via'')) of
        None \<Rightarrow> None
      | Some branch \<Rightarrow>
          Some (update_txn (sipTxnKey up branch (sm_Method req)) (\<lambda>t. t\<lparr>tx_looped := True\<rparr>)
            (e\<lparr>ep_looped := ep_looped e + 1\<rparr>)))"

definition uas_step :: "(string \<Rightarrow> string) \<Rightarrow> (sipMessage \<Rightarrow> bool) option \<Rightarrow> string \<Rightarrow> sipMessage \<Rightarrow> sipEndpoint \<Rightarrow> sipEndpoint" where
  "uas_step up matchDialog localTag req e =
     (case uas_handle up matchDialog localTag req of
        None \<Rightarrow> e\<lparr>ep_requests := ep_requests e + 1\<rparr>
      | Some resp \<Rightarrow> e\<lparr>ep_requests := ep_requests e + 1, ep_sent := ep_sent e @ [sipBytes resp]\<rparr>)"

text \<open>A response written to the channels of its transaction, or given to its hook.\<close>

definition accept_response :: "sip_inbound \<Rightarrow> sipClientTxn \<Rightarrow> sipClientTxn" where
  "accept_response inb t =
     (if tx_onResponse t then t\<lparr>tx_hooked := tx_hooked t @ [inb]\<rparr>
      else if tx_completed t then t
      else if sm_StatusCode (in_msg inb) < 200 then
        (if length (tx_provisionals t) < provisional_capacity then t\<lparr>tx_provisionals := tx_provisionals t @ [inb]\<rparr> else t)
      else (if tx_final t = None then t\<lparr>tx_final := Some inb\<rparr> else t))"

text \<open>The key a response is routed by; \<open>None\<close> when it has no CSeq or no branch.\<close>

definition response_key :: "(string \<Rightarrow> string) \<Rightarrow> sipMessage \<Rightarrow> string option" where
  "response_key up m =
     (case cseq up m of
        None \<Rightarrow> None
      | Some (_, method) \<Rightarrow> if topViaBranch m = '''' then None else Some (sipTxnKey up (topViaBranch m) method))"

definition dispatch_one ::
    "(string \<Rightarrow> string) \<Rightarrow> (sipMessage \<Rightarrow> bool) option \<Rightarrow> string \<Rightarrow> sip_inbound \<Rightarrow> sipEndpoint \<Rightarrow> sipEndpoint" where
  "dispatch_one up matchDialog localTag inb e =
     (if sm_IsRequest (in_msg inb) then
        (case ownRequest up (in_msg inb) e of
           Some e' \<Rightarrow> e'
         | None \<Rightarrow> uas_step up matchDialog localTag (in_msg inb) e)
      else
        (case response_key up (in_msg inb) of
           None \<Rightarrow> e\<lparr>ep_stray := ep_stray e + 1\<rparr>
         | Some key \<Rightarrow>
             (case ep_txns e key of
                None \<Rightarrow> e\<lparr>ep_stray := ep_stray e + 1\<rparr>
              | Some _ \<Rightarrow> update_txn key (accept_response inb) e)))"

section \<open>A non-INVITE transaction\<close>

datatype rt_error =
    NotNonInvite | DuplicateTransaction | SendFailed
  | LoopError string
  | FlowEnded
  | Cancelled
  | NoResponse string "sipMessage option" nat nat

text \<open>
  The variables of \<open>roundTripNonInvite\<close>. \<open>rt_due\<close> is when the timer fires, \<open>None\<close> on a reliable
  transport; \<open>rt_sends\<close> is when the request was written, last first; \<open>rt_seen\<close> is what the hook for
  provisionals was given.
\<close>

record round_trip =
  rt_req :: sipMessage
  rt_key :: string
  rt_interval :: time
  rt_due :: "time option"
  rt_provisional :: "sipMessage option"
  rt_seen :: "sip_inbound list"
  rt_sends :: "time list"
  rt_result :: "(rt_error + sip_inbound) option"

definition request_key :: "(string \<Rightarrow> string) \<Rightarrow> sipMessage \<Rightarrow> string" where
  "request_key up req = sipTxnKey up (topViaBranch req) (sm_Method req)"

text \<open>Up to the first \<open>select\<close>; \<open>sent_ok\<close> says whether the write succeeds.\<close>

definition start_round_trip ::
    "(string \<Rightarrow> string) \<Rightarrow> bool \<Rightarrow> bool \<Rightarrow> time \<Rightarrow> sipMessage \<Rightarrow> sipEndpoint \<Rightarrow> rt_error + (sipEndpoint \<times> round_trip)" where
  "start_round_trip up reliable sent_ok now req e =
     (if sm_Method req = ''INVITE'' \<or> sm_Method req = ''ACK'' then Inl NotNonInvite
      else case registerTxn (request_key up req) False e of
        None \<Rightarrow> Inl DuplicateTransaction
      | Some e1 \<Rightarrow>
          Inr (if \<not> sent_ok then
                 (complete_txn (request_key up req) e1,
                  \<lparr>rt_req = req, rt_key = request_key up req, rt_interval = sipT1, rt_due = None, rt_provisional = None,
                   rt_seen = [], rt_sends = [], rt_result = Some (Inl SendFailed)\<rparr>)
               else
                 (e1\<lparr>ep_sent := ep_sent e1 @ [sipBytes req]\<rparr>,
                  \<lparr>rt_req = req, rt_key = request_key up req, rt_interval = sipT1,
                   rt_due = (if reliable then None else Some (now + sipT1)), rt_provisional = None,
                   rt_seen = [], rt_sends = [now], rt_result = None\<rparr>)))"

definition seeProvisional :: "sip_inbound list \<Rightarrow> round_trip \<Rightarrow> round_trip" where
  "seeProvisional inbs c =
     (if inbs = [] then c else c\<lparr>rt_provisional := Some (in_msg (last inbs)), rt_seen := rt_seen c @ inbs\<rparr>)"

text \<open>Return, with the deferred \<open>complete\<close>.\<close>

definition finish :: "rt_error + sip_inbound \<Rightarrow> sipEndpoint \<times> round_trip \<Rightarrow> sipEndpoint \<times> round_trip" where
  "finish r ec = (complete_txn (rt_key (snd ec)) (fst ec), (snd ec)\<lparr>rt_result := Some r\<rparr>)"

definition drainProvisionals :: "sipEndpoint \<times> round_trip \<Rightarrow> sipEndpoint \<times> round_trip" where
  "drainProvisionals ec =
     (case ep_txns (fst ec) (rt_key (snd ec)) of
        None \<Rightarrow> ec
      | Some t \<Rightarrow> (update_txn (rt_key (snd ec)) (\<lambda>t. t\<lparr>tx_provisionals := []\<rparr>) (fst ec), seeProvisional (tx_provisionals t) (snd ec)))"

definition take_final :: "string \<Rightarrow> sipEndpoint \<Rightarrow> sipEndpoint" where
  "take_final key = update_txn key (\<lambda>t. t\<lparr>tx_final := None\<rparr>)"

text \<open>
  The branches of the \<open>select\<close>, with what they read from outside. The flag of \<open>SelectDone\<close> is Go's
  choice when both channels of its inner \<open>select\<close> are ready.
\<close>

datatype select_branch =
    SelectProvisional
  | SelectFinal
  | SelectLooped
  | SelectTimer time bool
  | SelectDone bool
  | SelectContext bool nat

definition retransmit :: "time \<Rightarrow> bool \<Rightarrow> sipEndpoint \<times> round_trip \<Rightarrow> sipEndpoint \<times> round_trip" where
  "retransmit now sent_ok ec =
     (let (e, c) = ec in
      if \<not> sent_ok then finish (Inl SendFailed) ec
      else
        let interval = (if rt_provisional c \<noteq> None then sipT2 else min (2 * rt_interval c) sipT2) in
        (e\<lparr>ep_sent := ep_sent e @ [sipBytes (rt_req c)], ep_retransmissions := ep_retransmissions e + 1\<rparr>,
         c\<lparr>rt_interval := interval, rt_due := Some (now + interval), rt_sends := now # rt_sends c\<rparr>))"

text \<open>\<open>None\<close>: the branch is not ready.\<close>

definition select_step :: "select_branch \<Rightarrow> sipEndpoint \<times> round_trip \<Rightarrow> (sipEndpoint \<times> round_trip) option" where
  "select_step b ec =
     (let (e, c) = ec; key = rt_key c in
      case ep_txns e key of None \<Rightarrow> None | Some t \<Rightarrow>
      (case b of
         SelectProvisional \<Rightarrow>
           (case tx_provisionals t of [] \<Rightarrow> None
            | inb # rest \<Rightarrow> Some (update_txn key (\<lambda>t. t\<lparr>tx_provisionals := rest\<rparr>) e, seeProvisional [inb] c))
       | SelectFinal \<Rightarrow>
           (case tx_final t of None \<Rightarrow> None
            | Some inb \<Rightarrow> Some (finish (Inr inb) (drainProvisionals (take_final key e, c))))
       | SelectLooped \<Rightarrow> if tx_looped t then Some (finish (Inl (LoopError (sm_Method (rt_req c)))) ec) else None
       | SelectTimer now sent_ok \<Rightarrow>
           (case rt_due c of None \<Rightarrow> None | Some due \<Rightarrow> if now < due then None else Some (retransmit now sent_ok ec))
       | SelectDone take_looped \<Rightarrow>
           if \<not> ep_done e then None
           else
             let ec' = drainProvisionals ec in
             (case tx_final t of
                Some inb \<Rightarrow>
                  if tx_looped t \<and> take_looped then Some (finish (Inl (LoopError (sm_Method (rt_req c)))) ec')
                  else Some (finish (Inr inb) (take_final key (fst ec'), snd ec'))
              | None \<Rightarrow> Some (finish (Inl (if tx_looped t then LoopError (sm_Method (rt_req c)) else FlowEnded)) ec'))
       | SelectContext cancelled malformed \<Rightarrow>
           Some (finish (Inl (if cancelled then Cancelled
             else NoResponse (sm_Method (rt_req c)) (rt_provisional c) (ep_stray e) malformed)) ec)))"

section \<open>The system\<close>

record sip_system =
  sy_endpoint :: sipEndpoint
  sy_call :: round_trip
  sy_trace :: "sip_inbound list"

text \<open>
  One step, seen from the transaction with a given key. Other goroutines may do anything to the
  endpoint but touch this transaction or end the flow twice; they forget no branch.
\<close>

inductive system_step ::
    "(string \<Rightarrow> string) \<Rightarrow> (sipMessage \<Rightarrow> bool) option \<Rightarrow> string \<Rightarrow> sip_system \<Rightarrow> sip_system \<Rightarrow> bool"
  for up matchDialog localTag where
  Dispatched: "\<not> ep_done (sy_endpoint s) \<Longrightarrow>
    system_step up matchDialog localTag s
      (s\<lparr>sy_endpoint := dispatch_one up matchDialog localTag inb (sy_endpoint s), sy_trace := sy_trace s @ [inb]\<rparr>)"
| Ended: "system_step up matchDialog localTag s (s\<lparr>sy_endpoint := (sy_endpoint s)\<lparr>ep_done := True\<rparr>\<rparr>)"
| Selected: "rt_result (sy_call s) = None \<Longrightarrow> select_step b (sy_endpoint s, sy_call s) = Some (e, c) \<Longrightarrow>
    system_step up matchDialog localTag s (s\<lparr>sy_endpoint := e, sy_call := c\<rparr>)"
| Others: "ep_txns e (rt_key (sy_call s)) = ep_txns (sy_endpoint s) (rt_key (sy_call s)) \<Longrightarrow>
    set (ep_branches (sy_endpoint s)) \<subseteq> set (ep_branches e) \<Longrightarrow> ep_done e = ep_done (sy_endpoint s) \<Longrightarrow>
    system_step up matchDialog localTag s (s\<lparr>sy_endpoint := e\<rparr>)"

text \<open>Everything that can happen once a transaction has started.\<close>

inductive system_run ::
    "(string \<Rightarrow> string) \<Rightarrow> (sipMessage \<Rightarrow> bool) option \<Rightarrow> string \<Rightarrow> bool \<Rightarrow> sipMessage \<Rightarrow> sip_system \<Rightarrow> bool"
  for up matchDialog localTag reliable req where
  Started: "start_round_trip up reliable sent_ok now req e0 = Inr (e, c) \<Longrightarrow>
    system_run up matchDialog localTag reliable req \<lparr>sy_endpoint = e, sy_call = c, sy_trace = []\<rparr>"
| Stepped: "system_run up matchDialog localTag reliable req s \<Longrightarrow> system_step up matchDialog localTag s s' \<Longrightarrow>
    system_run up matchDialog localTag reliable req s'"

end
