(* ===== verification/SipCall.thy ===== *)
theory SipCall
  imports SipTxn
begin

text \<open>
  What a non-INVITE transaction promises, whatever the peer sends and however its goroutine, the
  dispatcher and the rest of the check interleave.
\<close>

section \<open>Its place in the endpoint\<close>

text \<open>A message for the transaction with a key, its final and its provisional responses.\<close>

definition for_key :: "(string \<Rightarrow> string) \<Rightarrow> string \<Rightarrow> sip_inbound \<Rightarrow> bool" where
  "for_key up key inb \<longleftrightarrow> \<not> sm_IsRequest (in_msg inb) \<and> response_key up (in_msg inb) = Some key"

definition final_for :: "(string \<Rightarrow> string) \<Rightarrow> string \<Rightarrow> sip_inbound \<Rightarrow> bool" where
  "final_for up key inb \<longleftrightarrow> for_key up key inb \<and> 200 \<le> sm_StatusCode (in_msg inb)"

definition provisional_for :: "(string \<Rightarrow> string) \<Rightarrow> string \<Rightarrow> sip_inbound \<Rightarrow> bool" where
  "provisional_for up key inb \<longleftrightarrow> for_key up key inb \<and> sm_StatusCode (in_msg inb) < 200"

text \<open>The request reflected: a request with a Via whose branch makes the key.\<close>

definition reflects :: "(string \<Rightarrow> string) \<Rightarrow> string \<Rightarrow> sip_inbound \<Rightarrow> bool" where
  "reflects up key inb \<longleftrightarrow> sm_IsRequest (in_msg inb) \<and>
     (\<exists>via \<in> set (Values (in_msg inb) ''Via''). sipTxnKey up (sipViaBranch via) (sm_Method (in_msg inb)) = key)"

lemma update_txn_at: "ep_txns (update_txn key f e) k = (if k = key then map_option f (ep_txns e key) else ep_txns e k)"
  by (simp add: update_txn_def)

text \<open>What one dispatched message does to one transaction.\<close>

lemma uas_step_txns: "ep_txns (uas_step up md tag req e) = ep_txns e"
  by (simp add: uas_step_def split: option.split)

lemma dispatched_entry:
  assumes "ep_txns e key = Some t"
  obtains (mine) "for_key up key inb" "ep_txns (dispatch_one up md tag inb e) key = Some (accept_response inb t)"
  | (loop) "\<not> for_key up key inb" "reflects up key inb" "ep_txns (dispatch_one up md tag inb e) key = Some (t\<lparr>tx_looped := True\<rparr>)"
  | (other) "\<not> for_key up key inb" "ep_txns (dispatch_one up md tag inb e) key = Some t"
proof (cases "sm_IsRequest (in_msg inb)")
  case True
  then have no: "\<not> for_key up key inb" by (simp add: for_key_def)
  show ?thesis
  proof (cases "ownRequest up (in_msg inb) e")
    case None
    with True assms have "ep_txns (dispatch_one up md tag inb e) key = Some t" by (simp add: dispatch_one_def uas_step_txns)
    with no show ?thesis by (rule other)
  next
    case (Some e')
    then obtain b where b: "b \<in> set (map sipViaBranch (Values (in_msg inb) ''Via''))"
      and e': "e' = update_txn (sipTxnKey up b (sm_Method (in_msg inb))) (\<lambda>t. t\<lparr>tx_looped := True\<rparr>) (e\<lparr>ep_looped := ep_looped e + 1\<rparr>)"
      unfolding ownRequest_def by (auto split: option.splits dest: find_SomeD)
    have disp: "dispatch_one up md tag inb e = e'" using True Some by (simp add: dispatch_one_def)
    show ?thesis
    proof (cases "sipTxnKey up b (sm_Method (in_msg inb)) = key")
      case hit: True
      with True b have "reflects up key inb" by (auto simp: reflects_def)
      moreover have "ep_txns (dispatch_one up md tag inb e) key = Some (t\<lparr>tx_looped := True\<rparr>)"
        using hit assms by (simp add: disp e' update_txn_at)
      ultimately show ?thesis using no by (intro loop)
    next
      case False
      then have "ep_txns (dispatch_one up md tag inb e) key = Some t" using assms by (simp add: disp e' update_txn_at)
      with no show ?thesis by (rule other)
    qed
  qed
next
  case False
  show ?thesis
  proof (cases "for_key up key inb")
    case True
    with False assms have "ep_txns (dispatch_one up md tag inb e) key = Some (accept_response inb t)"
      by (simp add: dispatch_one_def for_key_def update_txn_at)
    with True show ?thesis by (rule mine)
  next
    case no: False
    with False assms have "ep_txns (dispatch_one up md tag inb e) key = Some t"
      by (auto simp: dispatch_one_def for_key_def update_txn_at split: option.splits)
    with no show ?thesis by (rule other)
  qed
qed

section \<open>The invariant\<close>

text \<open>
  While it waits, the slot holds the first final response dispatched for it; when it has returned a
  response, that is the one. What its hook saw and what is queued is a part of the provisional
  responses dispatched for it, in their order.
\<close>

definition entry_ok :: "(string \<Rightarrow> string) \<Rightarrow> round_trip \<Rightarrow> bool \<Rightarrow> sip_inbound list \<Rightarrow> sipClientTxn \<Rightarrow> bool" where
  "entry_ok up c ended trace t \<longleftrightarrow>
     \<not> tx_onResponse t \<and> (tx_completed t \<longleftrightarrow> rt_result c \<noteq> None) \<and>
     (rt_result c = None \<longrightarrow> tx_final t = find (final_for up (rt_key c)) trace) \<and>
     (\<forall>inb. rt_result c = Some (Inr inb) \<longrightarrow> find (final_for up (rt_key c)) trace = Some inb) \<and>
     (rt_result c = Some (Inl FlowEnded) \<longrightarrow> find (final_for up (rt_key c)) trace = None \<and> ended) \<and>
     (tx_looped t \<longrightarrow> (\<exists>inb \<in> set trace. reflects up (rt_key c) inb)) \<and>
     (\<forall>m. rt_result c = Some (Inl (LoopError m)) \<longrightarrow> (\<exists>inb \<in> set trace. reflects up (rt_key c) inb)) \<and>
     length (tx_provisionals t) \<le> provisional_capacity \<and>
     subseq (rt_seen c @ (if rt_result c = None then tx_provisionals t else [])) (filter (provisional_for up (rt_key c)) trace)"

definition call_ok :: "(string \<Rightarrow> string) \<Rightarrow> sip_system \<Rightarrow> bool" where
  "call_ok up s \<longleftrightarrow>
     (\<exists>t. ep_txns (sy_endpoint s) (rt_key (sy_call s)) = Some t \<and>
       entry_ok up (sy_call s) (ep_done (sy_endpoint s)) (sy_trace s) t)"

lemma find_snoc:
  "\<not> p x \<Longrightarrow> find p (xs @ [x]) = find p xs"
  "find p xs = Some y \<Longrightarrow> find p (xs @ [x]) = Some y"
  "p x \<Longrightarrow> find p xs = None \<Longrightarrow> find p (xs @ [x]) = Some x"
  by (simp_all add: find_append split: option.split)

lemma subseq_snoc: "subseq xs ys \<Longrightarrow> subseq xs (ys @ [y])"
  using list_emb_append2 [of "(=)" xs ys "[y]"] list_emb_append_mono [of "(=)" xs ys "[]" "[y]"] by simp

lemma entry_ok_other:
  assumes "entry_ok up c False trace t" "\<not> for_key up (rt_key c) inb"
  shows "entry_ok up c False (trace @ [inb]) t"
  using assms unfolding entry_ok_def
  by (auto simp: find_snoc final_for_def provisional_for_def)

lemma entry_ok_loop:
  assumes "entry_ok up c False trace t" "\<not> for_key up (rt_key c) inb" "reflects up (rt_key c) inb"
  shows "entry_ok up c False (trace @ [inb]) (t\<lparr>tx_looped := True\<rparr>)"
  using entry_ok_other [OF assms(1,2)] assms(3) by (auto simp: entry_ok_def)

lemma entry_ok_response:
  assumes "entry_ok up c False trace t" "for_key up (rt_key c) inb"
  shows "entry_ok up c False (trace @ [inb]) (accept_response inb t)"
proof (cases "sm_StatusCode (in_msg inb) < 200")
  case True
  with assms have kind: "\<not> final_for up (rt_key c) inb" "provisional_for up (rt_key c) inb"
    by (simp_all add: final_for_def provisional_for_def)
  show ?thesis
  proof (cases "rt_result c = None \<and> length (tx_provisionals t) < provisional_capacity")
    case room: True
    have "subseq ((rt_seen c @ tx_provisionals t) @ [inb]) (filter (provisional_for up (rt_key c)) trace @ [inb])"
      using assms(1) room by (intro list_emb_append_mono) (auto simp: entry_ok_def)
    with assms kind room True show ?thesis by (auto simp: entry_ok_def accept_response_def find_snoc)
  next
    case False
    with assms kind True have "accept_response inb t = t" by (auto simp: entry_ok_def accept_response_def)
    with assms kind show ?thesis by (auto simp: entry_ok_def find_snoc intro: subseq_snoc split: if_splits)
  qed
next
  case False
  with assms have kind: "final_for up (rt_key c) inb" "\<not> provisional_for up (rt_key c) inb"
    by (simp_all add: final_for_def provisional_for_def)
  with assms False show ?thesis
    by (cases "tx_final t") (auto simp: entry_ok_def accept_response_def find_snoc split: option.splits)
qed

lemma call_ok_dispatched:
  assumes "call_ok up s" "\<not> ep_done (sy_endpoint s)"
  shows "call_ok up (s\<lparr>sy_endpoint := dispatch_one up md tag inb (sy_endpoint s), sy_trace := sy_trace s @ [inb]\<rparr>)"
proof -
  from assms obtain t where t: "ep_txns (sy_endpoint s) (rt_key (sy_call s)) = Some t"
    "entry_ok up (sy_call s) False (sy_trace s) t" by (auto simp: call_ok_def)
  have done_same: "ep_done (dispatch_one up md tag inb (sy_endpoint s)) = ep_done (sy_endpoint s)"
    by (auto simp: dispatch_one_def ownRequest_def uas_step_def update_txn_def split: option.splits prod.splits)
  from t(1) show ?thesis
    by (rule dispatched_entry [where up = up and inb = inb and md = md and tag = tag])
      (use t(2) assms(2) done_same entry_ok_other entry_ok_loop entry_ok_response in \<open>auto simp: call_ok_def\<close>)
qed

lemma entry_ok_finished:
  assumes "entry_ok up c ended trace t" "rt_result c = None"
    and "\<And>inb. r = Inr inb \<Longrightarrow> find (final_for up (rt_key c)) trace = Some inb"
    and "r = Inl FlowEnded \<Longrightarrow> find (final_for up (rt_key c)) trace = None \<and> ended"
    and "\<And>m. r = Inl (LoopError m) \<Longrightarrow> tx_looped t"
  shows "entry_ok up (c\<lparr>rt_result := Some r\<rparr>) ended trace (t\<lparr>tx_final := f, tx_completed := True\<rparr>)"
proof -
  have "subseq (rt_seen c @ tx_provisionals t) (filter (provisional_for up (rt_key c)) trace)"
    using assms(1,2) by (simp add: entry_ok_def)
  then have "subseq (rt_seen c) (filter (provisional_for up (rt_key c)) trace)" by (rule list_emb_appendD [THEN exE]) auto
  with assms show ?thesis by (auto simp: entry_ok_def)
qed

lemma entry_ok_drained:
  assumes "entry_ok up c ended trace t" "rt_result c = None"
  shows "entry_ok up (seeProvisional (tx_provisionals t) c) ended trace (t\<lparr>tx_provisionals := []\<rparr>)"
  using assms by (cases "tx_provisionals t") (simp_all add: entry_ok_def seeProvisional_def)

lemma seeProvisional_keeps [simp]:
  "rt_key (seeProvisional inbs c) = rt_key c" "rt_result (seeProvisional inbs c) = rt_result c"
  "rt_sends (seeProvisional inbs c) = rt_sends c" "rt_due (seeProvisional inbs c) = rt_due c"
  "rt_interval (seeProvisional inbs c) = rt_interval c" "rt_req (seeProvisional inbs c) = rt_req c"
  by (simp_all add: seeProvisional_def)

lemma update_txn_done [simp]: "ep_done (update_txn key f e) = ep_done e"
  by (simp add: update_txn_def)

text \<open>What a returning branch leaves of the transaction's entry.\<close>

lemma finish_at:
  "finish r (e, c) = (e', c') \<Longrightarrow> ep_txns e (rt_key c) = Some t \<Longrightarrow>
    c' = c\<lparr>rt_result := Some r\<rparr> \<and> ep_txns e' (rt_key c) = Some (t\<lparr>tx_completed := True\<rparr>) \<and> ep_done e' = ep_done e"
  by (auto simp: finish_def complete_txn_def update_txn_at)

lemma drain_at:
  "drainProvisionals (e, c) = (e', c') \<Longrightarrow> ep_txns e (rt_key c) = Some t \<Longrightarrow>
    c' = seeProvisional (tx_provisionals t) c \<and> ep_txns e' (rt_key c) = Some (t\<lparr>tx_provisionals := []\<rparr>) \<and> ep_done e' = ep_done e"
  by (auto simp: drainProvisionals_def update_txn_at)

lemma take_final_at:
  "ep_txns e key = Some t \<Longrightarrow> ep_txns (take_final key e) key = Some (t\<lparr>tx_final := None\<rparr>) \<and> ep_done (take_final key e) = ep_done e"
  by (simp add: take_final_def update_txn_at)

lemma select_ok:
  assumes "select_step b (e, c) = Some (e', c')" "ep_txns e (rt_key c) = Some t"
    and ok: "entry_ok up c (ep_done e) trace t" and running: "rt_result c = None"
  shows "rt_key c' = rt_key c \<and> (\<exists>t'. ep_txns e' (rt_key c) = Some t' \<and> entry_ok up c' (ep_done e') trace t')"
proof (cases b)
  case SelectProvisional
  with assms(1,2) obtain inb rest where q: "tx_provisionals t = inb # rest"
    and e': "e' = update_txn (rt_key c) (\<lambda>t. t\<lparr>tx_provisionals := rest\<rparr>) e" "c' = seeProvisional [inb] c"
    by (auto simp: select_step_def split: list.splits)
  from ok running q have "entry_ok up c' (ep_done e) trace (t\<lparr>tx_provisionals := rest\<rparr>)"
    by (auto simp: entry_ok_def e' seeProvisional_def)
  then show ?thesis using assms(2) by (simp add: e' update_txn_at)
next
  case SelectFinal
  with assms(1,2) obtain inb where f: "tx_final t = Some inb" and r: "finish (Inr inb) (drainProvisionals (take_final (rt_key c) e, c)) = (e', c')"
    by (auto simp: select_step_def split: option.splits)
  obtain e1 c1 where d: "drainProvisionals (take_final (rt_key c) e, c) = (e1, c1)" by fastforce
  let ?t = "t\<lparr>tx_final := None, tx_provisionals := []\<rparr>"
  from drain_at [OF d] take_final_at [OF assms(2)] have c1: "c1 = seeProvisional (tx_provisionals t) c"
    and e1: "ep_txns e1 (rt_key c) = Some ?t" "ep_done e1 = ep_done e" by simp_all
  from finish_at [OF r [unfolded d]] c1 e1 have c': "c' = c1\<lparr>rt_result := Some (Inr inb)\<rparr>"
    and e': "ep_txns e' (rt_key c) = Some (?t\<lparr>tx_completed := True\<rparr>)" "ep_done e' = ep_done e" by simp_all
  have "entry_ok up c' (ep_done e) trace (t\<lparr>tx_provisionals := []\<rparr>\<lparr>tx_final := None, tx_completed := True\<rparr>)"
    unfolding c' c1 using entry_ok_drained [OF ok running] ok running f
    by (intro entry_ok_finished) (auto simp: entry_ok_def)
  moreover have "t\<lparr>tx_provisionals := [], tx_final := None, tx_completed := True\<rparr> = t\<lparr>tx_final := None, tx_provisionals := [], tx_completed := True\<rparr>"
    by (cases t) simp
  ultimately show ?thesis using e' by (simp add: c' c1)
next
  case SelectLooped
  with assms(1,2) have l: "tx_looped t" and r: "finish (Inl (LoopError (sm_Method (rt_req c)))) (e, c) = (e', c')"
    by (auto simp: select_step_def split: if_splits)
  have "entry_ok up (c\<lparr>rt_result := Some (Inl (LoopError (sm_Method (rt_req c))))\<rparr>) (ep_done e) trace (t\<lparr>tx_final := tx_final t, tx_completed := True\<rparr>)"
    using l by (intro entry_ok_finished [OF ok running]) auto
  with finish_at [OF r assms(2)] show ?thesis by auto
next
  case (SelectTimer now sent_ok)
  with assms(1,2) have r: "retransmit now sent_ok (e, c) = (e', c')" by (auto simp: select_step_def split: option.splits if_splits)
  show ?thesis
  proof (cases sent_ok)
    case True
    then have "rt_key c' = rt_key c" "ep_txns e' = ep_txns e" "ep_done e' = ep_done e" "rt_result c' = rt_result c"
      "rt_seen c' = rt_seen c"
      using r by (auto simp: retransmit_def Let_def)
    with ok assms(2) show ?thesis by (simp add: entry_ok_def)
  next
    case False
    then have f: "finish (Inl SendFailed) (e, c) = (e', c')" using r by (simp add: retransmit_def)
    have "entry_ok up (c\<lparr>rt_result := Some (Inl SendFailed)\<rparr>) (ep_done e) trace (t\<lparr>tx_final := tx_final t, tx_completed := True\<rparr>)"
      by (rule entry_ok_finished [OF ok running]) auto
    with finish_at [OF f assms(2)] show ?thesis by auto
  qed
next
  case (SelectDone take_looped)
  obtain e1 c1 where d: "drainProvisionals (e, c) = (e1, c1)" by fastforce
  from drain_at [OF d assms(2)] have c1: "c1 = seeProvisional (tx_provisionals t) c"
    and e1: "ep_txns e1 (rt_key c) = Some (t\<lparr>tx_provisionals := []\<rparr>)" "ep_done e1 = ep_done e" by simp_all
  have key: "rt_key c1 = rt_key c" and run1: "rt_result c1 = None" using running by (simp_all add: c1)
  note drained = entry_ok_drained [OF ok running, folded c1]
  from SelectDone assms(1,2) have ended: "ep_done e" by (auto simp: select_step_def split: if_splits)
  show ?thesis
  proof (cases "\<exists>inb. tx_final t = Some inb \<and> \<not> (tx_looped t \<and> take_looped)")
    case True
    then obtain inb where f: "tx_final t = Some inb" and r: "finish (Inr inb) (take_final (rt_key c) e1, c1) = (e', c')"
      using SelectDone assms(1,2) ended d by (auto simp: select_step_def split: if_splits)
    from take_final_at [OF e1(1)] finish_at [OF r] key have
      out: "c' = c1\<lparr>rt_result := Some (Inr inb)\<rparr>" "ep_txns e' (rt_key c) = Some (t\<lparr>tx_provisionals := [], tx_final := None, tx_completed := True\<rparr>)"
      "ep_done e' = ep_done e" using e1 by simp_all
    have "entry_ok up c' (ep_done e) trace (t\<lparr>tx_provisionals := []\<rparr>\<lparr>tx_final := None, tx_completed := True\<rparr>)"
      unfolding out(1) using ok running f key by (intro entry_ok_finished [OF drained run1]) (auto simp: entry_ok_def)
    then show ?thesis using out key by simp
  next
    case False
    define r where "r = (if tx_looped t then LoopError (sm_Method (rt_req c)) else FlowEnded)"
    have r: "finish (Inl r) (e1, c1) = (e', c')" and
      why: "r = FlowEnded \<and> tx_final t = None \<or> r = LoopError (sm_Method (rt_req c)) \<and> tx_looped t"
      using False SelectDone assms(1,2) ended d
      by (cases "tx_final t"; simp add: select_step_def Let_def r_def)+
    from finish_at [OF r, unfolded key, OF e1(1)] have
      out: "c' = c1\<lparr>rt_result := Some (Inl r)\<rparr>" "ep_txns e' (rt_key c) = Some (t\<lparr>tx_provisionals := [], tx_completed := True\<rparr>)"
      "ep_done e' = ep_done e" using e1 by simp_all
    have "entry_ok up c' (ep_done e) trace (t\<lparr>tx_provisionals := []\<rparr>\<lparr>tx_final := tx_final t, tx_completed := True\<rparr>)"
      unfolding out(1) using ok running why ended key by (intro entry_ok_finished [OF drained run1]) (auto simp: entry_ok_def)
    then show ?thesis using out key by simp
  qed
next
  case (SelectContext cancelled malformed)
  with assms(1,2) obtain r where r: "finish (Inl r) (e, c) = (e', c')" and why: "r \<noteq> FlowEnded" "\<And>m. r \<noteq> LoopError m"
    by (auto simp: select_step_def split: if_splits)
  have "entry_ok up (c\<lparr>rt_result := Some (Inl r)\<rparr>) (ep_done e) trace (t\<lparr>tx_final := tx_final t, tx_completed := True\<rparr>)"
    using why by (intro entry_ok_finished [OF ok running]) auto
  with finish_at [OF r assms(2)] show ?thesis by auto
qed

section \<open>Every run keeps it\<close>

lemma started_ok:
  assumes "start_round_trip up reliable sent_ok now req e0 = Inr (e, c)"
  shows "call_ok up \<lparr>sy_endpoint = e, sy_call = c, sy_trace = []\<rparr>" "rt_key c = request_key up req"
  using assms
  by (auto simp: start_round_trip_def registerTxn_def call_ok_def entry_ok_def new_txn_def complete_txn_def update_txn_at split: if_splits)

lemma call_step_ok:
  assumes "system_step up md tag s s'" "call_ok up s"
  shows "call_ok up s' \<and> rt_key (sy_call s') = rt_key (sy_call s)"
  using assms
proof cases
  case (Dispatched inb)
  then show ?thesis using call_ok_dispatched [OF assms(2) Dispatched(2)] by simp
next
  case Ended
  with assms(2) show ?thesis by (auto simp: call_ok_def entry_ok_def)
next
  case (Selected b e c)
  from assms(2) obtain t where t: "ep_txns (sy_endpoint s) (rt_key (sy_call s)) = Some t"
    "entry_ok up (sy_call s) (ep_done (sy_endpoint s)) (sy_trace s) t" by (auto simp: call_ok_def)
  from select_ok [OF Selected(3) t Selected(2)] Selected(1) show ?thesis by (auto simp: call_ok_def)
next
  case (Others e)
  with assms(2) show ?thesis by (simp add: call_ok_def)
qed

lemma call_run_ok: "system_run up md tag reliable req s \<Longrightarrow> call_ok up s \<and> rt_key (sy_call s) = request_key up req"
proof (induction rule: system_run.induct)
  case (Started sent_ok now e0 e c)
  from started_ok [OF this] show ?case by simp
next
  case (Stepped s s')
  from call_step_ok [OF Stepped.hyps(2)] Stepped.IH show ?case by simp
qed

section \<open>The timer\<close>

text \<open>
  Timer E. The times the request was written, first to last, are \<open>rev (rt_sends c)\<close>; the invariant
  says what the interval is at least when the next one is due.
\<close>

fun backed_off :: "time list \<Rightarrow> bool" where
  "backed_off [] = True"
| "backed_off [s] = True"
| "backed_off (s2 # s1 # ss) = (min (2 ^ length ss * sipT1) sipT2 \<le> s2 - s1 \<and> backed_off (s1 # ss))"

definition timer_ok :: "bool \<Rightarrow> round_trip \<Rightarrow> bool" where
  "timer_ok reliable c \<longleftrightarrow>
     backed_off (rt_sends c) \<and> (reliable \<longrightarrow> rt_due c = None \<and> length (rt_sends c) \<le> 1) \<and>
     (\<forall>due. rt_due c = Some due \<longrightarrow> (\<exists>s ss. rt_sends c = s # ss \<and> due = s + rt_interval c \<and>
        min (2 ^ length ss * sipT1) sipT2 \<le> rt_interval c \<and> rt_interval c \<le> sipT2 \<and> sipT1 \<le> rt_interval c))"

lemma finish_call: "snd (finish r ec) = (snd ec)\<lparr>rt_result := Some r\<rparr>"
  by (simp add: finish_def)

lemma drain_call: "\<exists>inbs. snd (drainProvisionals ec) = seeProvisional inbs (snd ec)"
  by (cases "ep_txns (fst ec) (rt_key (snd ec))") (auto simp: drainProvisionals_def intro: exI [of _ "[]"] simp: seeProvisional_def)

lemma timer_ok_cong:
  "rt_sends c' = rt_sends c \<Longrightarrow> rt_due c' = rt_due c \<Longrightarrow> rt_interval c' = rt_interval c \<Longrightarrow> timer_ok reliable c' = timer_ok reliable c"
  by (simp add: timer_ok_def)

lemma retransmit_timer_ok:
  assumes "timer_ok reliable c" "rt_due c = Some due" "due \<le> now"
  shows "timer_ok reliable (snd (retransmit now sent_ok (e, c)))"
proof (cases sent_ok)
  case False
  have "timer_ok reliable (c\<lparr>rt_result := Some (Inl SendFailed)\<rparr>) = timer_ok reliable c" by (rule timer_ok_cong) simp_all
  with False assms(1) show ?thesis by (simp add: retransmit_def finish_call)
next
  case True
  let ?i = "if rt_provisional c \<noteq> None then sipT2 else min (2 * rt_interval c) sipT2"
  from assms obtain s ss where s: "rt_sends c = s # ss" "due = s + rt_interval c"
    and i: "min (2 ^ length ss * sipT1) sipT2 \<le> rt_interval c" "rt_interval c \<le> sipT2" "sipT1 \<le> rt_interval c"
    and b: "backed_off (rt_sends c)" and u: "\<not> reliable" by (auto simp: timer_ok_def)
  have T: "sipT1 \<le> sipT2" "0 < sipT1" by (simp_all add: sipT1_def sipT2_def)
  have "min (2 ^ length (s # ss) * sipT1) sipT2 \<le> ?i" "?i \<le> sipT2" "sipT1 \<le> ?i"
    using i T by (auto simp: min_def split: if_splits)
  moreover have "backed_off (now # rt_sends c)" using b i(1) s assms(3) by simp
  ultimately show ?thesis using True s u by (simp add: timer_ok_def retransmit_def Let_def)
qed

lemma select_timer_ok:
  assumes "select_step b (e, c) = Some (e', c')" "timer_ok reliable c"
  shows "timer_ok reliable c'"
proof -
  have keep: "timer_ok reliable (seeProvisional inbs c)" "timer_ok reliable ((seeProvisional inbs c)\<lparr>rt_result := r\<rparr>)"
    "timer_ok reliable (c\<lparr>rt_result := r\<rparr>)" for inbs r
    using assms(2) timer_ok_cong [of "seeProvisional inbs c" c] timer_ok_cong [of "(seeProvisional inbs c)\<lparr>rt_result := r\<rparr>" c]
      timer_ok_cong [of "c\<lparr>rt_result := r\<rparr>" c] by simp_all
  have drained: "\<exists>inbs. snd (finish r (e2, snd (drainProvisionals (e1, c)))) = (seeProvisional inbs c)\<lparr>rt_result := Some r\<rparr>" for r e1 e2
    using drain_call [of "(e1, c)"] by (auto simp: finish_call)
  have whole: "snd (finish r (drainProvisionals (e1, c))) = snd (finish r (e1, snd (drainProvisionals (e1, c))))" for r e1
    by (simp add: finish_call)
  have c': "c' = snd (e', c')" by simp
  obtain t where t: "ep_txns e (rt_key c) = Some t" using assms(1) by (cases "ep_txns e (rt_key c)") (auto simp: select_step_def)
  show ?thesis
  proof (cases b)
    case SelectProvisional
    with assms(1) t show ?thesis by (auto simp: select_step_def intro: keep(1) split: list.splits)
  next
    case SelectFinal
    with assms(1) t obtain inb e1 where "finish (Inr inb) (drainProvisionals (e1, c)) = (e', c')"
      by (auto simp: select_step_def split: option.splits)
    with whole [of "Inr inb" e1] drained [of "Inr inb" e1 e1] keep(2) show ?thesis by (metis snd_conv)
  next
    case SelectLooped
    with assms(1) t have "finish (Inl (LoopError (sm_Method (rt_req c)))) (e, c) = (e', c')"
      by (auto simp: select_step_def split: option.splits if_splits)
    with keep(3) show ?thesis by (metis finish_call snd_conv)
  next
    case (SelectTimer now sent_ok)
    with assms(1) t obtain due where "rt_due c = Some due" "due \<le> now" "retransmit now sent_ok (e, c) = (e', c')"
      by (auto simp: select_step_def split: option.splits if_splits)
    with retransmit_timer_ok [OF assms(2)] show ?thesis by (metis snd_conv)
  next
    case (SelectDone take_looped)
    with assms(1) t obtain r e2 where "finish r (e2, snd (drainProvisionals (e, c))) = (e', c') \<or> finish r (drainProvisionals (e, c)) = (e', c')"
      by (auto simp: select_step_def Let_def split: option.splits if_splits)
    with whole [of r e] drained [of r e2 e] drained [of r e e] keep(2) show ?thesis by (metis snd_conv)
  next
    case (SelectContext cancelled malformed)
    with assms(1) t obtain r where "finish (Inl r) (e, c) = (e', c')" by (auto simp: select_step_def split: option.splits)
    with keep(3) show ?thesis by (metis finish_call snd_conv)
  qed
qed

lemma run_timer_ok: "system_run up md tag reliable req s \<Longrightarrow> timer_ok reliable (sy_call s)"
proof (induction rule: system_run.induct)
  case (Started sent_ok now e0 e c)
  then show ?case
    by (auto simp: start_round_trip_def timer_ok_def sipT1_def sipT2_def split: if_splits option.splits)
next
  case (Stepped s s')
  from Stepped.hyps(2) Stepped.IH show ?case by cases (auto dest: select_timer_ok)
qed

end
