(* ===== verification/SipTransaction.thy ===== *)
theory SipTransaction
  imports SipExchange SipCall
begin

text \<open>The properties of the SIP transaction layer, and of an exchange from request to answer.\<close>

section \<open>The answer that is returned\<close>

text \<open>
  C17. A transaction returns the first final response the peer sent for it, and no other. Whatever the
  peer sends and however the dispatcher, the transaction and the rest of the check interleave: while
  the transaction waits, the first final response with its branch and CSeq method, if one came, is in
  its slot; a response it returns is that one; and it reports the end of the flow only if there was
  none.
\<close>

theorem first_final_is_returned:
  assumes "system_run up matchDialog localTag reliable req s"
  shows "case rt_result (sy_call s) of
      None \<Rightarrow> (\<exists>t. ep_txns (sy_endpoint s) (request_key up req) = Some t \<and>
        tx_final t = find (final_for up (request_key up req)) (sy_trace s))
    | Some (Inr inb) \<Rightarrow> find (final_for up (request_key up req)) (sy_trace s) = Some inb
    | Some (Inl err) \<Rightarrow> \<not> (err = FlowEnded \<and> find (final_for up (request_key up req)) (sy_trace s) \<noteq> None)"
  using call_run_ok [OF assms] by (auto simp: call_ok_def entry_ok_def split: option.split sum.split)

text \<open>An OPTIONS request and its answer, on a fresh endpoint.\<close>

definition asked :: sipMessage where
  "asked = \<lparr>sm_IsRequest = True, sm_Method = ''OPTIONS'', sm_RequestURI = ''sip:a'', sm_StatusCode = 0, sm_Reason = '''',
     sm_Headers = [\<lparr>sh_Name = ''Via'', sh_Value = ''h;branch=z''\<rparr>, \<lparr>sh_Name = ''CSeq'', sh_Value = ''1 OPTIONS''\<rparr>], sm_Body = ''''\<rparr>"

definition told :: sip_inbound where
  "told = \<lparr>in_msg = \<lparr>sm_IsRequest = False, sm_Method = '''', sm_RequestURI = '''', sm_StatusCode = 200, sm_Reason = '''',
     sm_Headers = sm_Headers asked, sm_Body = ''''\<rparr>, in_at = 7\<rparr>"

lemma asked_key: "request_key id asked = ''z OPTIONS''" "sm_Method asked = ''OPTIONS''"
  by code_simp+

lemma told_key: "response_key id (in_msg told) = Some ''z OPTIONS''" "\<not> sm_IsRequest (in_msg told)" "sm_StatusCode (in_msg told) = 200"
proof -
  have "dec 1 = ''1''" by code_simp
  then have number: "ParseUint31 ''1'' = Some 1" using ParseUint31_dec [of 1] by simp
  have "Get (in_msg told) ''CSeq'' = ''1 OPTIONS''" "Fields ''1 OPTIONS'' = [''1'', ''OPTIONS'']" "ToUpper id ''OPTIONS'' = ''OPTIONS''"
    "topViaBranch (in_msg told) = ''z''" by code_simp+
  with number show "response_key id (in_msg told) = Some ''z OPTIONS''"
    by (simp add: response_key_def cseq_def sipTxnKey_def)
qed (simp_all add: told_def)

lemma asked_started:
  obtains e c where "start_round_trip id False True 0 asked newSIPEndpoint = Inr (e, c)"
    "ep_txns e ''z OPTIONS'' = Some (new_txn False)" "\<not> ep_done e" "rt_key c = ''z OPTIONS''" "rt_result c = None"
    "rt_due c = Some sipT1" "rt_sends c = [0]"
  by (simp add: start_round_trip_def registerTxn_def newSIPEndpoint_def asked_key)

theorem first_final_is_returned_witness:
  "\<exists>s. system_run id None '''' False asked s \<and> rt_result (sy_call s) = Some (Inr told) \<and>
    find (final_for id ''z OPTIONS'') (sy_trace s) = Some told"
proof -
  obtain e c where start: "start_round_trip id False True 0 asked newSIPEndpoint = Inr (e, c)"
    and e: "ep_txns e ''z OPTIONS'' = Some (new_txn False)" "\<not> ep_done e" and c: "rt_key c = ''z OPTIONS''" "rt_result c = None"
    using asked_started by metis
  let ?s0 = "\<lparr>sy_endpoint = e, sy_call = c, sy_trace = []\<rparr>" and ?e1 = "dispatch_one id None '''' told e"
  let ?s1 = "?s0\<lparr>sy_endpoint := ?e1, sy_trace := [told]\<rparr>"
  have run1: "system_run id None '''' False asked ?s1"
    using system_run.Stepped [OF system_run.Started [OF start] system_step.Dispatched [of ?s0 id None "''''" told]] e(2) by simp
  have t1: "ep_txns ?e1 ''z OPTIONS'' = Some ((new_txn False)\<lparr>tx_final := Some told\<rparr>)"
    using e(1) told_key by (simp add: dispatch_one_def update_txn_at accept_response_def new_txn_def)
  let ?f = "finish (Inr told) (drainProvisionals (take_final ''z OPTIONS'' ?e1, c))"
  have "select_step SelectFinal (?e1, c) = Some (fst ?f, snd ?f)" using t1 c by (simp add: select_step_def Let_def)
  moreover have "rt_result (snd ?f) = Some (Inr told)" by (simp add: finish_def)
  ultimately obtain e' c' where sel: "select_step SelectFinal (?e1, c) = Some (e', c')" "rt_result c' = Some (Inr told)" by blast
  have run2: "system_run id None '''' False asked (?s1\<lparr>sy_endpoint := e', sy_call := c'\<rparr>)"
    by (rule system_run.Stepped [OF run1], rule system_step.Selected) (use c sel in simp_all)
  from first_final_is_returned [OF run2] sel(2) have "find (final_for id ''z OPTIONS'') [told] = Some told"
    by (simp add: asked_key)
  with run2 sel(2) show ?thesis by (intro exI [of _ "?s1\<lparr>sy_endpoint := e', sy_call := c'\<rparr>"]) simp
qed

section \<open>Retransmission\<close>

lemma backed_off_nth:
  "backed_off ss \<Longrightarrow> Suc k < length ss \<Longrightarrow> min (2 ^ k * sipT1) sipT2 \<le> rev ss ! Suc k - rev ss ! k"
proof (induction ss rule: backed_off.induct)
  case (3 s2 s1 ss)
  show ?case
  proof (cases "Suc k < length (s1 # ss)")
    case True
    with 3 show ?thesis by (cases "Suc k < length ss") (auto simp: nth_append)
  next
    case False
    with "3.prems"(2) have "k = length ss" by simp
    with "3.prems"(1) show ?thesis by (simp add: nth_append)
  qed
qed simp_all

text \<open>
  C19. Retransmissions back off. Between two consecutive writes of a request on UDP passes at least
  \<open>T1\<close>, doubled with every retransmission up to \<open>T2\<close>, whatever the timing of the peer; on a reliable
  transport the request is written at most once.
\<close>

theorem retransmissions_back_off:
  assumes "system_run up matchDialog localTag reliable req s"
  shows "(reliable \<longrightarrow> length (rt_sends (sy_call s)) \<le> 1) \<and>
    (\<forall>k. Suc k < length (rt_sends (sy_call s)) \<longrightarrow>
      min (2 ^ k * sipT1) sipT2 \<le> rev (rt_sends (sy_call s)) ! Suc k - rev (rt_sends (sy_call s)) ! k)"
  using run_timer_ok [OF assms] backed_off_nth by (auto simp: timer_ok_def)

theorem retransmissions_back_off_witness:
  "\<exists>s. system_run id None '''' False asked s \<and> rt_sends (sy_call s) = [600000, 0] \<and> sipT1 \<le> (600000 :: time) - 0"
proof -
  obtain e c where start: "start_round_trip id False True 0 asked newSIPEndpoint = Inr (e, c)"
    and e: "ep_txns e ''z OPTIONS'' = Some (new_txn False)" and c: "rt_key c = ''z OPTIONS''" "rt_result c = None"
      "rt_due c = Some sipT1" "rt_sends c = [0]"
    using asked_started by metis
  let ?s0 = "\<lparr>sy_endpoint = e, sy_call = c, sy_trace = []\<rparr>"
  obtain e' c' where sel: "select_step (SelectTimer 600000 True) (e, c) = Some (e', c')" "rt_sends c' = [600000, 0]"
    using c e by (simp add: select_step_def retransmit_def Let_def sipT1_def)
  have run: "system_run id None '''' False asked (?s0\<lparr>sy_endpoint := e', sy_call := c'\<rparr>)"
    by (rule system_run.Stepped [OF system_run.Started [OF start]], rule system_step.Selected) (use c sel in simp_all)
  from retransmissions_back_off [OF run] sel(2) have "min (2 ^ 0 * sipT1) sipT2 \<le> (600000 :: time) - 0" by fastforce
  then have "sipT1 \<le> (600000 :: time) - 0" by (simp add: sipT1_def sipT2_def)
  with run sel(2) show ?thesis by (intro exI [of _ "?s0\<lparr>sy_endpoint := e', sy_call := c'\<rparr>"]) simp
qed

section \<open>Reflections\<close>

definition own_branch :: "sipEndpoint \<Rightarrow> sipMessage \<Rightarrow> bool" where
  "own_branch e req \<longleftrightarrow> (\<exists>via \<in> set (Values req ''Via''). sipViaBranch via \<in> set (ep_branches e))"

definition answer_to :: "(string \<Rightarrow> string) \<Rightarrow> (sipMessage \<Rightarrow> bool) option \<Rightarrow> string \<Rightarrow> sipEndpoint \<Rightarrow> sip_inbound \<Rightarrow> string list" where
  "answer_to up md tag e inb =
     (if sm_IsRequest (in_msg inb) \<and> \<not> own_branch e (in_msg inb)
      then (case uas_handle up md tag (in_msg inb) of None \<Rightarrow> [] | Some resp \<Rightarrow> [sipBytes resp]) else [])"

lemma ownRequest_iff: "ownRequest up req e = None \<longleftrightarrow> \<not> own_branch e req"
  by (auto simp: ownRequest_def own_branch_def find_None_iff split: option.split dest!: find_SomeD)

lemma dispatch_sent:
  "ep_sent (dispatch_one up md tag inb e) = ep_sent e @ answer_to up md tag e inb"
  "ep_branches (dispatch_one up md tag inb e) = ep_branches e"
proof -
  have "ep_sent (dispatch_one up md tag inb e) = ep_sent e @ answer_to up md tag e inb \<and>
    ep_branches (dispatch_one up md tag inb e) = ep_branches e"
  proof (cases "ownRequest up (in_msg inb) e")
    case None
    moreover have "\<not> own_branch e (in_msg inb)" using None by (simp add: ownRequest_iff)
    ultimately show ?thesis
      by (auto simp: dispatch_one_def answer_to_def uas_step_def update_txn_def split: option.split)
  next
    case (Some e')
    then have "own_branch e (in_msg inb)" using ownRequest_iff [of up "in_msg inb" e] by auto
    moreover have "ep_sent e' = ep_sent e" "ep_branches e' = ep_branches e"
      using Some by (auto simp: ownRequest_def update_txn_def split: option.splits)
    ultimately show ?thesis using Some
      by (auto simp: dispatch_one_def answer_to_def update_txn_def split: option.split)
  qed
  then show "ep_sent (dispatch_one up md tag inb e) = ep_sent e @ answer_to up md tag e inb"
    "ep_branches (dispatch_one up md tag inb e) = ep_branches e" by simp_all
qed


section \<open>From request to answer\<close>

lemma ToUpper_twice: "list_all visible m \<Longrightarrow> ToUpper up (ToUpper up m) = ToUpper up m"
proof -
  assume "list_all visible m"
  then have ascii: "list_all (\<lambda>c. (of_char c :: nat) < 128) m" by (auto simp: list_all_iff visible_def)
  have one: "upper_char (upper_char c) = upper_char c \<and> (of_char (upper_char c) :: nat) < 128" if "(of_char c :: nat) < 128" for c
    using that by (auto simp: upper_char_def)
  from ascii have "list_all (\<lambda>c. (of_char c :: nat) < 128) (map upper_char m)" using one by (auto simp: list_all_iff)
  with ascii one show ?thesis by (auto simp: ToUpper_def list_all_iff)
qed


definition sample_params :: sipRequestParams where
  "sample_params = \<lparr>p_Method = ''OPTIONS'', p_RequestURI = ''sip:a'', p_Via = '''', p_From = ''<sip:p>'', p_FromTag = ''1'',
     p_To = ''<sip:a>'', p_ToTag = '''', p_CallID = ''1'', p_CSeq = 1, p_Route = [], p_Contact = '''', p_Extra = [],
     p_Body = '''', p_ContentType = ''''\<rparr>"

definition sample_ask :: sipMessage where
  "sample_ask = request_of id ''udp'' ''h'' ''z'' sample_params"

lemma sample_params_ok: "params_ok sample_params"
proof -
  have fields: "isSIPToken ''OPTIONS''" "clean ''sip:a''" "isSIPToken ''1''" by (simp_all add: isSIPToken_def token_char_def is_digit_def)
  have "trimmed ''<sip:p>''" "trimmed ''<sip:a>''" "trimmed ''1''" by (rule visible_trimmed, simp add: visible_def)+
  with fields show ?thesis by (simp add: params_ok_def sample_params_def sipMaxBodyBytes_def)
qed

lemma sample_reply_ok: "reply_ok 200 ''OK'' ''t'' []"
proof -
  have "trimmed ''OK''" by (rule visible_trimmed) (simp add: visible_def)
  moreover have "isSIPToken ''t''" by (simp add: isSIPToken_def token_char_def)
  ultimately show ?thesis by (simp add: reply_ok_def)
qed

lemma used_canonical:
  "sipCanonicalName ''Via'' = ''Via''" "sipCanonicalName ''Max-Forwards'' = ''Max-Forwards''" "sipCanonicalName ''From'' = ''From''"
  "sipCanonicalName ''To'' = ''To''" "sipCanonicalName ''Call-ID'' = ''Call-ID''" "sipCanonicalName ''CSeq'' = ''CSeq''"
  "sipCanonicalName ''User-Agent'' = ''User-Agent''" "sipCanonicalName ''Server'' = ''Server''"
  by code_simp+

lemma small_dec: "dec 0 = ''0''" "dec (Suc 0) = ''1''" "dec 200 = ''200''"
  by code_simp+

lemma sample_ask_eq:
  "sample_ask = \<lparr>sm_IsRequest = True, sm_Method = ''OPTIONS'', sm_RequestURI = ''sip:a'', sm_StatusCode = 0, sm_Reason = '''',
     sm_Headers = [\<lparr>sh_Name = ''Via'', sh_Value = ''SIP/2.0/UDP h;branch=z;rport''\<rparr>, \<lparr>sh_Name = ''Max-Forwards'', sh_Value = ''70''\<rparr>,
       \<lparr>sh_Name = ''From'', sh_Value = ''<sip:p>;tag=1''\<rparr>, \<lparr>sh_Name = ''To'', sh_Value = ''<sip:a>''\<rparr>,
       \<lparr>sh_Name = ''Call-ID'', sh_Value = ''1''\<rparr>, \<lparr>sh_Name = ''CSeq'', sh_Value = ''1 OPTIONS''\<rparr>,
       \<lparr>sh_Name = ''User-Agent'', sh_Value = ''Probara''\<rparr>],
     sm_Body = ''''\<rparr>"
proof -
  have "ToUpper id ''udp'' = ''UDP''" by code_simp
  then show ?thesis
    by (simp add: sample_ask_def request_of_def buildSIPRequest_eq request_headers_def sample_params_def hdr_def used_canonical
        viaValue_def with_tag_def show_int_def small_dec)
qed

lemma sample_lengths:
  "length (sipBytes sample_ask) \<le> sipMaxHeadBytes"
  "length (sipBytes (buildSIPResponse (with_length sample_ask) 200 ''OK'' ''t'' [])) \<le> sipMaxHeadBytes"
proof -
  have tag: "sipHeaderTag ''<sip:a>'' = ''''" by code_simp
  have bytes: "length (sipBytes sample_ask) = 181"
    by (simp add: sample_ask_eq sipBytes_def start_line_def header_line_def crlf_def used_keys small_dec)
  then show "length (sipBytes sample_ask) \<le> sipMaxHeadBytes" by (simp add: sipMaxHeadBytes_def)
  have "Get sample_ask ''From'' = ''<sip:p>;tag=1''" "Get sample_ask ''To'' = ''<sip:a>''" "Get sample_ask ''Call-ID'' = ''1''"
    "Get sample_ask ''CSeq'' = ''1 OPTIONS''" "Values sample_ask ''Via'' = [''SIP/2.0/UDP h;branch=z;rport'']"
    by (simp_all add: Get_def Values_def sample_ask_eq used_keys)
  then have "length (sipBytes (buildSIPResponse (with_length sample_ask) 200 ''OK'' ''t'' [])) = 158"
    by (simp add: buildSIPResponse_eq reply_headers_def with_length_lookup used_keys tag with_tag_def hdr_def used_canonical
        sipBytes_def start_line_def header_line_def crlf_def show_int_def small_dec)
  then show "length (sipBytes (buildSIPResponse (with_length sample_ask) 200 ''OK'' ''t'' [])) \<le> sipMaxHeadBytes"
    by (simp add: sipMaxHeadBytes_def)
qed


end
