(* ===== verification/Spec2Isabelle.thy ===== *)
theory Spec2Isabelle
  imports System MediaStats G711 AlertFacts AlertDispatch Availability PeriodFacts Dependencies Netguard SipTransaction
begin

text \<open>
  \<^bold>\<open>The core of Probara.\<close> Probara runs checks against monitored systems, turns their results
  into monitor states, and tells people when a state is bad. The parts modelled here, and how they
  interact:

  \<^enum> A worker (\<open>worker/internal\<close>) dials a target the outbound policy allows (\<open>shared/netguard\<close>),
    speaks a protocol to it, and reports a result on a queue. The SIP probe writes and parses SIP
    messages and measures RTP media.
  \<^enum> The scheduler's ingest (\<open>scheduler/internal/ingest\<close>) authenticates a result and stores it with
    \<open>shared/monitorstate\<close>: one state machine per stream of evidence, one quorum per monitor, one
    timeline of state intervals. Its watchdog (\<open>scheduler/internal/scheduler/watchdog.go\<close>) turns
    silence into the state unknown; its mesh (\<open>mesh.go\<close>) probes between locations.
  \<^enum> The alerter (\<open>alerter/internal/alerter\<close>) reads the states: it opens and resolves alerts,
    derives the states of groups, finds root causes along the dependency graph and notifies the
    channels routing chooses (\<open>shared/alertrouting\<close>, \<open>shared/maintenance\<close>).
  \<^enum> The API (\<open>api/internal/services\<close>) administers monitors, locations and dependencies, and reports
    availability by integrating the timeline (\<open>shared/analytics\<close>).

  \<^bold>\<open>Conventions.\<close> A table is the list of its rows, a row a record with the columns the code reads or
  writes; a transaction is a function on the database; an error is the left side of a sum. Time is
  microseconds, passed in wherever the code reads a clock. A string of the SIP code is a list of octets,
  a media slice a list of 8-bit words, and an RTP counter a word of its width. What the code calls and
  does not define (HMAC, JSON decoding, notification providers, resolvers, dialers, random sources,
  Unicode tables outside ASCII) is an argument. \<open>Prelude\<close> holds the statements on tables, the
  sequencing of errors and the locale \<open>machine_run\<close>: an invariant of every step of a machine holds
  after every run; each component with such an invariant interprets it.

  \<^bold>\<open>Monitor states.\<close>
  \<^item> \<open>MonitorState\<close>: \<open>Apply\<close>, \<open>AggregateLocations\<close> and the freshness horizon of
    \<open>shared/monitorstate/state.go\<close> and \<open>freshness.go\<close>. The state of a stream is what its trailing
    failures say; outages open and close in turn; more failing locations never improve the aggregate.
  \<^item> \<open>Store\<close>, \<open>Timeline\<close>, \<open>StoreInvariant\<close>: the tables, \<open>intervals.go\<close>, and the invariant of the
    tables (keys, references, one open interval per monitor whose state is the monitor's).
  \<^item> \<open>Evidence\<close>, \<open>EvidenceSpec\<close>: \<open>Record\<close> of \<open>record.go\<close> and \<open>persistAtLocation\<close> of
    \<open>ingest/quorum.go\<close>. A run of \<open>Record\<close> refines the machine over the accepted results in order;
    the stored state of a located monitor is the quorum over its fresh locations; redelivery is
    a no-op.
  \<^item> \<open>Ingest\<close>: \<open>handleMessage\<close> with authentication and acknowledgement. A message takes effect at
    most once, only an authentic location result is stored, and only a result the schema refuses is
    negatively acknowledged.
  \<^item> \<open>Sweep\<close>, \<open>Watchdog\<close>: keyset pagination as the locales \<open>keyset\<close> and \<open>keyset_complete\<close>,
    interpreted for the passes of the watchdog; a pass ends and misses no stale monitor, and spares
    the fresh ones.
  \<^item> \<open>Mesh\<close>: the set of edges, due edges and probe results. \<open>Administration\<close>: the administrative
    writers. \<open>System\<close>: all writers as one machine; the invariants of the tables and of the timelines
    hold after every sequence of transactions, each with its own clock.

  \<^bold>\<open>Alerts.\<close>
  \<^item> \<open>AlertRouting\<close>, \<open>Notify\<close>: who hears of an alert, and the claim that lets one notification
    through. \<open>AlertLifecycle\<close> is the tick as \<open>lifecycle.go\<close> sequences it; \<open>AlertFacts\<close> and
    \<open>AlertDispatch\<close> say what it achieves: exactly the monitors that are down have an open alert,
    groups have the state of their reachable leaves, and a page goes out exactly when it is due.
  \<^item> \<open>Dependencies\<close>: the dependency graph under the operations of the API stays acyclic, and the
    root cause the alerter names is a root of the failing part of it.

  \<^bold>\<open>Reports.\<close> \<open>Availability\<close>: \<open>IntegrateTimeline\<close>. Every instant of a monitored window falls in
  exactly one class, and the serial composite lies within the bounds its members give. \<open>Calendar\<close> is
  what \<open>period.go\<close> uses of Go's \<open>time\<close>, with the time zone database an argument; \<open>Period\<close> has the
  weeks, months and quarters, their keys and the daily buckets; \<open>PeriodFacts\<close> shows that periods and
  buckets tile time where the zone's days begin at midnight, that keys read back as their periods, and
  that in Santiago, where one day does not begin at midnight, the buckets are never returned.

  \<^bold>\<open>Probes.\<close>
  \<^item> \<open>Netguard\<close>: the address ranges, the refusals of a server-chosen destination, the dialer.
  \<^item> \<open>GoStrings\<close>, \<open>SipMessage\<close>, \<open>SipRoundtrip\<close>, \<open>SipAccept\<close>: the string functions the SIP code
    calls, SIP messages, their round trip as datagrams and in streams, and what the parser accepts.
    \<open>SipRequest\<close>, \<open>SipExchange\<close>: the assembly of requests and replies, and that a reply names the
    transaction of its request. \<open>SipTxn\<close> is the transaction layer as an inductive step relation
    (one message dispatched, one branch of the \<open>select\<close>, anything else the check does); \<open>SipCall\<close> has
    its invariants and \<open>SipTransaction\<close> the properties: the first final response is the one
    returned, retransmissions back off, a reflected request is never answered, and the answer to
    a request reaches the transaction that waits for it.
  \<^item> \<open>Bytes\<close>, \<open>RtpPacket\<close>, \<open>RtpSequence\<close>, \<open>Rtcp\<close>, \<open>MediaStats\<close>, \<open>G711\<close>: the media code of
    \<open>worker/internal/rtp\<close>. A slice expression out of range is the value \<open>None\<close>, and the parsers are
    shown never to reach it; counters are words, and the unwrapped sequence is exact while the
    stream stays within half a cycle.

  \<^bold>\<open>Bounds.\<close> Loops recurse on what they consume. Where SQL iterates to a fixpoint (members of groups,
  upstream monitors) the model iterates as often as there are rows, which reaches the fixpoint since
  each round that is not the last adds one; the root-cause query stops at depth 25 as the code does.
  The watchdog's loop is \<open>partial_function (option)\<close>, where not returning is \<open>None\<close>; every pass is shown
  to return. So is the loop of \<open>DayBuckets\<close>, which returns where days begin at midnight. A page of the
  recovery dispatch is 100 rows, as in the code.

  \<^bold>\<open>Not modelled.\<close> Floating point (percentages, jitter, the E-model, tone tables): HOL's reals would
  not be the program's numbers. Network, files, clocks and processes; metrics and logging; JSON and
  HTTP decoding; the queue, encryption and configuration, which wrap third-party libraries. The
  read-only sides of the API, dashboards, the status page and the import; the rollup and retention
  statements, which aggregate numbers in the database; message texts; columns no modelled operation
  reads. Of the alerter, the breakdown by failing location and the suspected-cause follow-up.
\<close>

end
